(* ===== verification/Go_Prelude.thy ===== *)
theory Go_Prelude
  imports Main "HOL-Library.Word" "HOL-Library.Sublist"
begin

text \<open>
  Shared vocabulary of the development: machine types, durations, the part of Go's
  \<^verbatim>\<open>strings\<close>, \<^verbatim>\<open>strconv\<close> and \<^verbatim>\<open>encoding\<close> packages that the client uses, and the generic
  lemmas on lists, maps and runs of a step function that the component theories share.

  A Go string is a sequence of bytes, so it is a \<^typ>\<open>string\<close> here (a list of 8-bit
  characters) and \<open>length\<close> counts bytes. White space is recognised on whole UTF-8
  sequences, as Go does. Changes of letter case are those of ASCII letters and of the few
  other characters whose case is an ASCII letter; all other bytes keep their value.
\<close>

named_theorems go_str \<open>equations of the string library\<close>
named_theorems go_inv \<open>preservation of component invariants\<close>

type_synonym byte = "8 word"
type_synonym duration = int \<comment> \<open>time.Duration: nanoseconds\<close>
type_synonym instant = int \<comment> \<open>time.Time: nanoseconds on the process clock\<close>

abbreviation millisecond :: duration where
  "millisecond \<equiv> 1000000"

abbreviation second :: duration where
  "second \<equiv> 1000000000"

abbreviation minute :: duration where
  "minute \<equiv> 60000000000"

section \<open>Bytes of a string\<close>

definition char_in :: "char \<Rightarrow> nat \<Rightarrow> nat \<Rightarrow> bool" where
  "char_in c lo hi = (lo \<le> of_char c \<and> of_char c \<le> hi)"

definition is_digit :: "char \<Rightarrow> bool" where
  "is_digit c = char_in c 48 57"

definition is_upper :: "char \<Rightarrow> bool" where
  "is_upper c = char_in c 65 90"

definition is_lower :: "char \<Rightarrow> bool" where
  "is_lower c = char_in c 97 122"

definition is_hex_digit :: "char \<Rightarrow> bool" where
  "is_hex_digit c = (is_digit c \<or> char_in c 97 102 \<or> char_in c 65 70)"

definition digit_val :: "char \<Rightarrow> nat" where
  "digit_val c = of_char c - 48"

definition to_lower_char :: "char \<Rightarrow> char" where
  "to_lower_char c = (if is_upper c then char_of (of_char c + 32 :: nat) else c)"

section \<open>Searching and cutting\<close>

fun indexByte :: "char \<Rightarrow> string \<Rightarrow> nat option" where
  "indexByte c [] = None"
| "indexByte c (x # xs) = (if x = c then Some 0 else map_option Suc (indexByte c xs))"

fun lastIndexByte :: "char \<Rightarrow> string \<Rightarrow> nat option" where
  "lastIndexByte c [] = None"
| "lastIndexByte c (x # xs) =
     (case lastIndexByte c xs of
        Some i \<Rightarrow> Some (Suc i)
      | None \<Rightarrow> (if x = c then Some 0 else None))"

text \<open>\<^verbatim>\<open>strings.Split(s, sep)\<close> for a one-byte separator.\<close>

fun split_on :: "char \<Rightarrow> string \<Rightarrow> string list" where
  "split_on c [] = [[]]"
| "split_on c (x # xs) =
     (if x = c then [] # split_on c xs
      else (case split_on c xs of [] \<Rightarrow> [[x]] | w # ws \<Rightarrow> (x # w) # ws))"

text \<open>\<^verbatim>\<open>strings.Cut(s, sep)\<close> for a one-byte separator: \<open>None\<close> when it does not occur.\<close>

definition cut_at :: "char \<Rightarrow> string \<Rightarrow> (string \<times> string) option" where
  "cut_at c s = map_option (\<lambda>i. (take i s, drop (Suc i) s)) (indexByte c s)"

definition trim_set :: "string \<Rightarrow> string \<Rightarrow> string" where
  "trim_set cs s = rev (dropWhile (\<lambda>c. c \<in> set cs) (rev (dropWhile (\<lambda>c. c \<in> set cs) s)))"

definition trimRight_set :: "string \<Rightarrow> string \<Rightarrow> string" where
  "trimRight_set cs s = rev (dropWhile (\<lambda>c. c \<in> set cs) (rev s))"

definition trimSuffix :: "string \<Rightarrow> string \<Rightarrow> string" where
  "trimSuffix s suf = (if suffix suf s then take (length s - length suf) s else s)"

text \<open>
  \<^verbatim>\<open>strings.ReplaceAll\<close>: leftmost, non-overlapping occurrences. Every call in the client has
  a non-empty pattern.
\<close>

function replaceAll :: "string \<Rightarrow> string \<Rightarrow> string \<Rightarrow> string" where
  "replaceAll old new s =
     (if old = [] \<or> s = [] then s
      else if prefix old s then new @ replaceAll old new (drop (length old) s)
      else hd s # replaceAll old new (tl s))"
  by pat_completeness auto
termination
  by (relation "measure (\<lambda>(old, new, s). length s)") auto

declare replaceAll.simps [simp del]

text \<open>Bytes written as numbers.\<close>

definition bytes_str :: "nat list \<Rightarrow> string" where
  "bytes_str ns = map char_of ns"

section \<open>Letter case\<close>

text \<open>
  \<^verbatim>\<open>strings.ToLower\<close> and \<^verbatim>\<open>strings.EqualFold\<close>. Two runes outside ASCII have an ASCII letter as
  lower case, the Kelvin sign and the dotted capital I, and two fold to one, the Kelvin sign
  and the long s; the lower case of any other rune stays outside ASCII, and every text the
  client compares the result with is ASCII, so that such runes are left alone here.
\<close>

definition kelvin_sign :: string where
  "kelvin_sign = bytes_str [226, 132, 170]"

definition dotted_I :: string where
  "dotted_I = bytes_str [196, 176]"

definition long_s :: string where
  "long_s = bytes_str [197, 191]"

definition toLower :: "string \<Rightarrow> string" where
  "toLower s = map to_lower_char (replaceAll kelvin_sign ''k'' (replaceAll dotted_I ''i'' s))"

definition equalFold :: "string \<Rightarrow> string \<Rightarrow> bool" where
  "equalFold s t =
     (map to_lower_char (replaceAll kelvin_sign ''k'' (replaceAll long_s ''s'' s)) =
      map to_lower_char (replaceAll kelvin_sign ''k'' (replaceAll long_s ''s'' t)))"

lemma replaceAll_absent: "old \<noteq> [] \<Longrightarrow> hd old \<notin> set s \<Longrightarrow> replaceAll old new s = s"
proof (induction s)
  case (Cons c s)
  then have "\<not> prefix old (c # s)" by (cases old) auto
  with Cons show ?case by (simp add: replaceAll.simps [of old new "c # s"])
qed (simp add: replaceAll.simps)

lemma replaceAll_above_ascii:
  assumes "list_all (\<lambda>c. of_char c < (128::nat)) s"
  shows "replaceAll kelvin_sign new s = s" "replaceAll dotted_I new s = s" "replaceAll long_s new s = s"
proof -
  have no: "char_of n \<notin> set s" if "128 \<le> n" "n < (256 :: nat)" for n
  proof
    assume "char_of n \<in> set s"
    with assms have "of_char (char_of n :: char) < (128 :: nat)" by (auto simp only: list_all_iff)
    with that show False by simp
  qed
  have bytes: "replaceAll (bytes_str (n # ns)) new s = s" if "128 \<le> n" "n < (256 :: nat)" for n ns
    by (rule replaceAll_absent) (use no [OF that] in \<open>simp_all only: bytes_str_def list.map list.sel list.distinct simp_thms\<close>)
  show "replaceAll kelvin_sign new s = s" "replaceAll dotted_I new s = s" "replaceAll long_s new s = s"
    unfolding kelvin_sign_def dotted_I_def long_s_def by (rule bytes; simp)+
qed

lemma toLower_ascii: "list_all (\<lambda>c. of_char c < (128::nat)) s \<Longrightarrow> toLower s = map to_lower_char s"
  by (simp add: toLower_def replaceAll_above_ascii)

lemma equalFold_ascii:
  "list_all (\<lambda>c. of_char c < (128::nat)) s \<Longrightarrow> list_all (\<lambda>c. of_char c < (128::nat)) t \<Longrightarrow>
   equalFold s t = (map to_lower_char s = map to_lower_char t)"
  by (simp add: equalFold_def replaceAll_above_ascii)

section \<open>White space\<close>

text \<open>
  The byte sequences of the runes \<^verbatim>\<open>unicode.IsSpace\<close> accepts. Their first bytes never occur
  inside another rune, so matching them as byte strings is matching runes.
\<close>

definition space_seqs :: "string list" where
  "space_seqs = map bytes_str
     ([[9], [10], [11], [12], [13], [32], [194, 133], [194, 160], [225, 154, 128],
       [226, 128, 168], [226, 128, 169], [226, 128, 175], [226, 129, 159], [227, 128, 128]]
      @ map (\<lambda>b. [226, 128, b]) [128, 129, 130, 131, 132, 133, 134, 135, 136, 137, 138])"

definition space_len :: "string \<Rightarrow> nat" where
  "space_len s = (case find (\<lambda>p. prefix p s) space_seqs of None \<Rightarrow> 0 | Some p \<Rightarrow> length p)"

definition space_suffix_len :: "string \<Rightarrow> nat" where
  "space_suffix_len s =
     (case find (\<lambda>p. suffix p s) space_seqs of None \<Rightarrow> 0 | Some p \<Rightarrow> length p)"

lemma space_len_le: "space_len s \<le> length s"
  by (auto simp: space_len_def find_Some_iff prefix_length_le split: option.splits)

lemma space_suffix_len_le: "space_suffix_len s \<le> length s"
  by (auto simp: space_suffix_len_def find_Some_iff suffix_length_le split: option.splits)

lemma space_len_Nil [simp]: "space_len [] = 0"
  using space_len_le [of "[]"] by simp

lemma space_suffix_len_Nil [simp]: "space_suffix_len [] = 0"
  using space_suffix_len_le [of "[]"] by simp

function trimLeftSpace :: "string \<Rightarrow> string" where
  "trimLeftSpace s = (if space_len s = 0 then s else trimLeftSpace (drop (space_len s) s))"
  by pat_completeness auto
termination
  by (relation "measure length")
    (auto, metis diff_less gr0I length_greater_0_conv space_len_Nil)

function trimRightSpace :: "string \<Rightarrow> string" where
  "trimRightSpace s =
     (if space_suffix_len s = 0 then s
      else trimRightSpace (take (length s - space_suffix_len s) s))"
  by pat_completeness auto
termination
  by (relation "measure length")
    (auto, metis diff_less gr0I length_greater_0_conv space_suffix_len_Nil)

declare trimLeftSpace.simps [simp del] trimRightSpace.simps [simp del]

definition trimSpace :: "string \<Rightarrow> string" where
  "trimSpace s = trimRightSpace (trimLeftSpace s)"

definition flush_field :: "string \<Rightarrow> string list" where
  "flush_field cur = (if cur = [] then [] else [cur])"

function strFields_from :: "string \<Rightarrow> string \<Rightarrow> string list" where
  "strFields_from cur s =
     (if s = [] then flush_field cur
      else if space_len s = 0 then strFields_from (cur @ [hd s]) (tl s)
      else flush_field cur @ strFields_from [] (drop (space_len s) s))"
  by pat_completeness auto
termination
  by (relation "measure (\<lambda>(cur, s). length s)") auto

declare strFields_from.simps [simp del]

text \<open>\<^verbatim>\<open>strings.Fields\<close>\<close>

definition strFields :: "string \<Rightarrow> string list" where
  "strFields s = strFields_from [] s"

section \<open>Numbers as text\<close>

definition digits_val :: "string \<Rightarrow> int" where
  "digits_val s = foldl (\<lambda>n c. 10 * n + int (digit_val c)) 0 s"

text \<open>
  \<^verbatim>\<open>strconv.ParseUint(s, 10, bits)\<close>: digits only, at least one, and in range; \<open>None\<close> is the
  error (syntax or range).
\<close>

definition parseUint :: "nat \<Rightarrow> string \<Rightarrow> nat option" where
  "parseUint bits s =
     (if s \<noteq> [] \<and> list_all is_digit s \<and> digits_val s < 2 ^ bits
      then Some (nat (digits_val s)) else None)"

text \<open>
  \<^verbatim>\<open>strconv.Atoi(s)\<close> and \<^verbatim>\<open>strconv.ParseInt(s, 10, 64)\<close>: an optional sign, then digits; the
  value must fit 64 bits.
\<close>

definition atoi :: "string \<Rightarrow> int option" where
  "atoi s =
     (let neg = (s \<noteq> [] \<and> hd s = CHR ''-'');
          ds = (if s \<noteq> [] \<and> (hd s = CHR ''-'' \<or> hd s = CHR ''+'') then tl s else s)
      in if ds = [] \<or> \<not> list_all is_digit ds then None
         else if neg then (if digits_val ds \<le> 2 ^ 63 then Some (- digits_val ds) else None)
         else (if digits_val ds < 2 ^ 63 then Some (digits_val ds) else None))"

text \<open>\<^verbatim>\<open>fmt.Sprint\<close> and \<^verbatim>\<open>%d\<close> of an integer.\<close>

fun nat_str :: "nat \<Rightarrow> string" where
  "nat_str n = (if n < 10 then [char_of (48 + n)] else nat_str (n div 10) @ [char_of (48 + n mod 10)])"

declare nat_str.simps [simp del]

definition int_str :: "int \<Rightarrow> string" where
  "int_str i = (if i < 0 then CHR ''-'' # nat_str (nat (- i)) else nat_str (nat i))"

definition hex_digit_char :: "nat \<Rightarrow> char" where
  "hex_digit_char n = (if n < 10 then char_of (48 + n) else char_of (87 + n))"

text \<open>\<^verbatim>\<open>hex.EncodeToString\<close> and \<^verbatim>\<open>%x\<close> of bytes.\<close>

definition hex_byte :: "byte \<Rightarrow> string" where
  "hex_byte b = [hex_digit_char (unat b div 16), hex_digit_char (unat b mod 16)]"

definition hex_encode :: "byte list \<Rightarrow> string" where
  "hex_encode bs = concat (map hex_byte bs)"

lemma digit_val_char_of [simp]: "d < (10::nat) \<Longrightarrow> digit_val (char_of (48 + d)) = d"
  by (simp add: digit_val_def)

lemma is_digit_char_of [simp]: "d < (10::nat) \<Longrightarrow> is_digit (char_of (48 + d))"
  by (simp add: is_digit_def char_in_def)

lemma nat_str_not_Nil [simp]: "nat_str n \<noteq> []"
  by (subst nat_str.simps) simp

lemma nat_str_digits: "list_all is_digit (nat_str n)"
proof (induction n rule: nat_str.induct)
  case (1 n)
  then show ?case by (subst nat_str.simps) auto
qed

lemma digits_val_nonneg: "0 \<le> digits_val s"
  by (induction s rule: rev_induct) (auto simp: digits_val_def)

lemma digits_val_nat_str: "digits_val (nat_str n) = int n"
proof (induction n rule: nat_str.induct)
  case (1 n)
  show ?case
  proof (cases "n < 10")
    case True
    then show ?thesis by (subst nat_str.simps) (simp add: digits_val_def)
  next
    case False
    with 1 have "digits_val (nat_str (n div 10)) = int (n div 10)" by simp
    with False show ?thesis
      by (subst nat_str.simps) (simp add: digits_val_def, presburger)
  qed
qed

lemma hd_nat_str_digit: "is_digit (hd (nat_str n))"
  using nat_str_digits [of n] by (cases "nat_str n") auto

lemma sign_not_digit: "\<not> is_digit (CHR ''-'')" "\<not> is_digit (CHR ''+'')"
  by (simp_all add: is_digit_def char_in_def)

lemma hd_nat_str_no_sign: "hd (nat_str n) \<noteq> CHR ''-''" "hd (nat_str n) \<noteq> CHR ''+''"
  using hd_nat_str_digit [of n] sign_not_digit by auto

text \<open>Printing an integer and reading it back.\<close>

lemma atoi_int_str: "- (2 ^ 63) \<le> i \<Longrightarrow> i < 2 ^ 63 \<Longrightarrow> atoi (int_str i) = Some i"
proof (cases "i < 0")
  case True
  moreover assume "- (2 ^ 63) \<le> i" "i < 2 ^ 63"
  ultimately show ?thesis
    by (simp add: atoi_def int_str_def Let_def nat_str_digits digits_val_nat_str)
next
  case False
  moreover assume "- (2 ^ 63) \<le> i" "i < 2 ^ 63"
  ultimately show ?thesis
    by (simp add: atoi_def int_str_def Let_def nat_str_digits digits_val_nat_str hd_nat_str_no_sign
       )
qed

lemma parseUint_nat_str: "n < 2 ^ bits \<Longrightarrow> parseUint bits (nat_str n) = Some n"
  by (simp add: parseUint_def nat_str_digits digits_val_nat_str)

lemma parseUint_bound: "parseUint bits s = Some n \<Longrightarrow> n < 2 ^ bits"
  using digits_val_nonneg [of s]
  by (auto simp: parseUint_def nat_less_iff split: if_splits)

lemma atoi_bounds: "atoi s = Some i \<Longrightarrow> - (2 ^ 63) \<le> i \<and> i < 2 ^ 63"
  using digits_val_nonneg [of s] digits_val_nonneg [of "tl s"]
  by (auto simp: atoi_def Let_def split: if_splits)

section \<open>Indices of bytes\<close>

lemma indexByte_None: "indexByte c s = None \<longleftrightarrow> c \<notin> set s"
  by (induction s) auto

lemma lastIndexByte_None: "lastIndexByte c s = None \<longleftrightarrow> c \<notin> set s"
  by (induction s) (auto split: option.splits)

lemma indexByte_append_notin: "c \<notin> set xs \<Longrightarrow> indexByte c (xs @ c # ys) = Some (length xs)"
  by (induction xs) auto

lemma lastIndexByte_append_notin:
  "c \<notin> set ys \<Longrightarrow> lastIndexByte c (xs @ c # ys) = Some (length xs)"
proof (induction xs)
  case Nil
  then have "lastIndexByte c ys = None" by (simp add: lastIndexByte_None)
  then show ?case by simp
qed simp

lemma indexByte_SomeD: "indexByte c s = Some i \<Longrightarrow> i < length s \<and> s ! i = c \<and> c \<notin> set (take i s)"
  by (induction s arbitrary: i) (auto split: if_splits)

lemma lastIndexByte_SomeD:
  "lastIndexByte c s = Some i \<Longrightarrow> i < length s \<and> s ! i = c \<and> c \<notin> set (drop (Suc i) s)"
  by (induction s arbitrary: i) (auto simp: lastIndexByte_None split: if_splits option.splits)

lemma find_SomeD: "find P xs = Some x \<Longrightarrow> x \<in> set xs \<and> P x"
  by (auto simp: find_Some_iff)

lemma set_slice_subset:
  assumes "\<forall>j. a \<le> j \<and> j < b \<longrightarrow> xs ! j \<in> S" "b \<le> length xs"
  shows "set (drop a (take b xs)) \<subseteq> S"
proof
  fix x assume "x \<in> set (drop a (take b xs))"
  then obtain i where "i < b - a" "x = xs ! (a + i)"
    using assms(2) by (auto simp: in_set_conv_nth)
  then show "x \<in> S" using assms(1) by (auto dest: spec [of _ "a + i"])
qed

section \<open>Runs of a step function\<close>

text \<open>
  A component that reacts to one event at a time is a step function; its runs are \<open>foldl\<close>.
  The locale lifts a one-step invariant to every run once and for all.
\<close>

locale machine =
  fixes step :: "'s \<Rightarrow> 'e \<Rightarrow> 's"
    and inv :: "'s \<Rightarrow> bool"
    and ok :: "'e \<Rightarrow> bool"
  assumes step_inv: "inv s \<Longrightarrow> ok e \<Longrightarrow> inv (step s e)"
begin

lemma run_inv: "inv s \<Longrightarrow> list_all ok es \<Longrightarrow> inv (foldl step s es)"
  by (induction es arbitrary: s) (auto intro: step_inv)

end

text \<open>A machine with a relation that every step keeps between its first and last state.\<close>

locale preserving_machine = machine +
  fixes rel :: "'s \<Rightarrow> 's \<Rightarrow> bool"
  assumes rel_refl: "rel s s"
    and rel_trans: "rel s t \<Longrightarrow> rel t u \<Longrightarrow> rel s u"
    and step_rel: "inv s \<Longrightarrow> ok e \<Longrightarrow> rel s (step s e)"
begin

lemma run_rel: "inv s \<Longrightarrow> list_all ok es \<Longrightarrow> rel s (foldl step s es)"
proof (induction es arbitrary: s)
  case Nil
  then show ?case by (simp add: rel_refl)
next
  case (Cons e es)
  then have "rel s (step s e)" and "rel (step s e) (foldl step (step s e) es)"
    by (auto intro: step_rel step_inv)
  then show ?case by (auto intro: rel_trans)
qed

end

text \<open>
  A machine that works only while it is \<open>busy\<close>, with a measure that every busy step lowers:
  it comes to rest after at most that many events, and then stays where it is.
\<close>

locale resting_machine = machine +
  fixes busy :: "'s \<Rightarrow> bool"
    and work :: "'s \<Rightarrow> nat"
  assumes busy_work: "inv s \<Longrightarrow> busy s \<Longrightarrow> 0 < work s"
    and rest_step: "inv s \<Longrightarrow> \<not> busy s \<Longrightarrow> step s e = s"
    and busy_step: "inv s \<Longrightarrow> busy s \<Longrightarrow> ok e \<Longrightarrow> work (step s e) < work s"
begin

lemma rest_run: "inv s \<Longrightarrow> \<not> busy s \<Longrightarrow> foldl step s es = s"
  by (induction es) (auto simp: rest_step)

lemma run_rests: "inv s \<Longrightarrow> list_all ok es \<Longrightarrow> work s \<le> length es \<Longrightarrow> \<not> busy (foldl step s es)"
proof (induction es arbitrary: s)
  case Nil
  then show ?case using busy_work [of s] by auto
next
  case (Cons e es)
  show ?case
  proof (cases "busy s")
    case True
    with Cons.prems have "work (step s e) < work s" by (auto intro: busy_step)
    with Cons.prems have "work (step s e) \<le> length es" by simp
    with Cons show ?thesis by (auto intro: step_inv)
  next
    case False
    with Cons.prems show ?thesis using rest_run [of s "e # es"] by simp
  qed
qed

end

section \<open>Back-off\<close>

text \<open>
  The contract of a delay that grows from \<open>lo\<close> up to \<open>cap\<close>: a step never lowers it, never passes
  the cap, and at least doubles it while the cap is out of reach.
\<close>

locale capped_backoff =
  fixes grow :: "duration \<Rightarrow> duration" and lo :: duration and cap :: duration
  assumes lo_pos: "0 < lo" and lo_cap: "lo \<le> cap"
    and grow_bounds: "lo \<le> b \<Longrightarrow> b \<le> cap \<Longrightarrow> b \<le> grow b \<and> grow b \<le> cap"
    and grow_doubles: "lo \<le> b \<Longrightarrow> b \<le> cap \<Longrightarrow> 2 * b \<le> grow b \<or> grow b = cap"
begin

lemma delay_bounds: "lo \<le> (grow ^^ n) lo \<and> (grow ^^ n) lo \<le> cap"
proof (induction n)
  case 0
  then show ?case by (simp add: lo_cap)
next
  case (Suc n)
  then show ?case using grow_bounds [of "(grow ^^ n) lo"] by auto
qed

lemma delay_mono: "(grow ^^ n) lo \<le> (grow ^^ Suc n) lo"
  using delay_bounds [of n] grow_bounds by simp

lemma delay_reaches: "min cap (2 ^ n * lo) \<le> (grow ^^ n) lo"
proof (induction n)
  case 0
  then show ?case by simp
next
  case (Suc n)
  then show ?case
    using delay_bounds [of n] grow_doubles [of "(grow ^^ n) lo"] grow_bounds [of "(grow ^^ n) lo"]
    by (auto simp: min_le_iff_disj mult.assoc)
qed

end

section \<open>Queues without repetition\<close>

text \<open>The first occurrences in \<open>xs\<close> of what is not in \<open>seen\<close>, in order.\<close>

fun keep_first :: "'a set \<Rightarrow> 'a list \<Rightarrow> 'a list" where
  "keep_first seen [] = []"
| "keep_first seen (x # xs) =
     (if x \<in> seen then keep_first seen xs else x # keep_first (insert x seen) xs)"

lemma set_keep_first: "set (keep_first seen xs) = set xs - seen"
  by (induction xs arbitrary: seen) auto

lemma distinct_keep_first: "distinct (keep_first seen xs)"
  by (induction xs arbitrary: seen) (auto simp: set_keep_first)

lemma keep_first_append:
  "keep_first seen (xs @ ys) = keep_first seen xs @ keep_first (seen \<union> set xs) ys"
  by (induction xs arbitrary: seen) (auto simp: insert_absorb)

lemma keep_first_filter: "keep_first seen (filter (\<lambda>x. x \<notin> A) xs) = keep_first (seen \<union> A) xs"
  by (induction xs arbitrary: seen) auto

text \<open>
  The contract of a closure that appends an element to a queue unless it is to be skipped or
  was seen before: a fold of it is \<^const>\<open>keep_first\<close>.
\<close>

locale first_seen_queue =
  fixes add :: "'a set \<times> 'a list \<Rightarrow> 'a \<Rightarrow> 'a set \<times> 'a list"
    and skip :: "'a set"
  assumes add_skip: "x \<in> skip \<or> x \<in> seen \<Longrightarrow> add (seen, q) x = (seen, q)"
    and add_new: "x \<notin> skip \<Longrightarrow> x \<notin> seen \<Longrightarrow> add (seen, q) x = (insert x seen, q @ [x])"
begin

lemma add_all: "foldl add (seen, q) xs = (seen \<union> (set xs - skip), q @ keep_first (seen \<union> skip) xs)"
proof (induction xs arbitrary: seen q)
  case (Cons x xs)
  show ?case
  proof (cases "x \<in> skip \<or> x \<in> seen")
    case True
    then have "foldl add (seen, q) (x # xs) = foldl add (seen, q) xs" by (simp add: add_skip)
    with True Cons show ?thesis by auto
  next
    case False
    then have "foldl add (seen, q) (x # xs) = foldl add (insert x seen, q @ [x]) xs"
      by (simp add: add_new)
    with False Cons show ?thesis by auto
  qed
qed simp

lemma add_guarded:
  "foldl (\<lambda>st y. if P y then add st (f y) else st) st ys = foldl add st (map f (filter P ys))"
  by (induction ys arbitrary: st) auto

end

end
