(* ===== verification/Net_Addr.thy ===== *)
theory Net_Addr
  imports Go_Prelude
begin

text \<open>
  The address half of Go's \<^verbatim>\<open>net\<close> and \<^verbatim>\<open>net/netip\<close> packages, as far as the client uses it:
  \<^verbatim>\<open>net.IP\<close> and its classification methods, \<^verbatim>\<open>netip.ParseAddr\<close>, \<^verbatim>\<open>netip.ParseAddrPort\<close>,
  \<^verbatim>\<open>net.SplitHostPort\<close>, \<^verbatim>\<open>net.JoinHostPort\<close> and the printing of addresses. These are the
  language's standard library, so they have no source lines of their own in the
  repository; every component that classifies or compares endpoints rests on them.
\<close>

unbundle bit_operations_syntax

section \<open>net.IP\<close>

text \<open>A \<^verbatim>\<open>net.IP\<close> is a byte slice: 4 or 16 bytes, or the nil slice \<open>[]\<close>.\<close>

type_synonym net_ip = "byte list"

definition v4InV6Prefix :: net_ip where
  "v4InV6Prefix = [0, 0, 0, 0, 0, 0, 0, 0, 0, 0, 255, 255]"

definition to4 :: "net_ip \<Rightarrow> net_ip" where
  "to4 ip = (if length ip = 4 then ip
             else if length ip = 16 \<and> take 12 ip = v4InV6Prefix then drop 12 ip
             else [])"

definition is_v4 :: "net_ip \<Rightarrow> bool" where
  "is_v4 ip = (to4 ip \<noteq> [])"

definition ip_equal :: "net_ip \<Rightarrow> net_ip \<Rightarrow> bool" where
  "ip_equal a b =
     (if length a = length b then a = b
      else if length a = 4 \<and> length b = 16 then take 12 b = v4InV6Prefix \<and> a = drop 12 b
      else if length a = 16 \<and> length b = 4 then take 12 a = v4InV6Prefix \<and> drop 12 a = b
      else False)"

definition ipv4 :: "byte \<Rightarrow> byte \<Rightarrow> byte \<Rightarrow> byte \<Rightarrow> net_ip" where
  "ipv4 a b c d = v4InV6Prefix @ [a, b, c, d]"

definition ip_isUnspecified :: "net_ip \<Rightarrow> bool" where
  "ip_isUnspecified ip = (ip_equal ip (ipv4 0 0 0 0) \<or> ip_equal ip (replicate 16 0))"

definition ip_isLoopback :: "net_ip \<Rightarrow> bool" where
  "ip_isLoopback ip =
     (if is_v4 ip then to4 ip ! 0 = 127 else ip_equal ip (replicate 15 0 @ [1]))"

definition ip_isPrivate :: "net_ip \<Rightarrow> bool" where
  "ip_isPrivate ip =
     (if is_v4 ip then
        (let q = to4 ip in
         q ! 0 = 10 \<or> (q ! 0 = 172 \<and> q ! 1 AND 240 = 16) \<or> (q ! 0 = 192 \<and> q ! 1 = 168))
      else length ip = 16 \<and> ip ! 0 AND 254 = 252)"

definition ip_isMulticast :: "net_ip \<Rightarrow> bool" where
  "ip_isMulticast ip =
     (if is_v4 ip then to4 ip ! 0 AND 240 = 224 else length ip = 16 \<and> ip ! 0 = 255)"

definition ip_isLinkLocalUnicast :: "net_ip \<Rightarrow> bool" where
  "ip_isLinkLocalUnicast ip =
     (if is_v4 ip then to4 ip ! 0 = 169 \<and> to4 ip ! 1 = 254
      else length ip = 16 \<and> ip ! 0 = 254 \<and> ip ! 1 AND 192 = 128)"

definition ip_isGlobalUnicast :: "net_ip \<Rightarrow> bool" where
  "ip_isGlobalUnicast ip =
     ((length ip = 4 \<or> length ip = 16) \<and> \<not> ip_equal ip (ipv4 255 255 255 255) \<and>
      \<not> ip_isUnspecified ip \<and> \<not> ip_isLoopback ip \<and> \<not> ip_isMulticast ip \<and>
      \<not> ip_isLinkLocalUnicast ip)"

section \<open>netip.Addr\<close>

text \<open>
  \<^verbatim>\<open>netip.Addr\<close> keeps the two families apart: an IPv4-mapped IPv6 address is an \<open>Addr6\<close>, for
  which \<^verbatim>\<open>Is6\<close> holds, although \<^verbatim>\<open>net.IP.To4\<close> would accept its bytes.
\<close>

datatype netip_addr =
    AddrZero
  | Addr4 "byte list"
  | Addr6 "byte list" string \<comment> \<open>16 bytes and the zone\<close>

fun addr_Is4 :: "netip_addr \<Rightarrow> bool" where
  "addr_Is4 (Addr4 _) = True"
| "addr_Is4 _ = False"

fun addr_Is6 :: "netip_addr \<Rightarrow> bool" where
  "addr_Is6 (Addr6 _ _) = True"
| "addr_Is6 _ = False"

fun addr_IsValid :: "netip_addr \<Rightarrow> bool" where
  "addr_IsValid AddrZero = False"
| "addr_IsValid _ = True"

fun addr_AsSlice :: "netip_addr \<Rightarrow> byte list" where
  "addr_AsSlice AddrZero = []"
| "addr_AsSlice (Addr4 bs) = bs"
| "addr_AsSlice (Addr6 bs z) = bs"

definition addrFromSlice :: "byte list \<Rightarrow> netip_addr" where
  "addrFromSlice bs =
     (if length bs = 4 then Addr4 bs else if length bs = 16 then Addr6 bs [] else AddrZero)"

subsection \<open>Parsing\<close>

text \<open>
  The loop of \<^verbatim>\<open>parseIPv4Fields\<close>: the value and number of digits of the current octet, whether
  the previous byte was a dot (or there was none), and the octets read so far.
\<close>

fun ipv4_fields :: "nat \<Rightarrow> nat \<Rightarrow> bool \<Rightarrow> byte list \<Rightarrow> string \<Rightarrow> byte list option" where
  "ipv4_fields val digLen afterDot acc [] =
     (if length acc < 3 then None else Some (acc @ [of_nat val]))"
| "ipv4_fields val digLen afterDot acc (c # cs) =
     (if is_digit c then
        (if digLen = 1 \<and> val = 0 then None
         else if val * 10 + digit_val c > 255 then None
         else ipv4_fields (val * 10 + digit_val c) (digLen + 1) False acc cs)
      else if c = CHR ''.'' then
        (if afterDot \<or> cs = [] then None
         else if length acc = 3 then None
         else ipv4_fields 0 0 True (acc @ [of_nat val]) cs)
      else None)"

definition parseIPv4Fields :: "string \<Rightarrow> byte list option" where
  "parseIPv4Fields s = ipv4_fields 0 0 True [] s"

definition hex_val :: "char \<Rightarrow> nat" where
  "hex_val c = (if is_digit c then of_char c - 48
                else if char_in c 97 102 then of_char c - 87 else of_char c - 55)"

fun scan_hex :: "nat \<Rightarrow> nat \<Rightarrow> string \<Rightarrow> (nat \<times> nat \<times> string) option" where
  "scan_hex off acc [] = Some (acc, off, [])"
| "scan_hex off acc (c # cs) =
     (if is_hex_digit c then
        (if off > 3 \<or> acc * 16 + hex_val c > 65535 then None
         else scan_hex (off + 1) (acc * 16 + hex_val c) cs)
      else Some (acc, off, c # cs))"

text \<open>
  The loop of \<^verbatim>\<open>parseIPv6\<close>: the bytes read so far, the position of the ellipsis and the rest of
  the text.
\<close>

function ipv6_groups ::
  "byte list \<Rightarrow> nat option \<Rightarrow> string \<Rightarrow> (byte list \<times> nat option \<times> string) option" where
  "ipv6_groups ip ell s =
     (if 16 \<le> length ip then Some (ip, ell, s)
      else case scan_hex 0 0 s of
        None \<Rightarrow> None
      | Some (acc, off, rest) \<Rightarrow>
          (if off = 0 then None
           else if rest \<noteq> [] \<and> hd rest = CHR ''.'' then
             (if ell = None \<and> length ip \<noteq> 12 then None
              else if length ip + 4 > 16 then None
              else map_option (\<lambda>fs. (ip @ fs, ell, [])) (parseIPv4Fields s))
           else if rest = [] then Some (ip @ [of_nat (acc div 256), of_nat acc], ell, [])
           else if hd rest \<noteq> CHR '':'' \<or> tl rest = [] then None
           else if hd (tl rest) = CHR '':'' then
             (if ell \<noteq> None then None
              else if tl (tl rest) = []
                then Some (ip @ [of_nat (acc div 256), of_nat acc], Some (length ip + 2), [])
              else ipv6_groups (ip @ [of_nat (acc div 256), of_nat acc])
                     (Some (length ip + 2)) (tl (tl rest)))
           else ipv6_groups (ip @ [of_nat (acc div 256), of_nat acc]) ell (tl rest)))"
  by pat_completeness auto
termination
  by (relation "measure (\<lambda>(ip, ell, s). 16 - length ip)") auto

declare ipv6_groups.simps [simp del]

definition expand_ellipsis :: "byte list \<Rightarrow> nat option \<Rightarrow> byte list option" where
  "expand_ellipsis ip ell =
     (case ell of
        None \<Rightarrow> (if length ip < 16 then None else Some ip)
      | Some e \<Rightarrow> (if length ip < 16
                   then Some (take e ip @ replicate (16 - length ip) 0 @ drop e ip)
                   else None))"

definition parseIPv6 :: "string \<Rightarrow> netip_addr option" where
  "parseIPv6 inp =
     (let cut = cut_at (CHR ''%'') inp;
          s = (case cut of None \<Rightarrow> inp | Some (a, z) \<Rightarrow> a);
          zone = (case cut of None \<Rightarrow> [] | Some (a, z) \<Rightarrow> z)
      in if cut \<noteq> None \<and> zone = [] then None
         else if s = ''::'' then Some (Addr6 (replicate 16 0) zone)
         else
           (let lead = prefix ''::'' s;
                ell = (if lead then Some 0 else None);
                body = (if lead then drop 2 s else s)
            in case ipv6_groups [] ell body of
                 None \<Rightarrow> None
               | Some (ip, e, rest) \<Rightarrow>
                   (if rest \<noteq> [] then None
                    else map_option (\<lambda>bs. Addr6 bs zone) (expand_ellipsis ip e))))"

definition parseAddr :: "string \<Rightarrow> netip_addr option" where
  "parseAddr s =
     (case find (\<lambda>c. c = CHR ''.'' \<or> c = CHR '':'' \<or> c = CHR ''%'') s of
        None \<Rightarrow> None
      | Some c \<Rightarrow> (if c = CHR ''.'' then map_option Addr4 (parseIPv4Fields s)
                   else if c = CHR '':'' then parseIPv6 s
                   else None))"

text \<open>\<^verbatim>\<open>net.ParseIP\<close>: 16 bytes in either family, nil (\<open>None\<close>) for a zone or a syntax error.\<close>

definition parseIP :: "string \<Rightarrow> net_ip option" where
  "parseIP s =
     (case parseAddr s of
        Some (Addr4 bs) \<Rightarrow> Some (v4InV6Prefix @ bs)
      | Some (Addr6 bs z) \<Rightarrow> (if z = [] then Some bs else None)
      | _ \<Rightarrow> None)"

subsection \<open>Addresses with a port\<close>

type_synonym addr_port = "netip_addr \<times> 16 word"

definition splitAddrPort :: "string \<Rightarrow> (string \<times> string \<times> bool) option" where
  "splitAddrPort s =
     (case lastIndexByte (CHR '':'') s of
        None \<Rightarrow> None
      | Some i \<Rightarrow>
          (let ip = take i s; port = drop (Suc i) s in
           if ip = [] \<or> port = [] then None
           else if hd ip = CHR ''['' then
             (if length ip < 2 \<or> last ip \<noteq> CHR '']'' then None
              else Some (butlast (tl ip), port, True))
           else Some (ip, port, False)))"

definition parseAddrPort :: "string \<Rightarrow> addr_port option" where
  "parseAddrPort s =
     (case splitAddrPort s of
        None \<Rightarrow> None
      | Some (ip, port, v6) \<Rightarrow>
          (case (parseUint 16 port, parseAddr ip) of
             (Some p, Some a) \<Rightarrow>
               (if v6 \<and> addr_Is4 a \<or> \<not> v6 \<and> addr_Is6 a then None else Some (a, of_nat p))
           | _ \<Rightarrow> None))"

text \<open>\<^verbatim>\<open>net.SplitHostPort\<close> and \<^verbatim>\<open>net.JoinHostPort\<close>\<close>

definition splitHostPort :: "string \<Rightarrow> (string \<times> string) option" where
  "splitHostPort hp =
     (case lastIndexByte (CHR '':'') hp of
        None \<Rightarrow> None
      | Some i \<Rightarrow>
          (if hd hp = CHR ''['' then
             (case indexByte (CHR '']'') hp of
                None \<Rightarrow> None
              | Some end \<Rightarrow>
                  (if Suc end \<noteq> i then None
                   else if CHR ''['' \<in> set (drop 1 hp) \<or> CHR '']'' \<in> set (drop (Suc end) hp) then None
                   else Some (take (end - 1) (drop 1 hp), drop (Suc i) hp)))
           else if CHR '':'' \<in> set (take i hp) \<or> CHR ''['' \<in> set hp \<or> CHR '']'' \<in> set hp then None
           else Some (take i hp, drop (Suc i) hp)))"

definition joinHostPort :: "string \<Rightarrow> string \<Rightarrow> string" where
  "joinHostPort host port =
     (if CHR '':'' \<in> set host then CHR ''['' # host @ CHR '']'' # CHR '':'' # port
      else host @ CHR '':'' # port)"

subsection \<open>Printing\<close>

definition ipv4_str :: "byte list \<Rightarrow> string" where
  "ipv4_str bs = concat (map (\<lambda>b. nat_str (unat b) @ ''.'') (butlast bs)) @ nat_str (unat (last bs))"

definition v6u16 :: "byte list \<Rightarrow> nat \<Rightarrow> nat" where
  "v6u16 bs i = 256 * unat (bs ! (2 * i)) + unat (bs ! (2 * i + 1))"

fun hex_str :: "nat \<Rightarrow> string" where
  "hex_str n = (if n < 16 then [hex_digit_char n] else hex_str (n div 16) @ [hex_digit_char (n mod 16)])"

declare hex_str.simps [simp del]

definition zero_run :: "byte list \<Rightarrow> nat \<Rightarrow> nat" where
  "zero_run bs i = length (takeWhile (\<lambda>j. v6u16 bs j = 0) [i..<8])"

text \<open>The first longest run of at least two zero groups, as (start, end).\<close>

definition longest_zeros :: "byte list \<Rightarrow> (nat \<times> nat) option" where
  "longest_zeros bs =
     foldl (\<lambda>best i. let l = zero_run bs i in
              if 2 \<le> l \<and> (case best of None \<Rightarrow> True | Some (a, b) \<Rightarrow> b - a < l)
              then Some (i, i + l) else best)
       None [0..<8]"

definition groups_str :: "byte list \<Rightarrow> nat \<Rightarrow> nat \<Rightarrow> string" where
  "groups_str bs a b = concat (map (\<lambda>i. (if i = a then [] else '':'') @ hex_str (v6u16 bs i)) [a..<b])"

definition ipv6_str :: "byte list \<Rightarrow> string" where
  "ipv6_str bs =
     (case longest_zeros bs of
        None \<Rightarrow> groups_str bs 0 8
      | Some (a, b) \<Rightarrow> groups_str bs 0 a @ ''::'' @ groups_str bs b 8)"

definition zone_str :: "string \<Rightarrow> string" where
  "zone_str z = (if z = [] then [] else CHR ''%'' # z)"

fun addr_String :: "netip_addr \<Rightarrow> string" where
  "addr_String AddrZero = ''invalid IP''"
| "addr_String (Addr4 bs) = ipv4_str bs"
| "addr_String (Addr6 bs z) =
     (if take 12 bs = v4InV6Prefix then ''::ffff:'' @ ipv4_str (drop 12 bs) else ipv6_str bs)
     @ zone_str z"

fun addrPort_String :: "addr_port \<Rightarrow> string" where
  "addrPort_String (AddrZero, p) = ''invalid AddrPort''"
| "addrPort_String (Addr4 bs, p) = ipv4_str bs @ CHR '':'' # nat_str (unat p)"
| "addrPort_String (Addr6 bs z, p) =
     CHR ''['' # addr_String (Addr6 bs z) @ CHR '']'' # CHR '':'' # nat_str (unat p)"

text \<open>\<^verbatim>\<open>net.IP.String\<close>; \<^verbatim>\<open><nil>\<close> for the nil slice.\<close>

definition ip_String :: "net_ip \<Rightarrow> string" where
  "ip_String ip =
     (if ip = [] then ''<nil>''
      else if is_v4 ip then ipv4_str (to4 ip)
      else if length ip = 16 then ipv6_str ip
      else CHR ''?'' # hex_encode ip)"

text \<open>\<^verbatim>\<open>net.UDPAddr\<close> and its \<^verbatim>\<open>String\<close> and \<^verbatim>\<open>AddrPort\<close> methods\<close>

record udp_addr =
  ua_IP :: net_ip
  ua_Port :: int
  ua_Zone :: string

definition udpAddr_String :: "udp_addr \<Rightarrow> string" where
  "udpAddr_String a =
     joinHostPort ((if ua_IP a = [] then [] else ip_String (ua_IP a)) @ zone_str (ua_Zone a))
       (int_str (ua_Port a))"

definition udpAddr_AddrPort :: "udp_addr \<Rightarrow> addr_port" where
  "udpAddr_AddrPort a =
     ((case addrFromSlice (ua_IP a) of Addr6 bs z \<Rightarrow> Addr6 bs (ua_Zone a) | x \<Rightarrow> x),
      of_int (ua_Port a))"

definition udpAddrFromAddrPort :: "addr_port \<Rightarrow> udp_addr" where
  "udpAddrFromAddrPort ap =
     \<lparr>ua_IP = addr_AsSlice (fst ap), ua_Port = int (unat (snd ap)),
      ua_Zone = (case fst ap of Addr6 bs z \<Rightarrow> z | _ \<Rightarrow> [])\<rparr>"

text \<open>The definitions that evaluate the parsers on a concrete text by simplification.\<close>

lemmas addr_eval =
  parseIP_def parseAddr_def parseIPv4Fields_def parseIPv6_def cut_at_def ipv6_groups.simps
  is_hex_digit_def hex_val_def expand_ellipsis_def is_digit_def char_in_def digit_val_def
  v4InV6Prefix_def splitHostPort_def joinHostPort_def trim_set_def to4_def is_v4_def
  parseAddrPort_def splitAddrPort_def parseUint_def digits_val_def

section \<open>Round trips\<close>

subsection \<open>Host and port\<close>

text \<open>
  What every component that stores endpoints as text relies on: splitting undoes joining,
  provided the host has no brackets and the port none of the separators.
\<close>

locale host_port_codec =
  fixes join :: "string \<Rightarrow> string \<Rightarrow> string"
    and split :: "string \<Rightarrow> (string \<times> string) option"
    and host_ok port_ok :: "string \<Rightarrow> bool"
  assumes split_join: "host_ok h \<Longrightarrow> port_ok p \<Longrightarrow> split (join h p) = Some (h, p)"
begin

lemma join_inj:
  assumes "host_ok h" "port_ok p" "host_ok h'" "port_ok p'" "join h p = join h' p'"
  shows "h = h' \<and> p = p'"
proof -
  have "Some (h, p) = Some (h', p')"
    using assms split_join by metis
  then show ?thesis by simp
qed

end

definition plain_host :: "string \<Rightarrow> bool" where
  "plain_host h = (CHR ''['' \<notin> set h \<and> CHR '']'' \<notin> set h)"

definition plain_port :: "string \<Rightarrow> bool" where
  "plain_port p = (CHR '':'' \<notin> set p \<and> CHR ''['' \<notin> set p \<and> CHR '']'' \<notin> set p)"

lemma splitHostPort_joinHostPort:
  assumes h: "plain_host h" and p: "plain_port p"
  shows "splitHostPort (joinHostPort h p) = Some (h, p)"
proof (cases "CHR '':'' \<in> set h")
  case True
  let ?hp = "CHR ''['' # h @ CHR '']'' # CHR '':'' # p"
  have li: "lastIndexByte (CHR '':'') ?hp = Some (length h + 2)"
    using lastIndexByte_append_notin [of "CHR '':''" p "CHR ''['' # h @ [CHR '']'']"] p
    by (simp add: plain_port_def)
  have ib: "indexByte (CHR '']'') ?hp = Some (Suc (length h))"
    using indexByte_append_notin [of "CHR '']''" "CHR ''['' # h" "CHR '':'' # p"] h
    by (simp add: plain_host_def)
  from True li ib h p show ?thesis
    by (simp add: splitHostPort_def joinHostPort_def plain_host_def plain_port_def)
next
  case False
  have li: "lastIndexByte (CHR '':'') (h @ CHR '':'' # p) = Some (length h)"
    using lastIndexByte_append_notin [of "CHR '':''" p h] p by (simp add: plain_port_def)
  have "hd (h @ CHR '':'' # p) \<noteq> CHR ''[''"
    using h by (cases h) (auto simp: plain_host_def)
  with False li h p show ?thesis
    by (simp add: splitHostPort_def joinHostPort_def plain_host_def plain_port_def)
qed

interpretation go_hp: host_port_codec joinHostPort splitHostPort plain_host plain_port
  by unfold_locales (rule splitHostPort_joinHostPort)

lemma digits_plain: "list_all is_digit p \<Longrightarrow> plain_port p"
  by (auto simp: plain_port_def list_all_iff is_digit_def char_in_def)

lemma plain_port_nat_str: "plain_port (nat_str n)"
  by (rule digits_plain, rule nat_str_digits)

subsection \<open>IPv4 addresses\<close>

lemma ipv4_fields_octet:
  assumes "n < 256"
  shows "ipv4_fields 0 0 ad acc (nat_str n @ rest) =
         ipv4_fields n (length (nat_str n)) False acc rest"
  using assms
proof (induction n arbitrary: rest rule: nat_str.induct)
  case (1 n)
  show ?case
  proof (cases "n < 10")
    case True
    then show ?thesis by (simp add: nat_str.simps [of n])
  next
    case False
    then have str: "nat_str n = nat_str (n div 10) @ [char_of (48 + n mod 10)]"
      by (simp add: nat_str.simps [of n])
    have "n div 10 * 10 + n mod 10 = n" "n div 10 \<noteq> 0" using False by auto
    with False 1 show ?thesis by (simp add: str)
  qed
qed

lemma dot_not_digit: "\<not> is_digit (CHR ''.'')" "\<not> is_digit (CHR '':'')" "\<not> is_digit (CHR ''%'')"
  by (simp_all add: is_digit_def char_in_def)

lemma unat_byte_lt: "unat (b :: byte) < 256"
  using unsigned_less [of b, where ?'a = nat] by simp

lemma parseIPv4Fields_str: "parseIPv4Fields (ipv4_str [a, b, c, d]) = Some [a, b, c, d]"
  by (simp add: parseIPv4Fields_def ipv4_str_def ipv4_fields_octet unat_byte_lt dot_not_digit
      ipv4_fields_octet [where rest = "[]", simplified])

lemma find_after_digits:
  "list_all is_digit ds \<Longrightarrow>
   find (\<lambda>c. c = CHR ''.'' \<or> c = CHR '':'' \<or> c = CHR ''%'') (ds @ rest) =
   find (\<lambda>c. c = CHR ''.'' \<or> c = CHR '':'' \<or> c = CHR ''%'') rest"
  using dot_not_digit by (induction ds) auto

lemma parseAddr_ipv4_str: "parseAddr (ipv4_str [a, b, c, d]) = Some (Addr4 [a, b, c, d])"
proof -
  have "find (\<lambda>c. c = CHR ''.'' \<or> c = CHR '':'' \<or> c = CHR ''%'') (ipv4_str [a, b, c, d])
        = Some (CHR ''.'')"
    by (simp add: ipv4_str_def find_after_digits nat_str_digits)
  then show ?thesis by (simp add: parseAddr_def parseIPv4Fields_str)
qed

lemma length4_cases:
  assumes "length bs = 4"
  obtains a b c d where "bs = [a, b, c, d]"
  using assms by (auto simp: length_Suc_conv numeral_eq_Suc)

lemma parseIP_ipv4_str: "length bs = 4 \<Longrightarrow> parseIP (ipv4_str bs) = Some (v4InV6Prefix @ bs)"
  by (erule length4_cases) (simp add: parseIP_def parseAddr_ipv4_str)

lemma to4_mapped [simp]: "length bs = 4 \<Longrightarrow> to4 (v4InV6Prefix @ bs) = bs"
  by (simp add: to4_def v4InV6Prefix_def)

lemma is_v4_mapped [simp]: "length bs = 4 \<Longrightarrow> is_v4 (v4InV6Prefix @ bs)"
  by (auto simp: is_v4_def)

lemma to4_length: "is_v4 ip \<Longrightarrow> length (to4 ip) = 4"
  by (auto simp: is_v4_def to4_def split: if_splits)

lemma nat_str_set: "c \<in> set (nat_str n) \<Longrightarrow> is_digit c"
  using nat_str_digits [of n] by (auto simp: list_all_iff)

lemma ipv4_str_chars: "c \<in> set (ipv4_str bs) \<Longrightarrow> is_digit c \<or> c = CHR ''.''"
  by (auto simp: ipv4_str_def dest: nat_str_set split: if_splits)

lemma plain_host_ipv4_str: "plain_host (ipv4_str bs)"
  using ipv4_str_chars [of "CHR ''[''" bs] ipv4_str_chars [of "CHR '']''" bs]
  by (auto simp: plain_host_def is_digit_def char_in_def)

text \<open>An IPv4 endpoint that is printed and split again gives back its host and its port.\<close>

lemma splitHostPort_ipv4:
  "splitHostPort (joinHostPort (ipv4_str bs) (nat_str n)) = Some (ipv4_str bs, nat_str n)"
  by (rule go_hp.split_join [OF plain_host_ipv4_str plain_port_nat_str])

end
