(* ===== verification/Candidates.thy ===== *)
theory Candidates
  imports Net_Addr "HOL-Library.Multiset"
begin

text \<open>
  Candidate addresses (\<^verbatim>\<open>nomination.go\<close>, \<^verbatim>\<open>main.go\<close>): what the host offers, which of the
  console's candidates it can reach, how they are ranked, and the queues of endpoints that
  the retry and recovery loops walk.
\<close>

section \<open>Data\<close>

record candidate =
  cand_Type :: string
  cand_Addr :: string

datatype networkFamily = FamilyDual | FamilyIPv4 | FamilyIPv6

fun networkFamily_String :: "networkFamily \<Rightarrow> string" where
  "networkFamily_String FamilyIPv4 = ''ipv4''"
| "networkFamily_String FamilyIPv6 = ''ipv6''"
| "networkFamily_String FamilyDual = ''dual-stack''"

text \<open>A UDP socket as the client sees it: its read deadline (\<open>None\<close> for the zero time).\<close>

record udp_conn =
  uc_readDeadline :: "instant option"
  uc_closed :: bool

record udpSockets =
  us_V4 :: "udp_conn option"
  us_V6 :: "udp_conn option"

datatype net_addr = IPNet net_ip | IPAddr net_ip | OtherAddr

record net_iface =
  if_up :: bool
  if_loopback :: bool
  if_MTU :: int
  if_addrs :: "net_addr list option" \<comment> \<open>\<open>None\<close> when \<^verbatim>\<open>Addrs()\<close> fails\<close>

section \<open>Local candidates\<close>

text \<open>\<open>b0\<close> and \<open>b1\<close> are the two random bytes.\<close>

definition listenPort :: "byte \<Rightarrow> byte \<Rightarrow> int" where
  "listenPort b0 b1 = 49152 + int (256 * unat b0 + unat b1) mod 16384"

fun interfaceAddrIP :: "net_addr \<Rightarrow> net_ip" where
  "interfaceAddrIP (IPNet ip) = ip"
| "interfaceAddrIP (IPAddr ip) = ip"
| "interfaceAddrIP OtherAddr = []"

definition isRoutableCandidateIP :: "net_ip \<Rightarrow> networkFamily \<Rightarrow> bool" where
  "isRoutableCandidateIP ip family =
     (if \<not> ip_isGlobalUnicast ip then False
      else if \<not> is_v4 ip \<and> ip_isPrivate ip then False
      else if family = FamilyIPv4 \<and> \<not> is_v4 ip then False
      else if family = FamilyIPv6 \<and> is_v4 ip then False
      else True)"

text \<open>One interface address: skipped, a repeat, or a new candidate.\<close>

definition localCandidates_addr ::
  "int \<Rightarrow> networkFamily \<Rightarrow> string set \<times> candidate list \<Rightarrow> net_addr \<Rightarrow> string set \<times> candidate list" where
  "localCandidates_addr port family st a =
     (let ip = interfaceAddrIP a; (seen, out) = st in
      if ip = [] \<or> \<not> isRoutableCandidateIP ip family then st
      else let addr = joinHostPort (ip_String ip) (int_str port) in
           if addr \<in> seen then st
           else (insert addr seen, out @ [\<lparr>cand_Type = ''iface'', cand_Addr = addr\<rparr>]))"

definition localCandidates_iface ::
  "int \<Rightarrow> networkFamily \<Rightarrow> string set \<times> candidate list \<Rightarrow> net_iface \<Rightarrow> string set \<times> candidate list" where
  "localCandidates_iface port family st iface =
     (if \<not> if_up iface \<or> if_loopback iface then st
      else foldl (localCandidates_addr port family) st
             (case if_addrs iface of None \<Rightarrow> [] | Some as \<Rightarrow> as))"

definition localCandidates :: "net_iface list \<Rightarrow> int \<Rightarrow> networkFamily \<Rightarrow> candidate list" where
  "localCandidates ifaces port family = snd (foldl (localCandidates_iface port family) ({}, []) ifaces)"

definition localCandidateFamilies_step :: "bool \<times> bool \<Rightarrow> candidate \<Rightarrow> bool \<times> bool" where
  "localCandidateFamilies_step st c =
     (let (haveV4, haveV6) = st in
      if haveV4 \<and> haveV6 then st
      else case splitHostPort (cand_Addr c) of
        None \<Rightarrow> st
      | Some (host, port) \<Rightarrow>
          (case parseIP host of
             None \<Rightarrow> st
           | Some ip \<Rightarrow> if is_v4 ip then (True, haveV6) else (haveV4, True)))"

definition localCandidateFamilies :: "candidate list \<Rightarrow> bool \<times> bool" where
  "localCandidateFamilies local = foldl localCandidateFamilies_step (False, False) local"

definition candidatesOfType :: "candidate list \<Rightarrow> string \<Rightarrow> candidate list" where
  "candidatesOfType candidates ty = filter (\<lambda>c. cand_Type c = ty) candidates"

section \<open>Ranking and compatibility\<close>

definition candidate_score :: "candidate \<Rightarrow> int" where
  "candidate_score c =
     (let s = (if cand_Type c = ''iface'' then 0
               else if cand_Type c = ''reflex'' then 10
               else if cand_Type c = ''turn'' then 20 else 100)
      in case parseAddrPort (cand_Addr c) of
           Some (a, p) \<Rightarrow> (if addr_Is6 a then s - 2 else s)
         | None \<Rightarrow> s)"

text \<open>\<^verbatim>\<open>sort.SliceStable\<close> with \<open><\<close> on the score.\<close>

definition rankCandidates :: "candidate list \<Rightarrow> candidate list" where
  "rankCandidates cs = sort_key candidate_score cs"

definition compatible :: "udpSockets \<Rightarrow> bool \<times> bool \<Rightarrow> candidate \<Rightarrow> bool" where
  "compatible s fams c =
     (case splitHostPort (cand_Addr c) of
        None \<Rightarrow> False
      | Some (host, port) \<Rightarrow>
          (case parseIP (trim_set ''[]'' host) of
             None \<Rightarrow> False
           | Some ip \<Rightarrow> is_v4 ip \<and> us_V4 s \<noteq> None \<and> fst fams \<or>
                        \<not> is_v4 ip \<and> us_V6 s \<noteq> None \<and> snd fams))"

definition compatibleCandidates ::
  "udpSockets option \<Rightarrow> candidate list \<Rightarrow> candidate list \<Rightarrow> candidate list" where
  "compatibleCandidates sockets cands local =
     (case sockets of
        None \<Rightarrow> []
      | Some s \<Rightarrow> rankCandidates (filter (compatible s (localCandidateFamilies local)) cands))"

definition isPubliclyRoutableCandidateAddr :: "string \<Rightarrow> bool" where
  "isPubliclyRoutableCandidateAddr addr =
     (case splitHostPort addr of
        None \<Rightarrow> False
      | Some (host, port) \<Rightarrow>
          (case parseIP host of
             None \<Rightarrow> False
           | Some ip \<Rightarrow> ip_isGlobalUnicast ip \<and> \<not> ip_isPrivate ip))"

definition guessCandidate :: "candidate list \<Rightarrow> string" where
  "guessCandidate ordered =
     (case find (\<lambda>c. isPubliclyRoutableCandidateAddr (cand_Addr c)) ordered of
        Some c \<Rightarrow> cand_Addr c
      | None \<Rightarrow> (case ordered of [] \<Rightarrow> [] | c # cs \<Rightarrow> cand_Addr c))"

section \<open>Endpoint queues\<close>

text \<open>
  The closures \<^verbatim>\<open>appendCandidate\<close> and \<^verbatim>\<open>appendEndpoint\<close> of the two queue builders: skip the
  empty string and what was seen.
\<close>

definition appendCandidate :: "string set \<times> string list \<Rightarrow> string \<Rightarrow> string set \<times> string list" where
  "appendCandidate st addr =
     (let (seen, queue) = st in
      if addr = [] \<or> addr \<in> seen then st else (insert addr seen, queue @ [addr]))"

definition buildCandidateRetryQueue :: "string \<Rightarrow> string list \<Rightarrow> candidate list \<Rightarrow> string list" where
  "buildCandidateRetryQueue endpoint observed advertised =
     (let st0 = ({endpoint}, []);
          st1 = foldl appendCandidate st0 observed;
          st2 = foldl (\<lambda>st public.
                  foldl (\<lambda>st c. if isPubliclyRoutableCandidateAddr (cand_Addr c) = public
                                then appendCandidate st (cand_Addr c) else st) st advertised)
                st1 [True, False]
      in snd st2)"

definition appendEndpoint :: "string set \<times> string list \<Rightarrow> string \<Rightarrow> string set \<times> string list" where
  "appendEndpoint st endpoint =
     (let (seen, order) = st in
      if endpoint = [] \<or> endpoint \<in> seen then st else (insert endpoint seen, order @ [endpoint]))"

definition buildEndpointRecoveryOrder :: "string \<Rightarrow> string list \<Rightarrow> string list" where
  "buildEndpointRecoveryOrder current known =
     snd (foldl appendEndpoint (appendEndpoint ({}, []) current) known)"

definition candidateTypeMap :: "candidate list \<Rightarrow> (string \<rightharpoonup> string)" where
  "candidateTypeMap peerCandidates =
     foldl (\<lambda>m c. m(cand_Addr c \<mapsto> cand_Type c)) Map.empty peerCandidates"

function nextEndpointCandidate :: "string list \<Rightarrow> nat \<Rightarrow> string \<Rightarrow> string \<times> nat \<times> bool" where
  "nextEndpointCandidate queue start current =
     (if start < length queue then
        (let candidate = queue ! start in
         if candidate = [] \<or> candidate = current
         then nextEndpointCandidate queue (Suc start) current
         else (candidate, Suc start, True))
      else ([], start, False))"
  by pat_completeness auto
termination
  by (relation "measure (\<lambda>(queue, start, current). length queue - start)") auto

declare nextEndpointCandidate.simps [simp del]

section \<open>Lemmas\<close>

subsection \<open>Ranking\<close>

lemma set_rankCandidates [simp]: "set (rankCandidates cs) = set cs"
  by (simp add: rankCandidates_def)

lemma set_compatibleCandidates:
  "set (compatibleCandidates (Some s) cands local) =
   {c \<in> set cands. compatible s (localCandidateFamilies local) c}"
  by (auto simp: compatibleCandidates_def)

lemma compatible_family:
  assumes "compatible s fams c"
  obtains host port ip where "splitHostPort (cand_Addr c) = Some (host, port)"
    and "parseIP (trim_set ''[]'' host) = Some ip"
    and "if is_v4 ip then us_V4 s \<noteq> None \<and> fst fams else us_V6 s \<noteq> None \<and> snd fams"
  using assms by (auto simp: compatible_def split: option.splits)

lemma guessCandidate_in: "cs \<noteq> [] \<Longrightarrow> guessCandidate cs \<in> cand_Addr ` set cs"
  by (cases cs) (auto simp: guessCandidate_def dest: find_SomeD split: option.splits)

subsection \<open>Families of the local candidates\<close>

definition cand_family :: "candidate \<Rightarrow> bool option" where
  "cand_family c =
     (case splitHostPort (cand_Addr c) of
        None \<Rightarrow> None
      | Some (host, port) \<Rightarrow> map_option is_v4 (parseIP host))"

lemma localCandidateFamilies_step_eq:
  "localCandidateFamilies_step (v4, v6) c = (v4 \<or> cand_family c = Some True, v6 \<or> cand_family c = Some False)"
  by (auto simp: localCandidateFamilies_step_def cand_family_def split: option.splits)

lemma localCandidateFamilies_foldl:
  "foldl localCandidateFamilies_step (v4, v6) cs =
   (v4 \<or> Some True \<in> cand_family ` set cs, v6 \<or> Some False \<in> cand_family ` set cs)"
  by (induction cs arbitrary: v4 v6) (auto simp: localCandidateFamilies_step_eq)

lemma localCandidateFamilies_eq:
  "localCandidateFamilies cs = (Some True \<in> cand_family ` set cs, Some False \<in> cand_family ` set cs)"
  by (simp add: localCandidateFamilies_def localCandidateFamilies_foldl)

text \<open>An IPv4 interface candidate, written by one component, is read back as IPv4 by another.\<close>

lemma cand_family_ipv4:
  assumes "is_v4 ip" "0 \<le> port"
  shows "cand_family \<lparr>cand_Type = t, cand_Addr = joinHostPort (ip_String ip) (int_str port)\<rparr> = Some True"
proof -
  have "ip \<noteq> []" using assms(1) by (auto simp: is_v4_def to4_def)
  then have "ip_String ip = ipv4_str (to4 ip)" using assms(1) by (simp add: ip_String_def)
  with assms show ?thesis
    by (simp add: cand_family_def int_str_def splitHostPort_ipv4 parseIP_ipv4_str to4_length)
qed

subsection \<open>Local candidates\<close>

text \<open>The texts of the usable addresses of an interface.\<close>

definition iface_texts :: "int \<Rightarrow> networkFamily \<Rightarrow> net_iface \<Rightarrow> string list" where
  "iface_texts port family iface =
     (if \<not> if_up iface \<or> if_loopback iface then []
      else map (\<lambda>a. joinHostPort (ip_String (interfaceAddrIP a)) (int_str port))
             (filter (\<lambda>a. interfaceAddrIP a \<noteq> [] \<and> isRoutableCandidateIP (interfaceAddrIP a) family)
               (case if_addrs iface of None \<Rightarrow> [] | Some as \<Rightarrow> as)))"

lemma in_iface_texts:
  "t \<in> set (iface_texts port family iface) \<longleftrightarrow>
   if_up iface \<and> \<not> if_loopback iface \<and>
   (\<exists>as a. if_addrs iface = Some as \<and> a \<in> set as \<and> interfaceAddrIP a \<noteq> [] \<and>
      isRoutableCandidateIP (interfaceAddrIP a) family \<and>
      t = joinHostPort (ip_String (interfaceAddrIP a)) (int_str port))"
  by (cases "if_addrs iface") (auto simp: iface_texts_def)

definition iface_candidate :: "string \<Rightarrow> candidate" where
  "iface_candidate addr = \<lparr>cand_Type = ''iface'', cand_Addr = addr\<rparr>"

lemma localCandidates_addrs_eq:
  "foldl (localCandidates_addr port family) (seen, out) as =
   (let new = map (\<lambda>a. joinHostPort (ip_String (interfaceAddrIP a)) (int_str port))
                (filter (\<lambda>a. interfaceAddrIP a \<noteq> [] \<and> isRoutableCandidateIP (interfaceAddrIP a) family) as)
    in (seen \<union> set new, out @ map iface_candidate (keep_first seen new)))"
  by (induction as arbitrary: seen out)
    (auto simp: localCandidates_addr_def iface_candidate_def Let_def insert_absorb)

lemma localCandidates_iface_eq:
  "localCandidates_iface port family (seen, out) iface =
   (seen \<union> set (iface_texts port family iface),
    out @ map iface_candidate (keep_first seen (iface_texts port family iface)))"
  by (simp add: localCandidates_iface_def iface_texts_def localCandidates_addrs_eq Let_def)

lemma localCandidates_ifaces_eq:
  "foldl (localCandidates_iface port family) (seen, out) ifaces =
   (let new = concat (map (iface_texts port family) ifaces)
    in (seen \<union> set new, out @ map iface_candidate (keep_first seen new)))"
proof (induction ifaces arbitrary: seen out)
  case (Cons i ifs)
  then show ?case
    by (auto simp: localCandidates_iface_eq Let_def keep_first_append)
qed simp

lemma localCandidates_eq:
  "localCandidates ifaces port family =
   map iface_candidate (keep_first {} (concat (map (iface_texts port family) ifaces)))"
  by (simp add: localCandidates_def localCandidates_ifaces_eq Let_def)

lemma localCandidates_addrs: "map cand_Addr (localCandidates ifaces port family) =
   keep_first {} (concat (map (iface_texts port family) ifaces))"
  by (simp add: localCandidates_eq iface_candidate_def o_def)

subsection \<open>Queues\<close>

interpretation retryQ: first_seen_queue appendCandidate "{[]}"
  by unfold_locales (auto simp: appendCandidate_def)

interpretation recoveryQ: first_seen_queue appendEndpoint "{[]}"
  by unfold_locales (auto simp: appendEndpoint_def)

definition public_addrs :: "candidate list \<Rightarrow> string list" where
  "public_addrs cs = filter isPubliclyRoutableCandidateAddr (map cand_Addr cs)"

definition private_addrs :: "candidate list \<Rightarrow> string list" where
  "private_addrs cs = filter (\<lambda>a. \<not> isPubliclyRoutableCandidateAddr a) (map cand_Addr cs)"

lemma buildCandidateRetryQueue_eq:
  "buildCandidateRetryQueue endpoint observed advertised =
   keep_first {endpoint, []} (observed @ public_addrs advertised @ private_addrs advertised)"
proof -
  have "buildCandidateRetryQueue endpoint observed advertised =
    snd (foldl appendCandidate ({endpoint}, [])
      (observed @ public_addrs advertised @ private_addrs advertised))"
    by (simp add: buildCandidateRetryQueue_def retryQ.add_guarded public_addrs_def private_addrs_def
        filter_map o_def)
  then show ?thesis by (simp only: retryQ.add_all) (simp add: insert_commute)
qed

lemma buildEndpointRecoveryOrder_eq:
  "buildEndpointRecoveryOrder current known = keep_first {[]} (current # known)"
proof -
  have "buildEndpointRecoveryOrder current known = snd (foldl appendEndpoint ({}, []) (current # known))"
    by (simp add: buildEndpointRecoveryOrder_def)
  then show ?thesis by (simp only: recoveryQ.add_all) simp
qed

lemma nextEndpointCandidate_found:
  "nextEndpointCandidate queue start current = (c, next, True) \<Longrightarrow>
   start < next \<and> next \<le> length queue \<and> c = queue ! (next - 1) \<and> c \<noteq> [] \<and> c \<noteq> current \<and>
   (\<forall>j. start \<le> j \<and> j < next - 1 \<longrightarrow> queue ! j \<in> {[], current})"
proof (induction queue start current rule: nextEndpointCandidate.induct)
  case (1 queue start current)
  show ?case
  proof (cases "start < length queue \<and> queue ! start \<in> {[], current}")
    case True
    with 1 have ih: "Suc start < next \<and> next \<le> length queue \<and> c = queue ! (next - 1) \<and> c \<noteq> [] \<and>
      c \<noteq> current \<and> (\<forall>j. Suc start \<le> j \<and> j < next - 1 \<longrightarrow> queue ! j \<in> {[], current})"
      by (auto simp: nextEndpointCandidate.simps [of queue start current])
    moreover have "queue ! j \<in> {[], current}" if "start \<le> j" "j < next - 1" for j
      using that True ih by (cases "j = start") auto
    ultimately show ?thesis by auto
  next
    case False
    with 1(2) show ?thesis
      by (auto simp: nextEndpointCandidate.simps [of queue start current] Let_def split: if_splits)
  qed
qed

lemma nextEndpointCandidate_none:
  "nextEndpointCandidate queue start current = (c, next, False) \<Longrightarrow>
   c = [] \<and> (\<forall>j. start \<le> j \<and> j < length queue \<longrightarrow> queue ! j \<in> {[], current})"
proof (induction queue start current rule: nextEndpointCandidate.induct)
  case (1 queue start current)
  show ?case
  proof (cases "start < length queue \<and> queue ! start \<in> {[], current}")
    case True
    with 1 have ih: "c = [] \<and> (\<forall>j. Suc start \<le> j \<and> j < length queue \<longrightarrow> queue ! j \<in> {[], current})"
      by (auto simp: nextEndpointCandidate.simps [of queue start current])
    moreover have "queue ! j \<in> {[], current}" if "start \<le> j" "j < length queue" for j
      using that True ih by (cases "j = start") auto
    ultimately show ?thesis by auto
  next
    case False
    with 1(2) show ?thesis
      by (auto simp: nextEndpointCandidate.simps [of queue start current] Let_def split: if_splits)
  qed
qed

section \<open>Properties\<close>

text \<open>
  Ranking keeps every candidate, orders them by score, and keeps the order of the
  candidates of equal score.
\<close>

theorem rankCandidates_correct:
  "mset (rankCandidates cs) = mset cs \<and>
   sorted (map candidate_score (rankCandidates cs)) \<and>
   filter (\<lambda>c. candidate_score c = k) (rankCandidates cs) = filter (\<lambda>c. candidate_score c = k) cs"
  by (simp add: rankCandidates_def sort_key_stable)

text \<open>
  A candidate is offered for use only if it was advertised and its family is usable: with
  no IPv6 socket, or no local IPv6 candidate, nothing that parses as an IPv6 address is left,
  however it ranks.
\<close>

theorem compatibleCandidates_ipv4_only:
  assumes "us_V6 s = None \<or> \<not> snd (localCandidateFamilies local)"
    and "c \<in> set (compatibleCandidates (Some s) cands local)"
  shows "c \<in> set cands \<and>
    (\<exists>host port ip. splitHostPort (cand_Addr c) = Some (host, port) \<and>
       parseIP (trim_set ''[]'' host) = Some ip \<and> is_v4 ip)"
proof -
  from assms(2) have c: "c \<in> set cands" "compatible s (localCandidateFamilies local) c"
    by (auto simp: set_compatibleCandidates)
  from c(2) show ?thesis
  proof (rule compatible_family)
    fix host port ip
    assume "splitHostPort (cand_Addr c) = Some (host, port)"
      and "parseIP (trim_set ''[]'' host) = Some ip"
      and "if is_v4 ip then us_V4 s \<noteq> None \<and> fst (localCandidateFamilies local)
           else us_V6 s \<noteq> None \<and> snd (localCandidateFamilies local)"
    then show ?thesis using assms(1) c(1) by (auto split: if_splits)
  qed
qed

definition ex_v4 :: candidate where
  "ex_v4 = \<lparr>cand_Type = ''reflex'', cand_Addr = ''203.0.113.9:45''\<rparr>"

definition ex_v6 :: candidate where
  "ex_v6 = \<lparr>cand_Type = ''iface'', cand_Addr = ''[2a::9]:45''\<rparr>"

definition ex_v4_sockets :: udpSockets where
  "ex_v4_sockets = \<lparr>us_V4 = Some \<lparr>uc_readDeadline = None, uc_closed = False\<rparr>, us_V6 = None\<rparr>"

lemma ex_v4_compatible: "compatibleCandidates (Some ex_v4_sockets) [ex_v6, ex_v4] [ex_v4] = [ex_v4]"
  by (simp add: compatibleCandidates_def compatible_def localCandidateFamilies_def
      localCandidateFamilies_step_def rankCandidates_def ex_v4_def ex_v6_def ex_v4_sockets_def addr_eval)

theorem compatibleCandidates_ipv4_only_witness:
  "us_V6 ex_v4_sockets = None \<and>
   ex_v4 \<in> set (compatibleCandidates (Some ex_v4_sockets) [ex_v6, ex_v4] [ex_v4]) \<and>
   (\<exists>host port ip. splitHostPort (cand_Addr ex_v4) = Some (host, port) \<and>
       parseIP (trim_set ''[]'' host) = Some ip \<and> is_v4 ip)"
proof -
  have none: "us_V6 ex_v4_sockets = None" by (simp add: ex_v4_sockets_def)
  have mem: "ex_v4 \<in> set (compatibleCandidates (Some ex_v4_sockets) [ex_v6, ex_v4] [ex_v4])"
    by (simp add: ex_v4_compatible)
  from compatibleCandidates_ipv4_only [OF disjI1 [OF none] mem] none mem show ?thesis by blast
qed

text \<open>
  The retry queue is the observed addresses, then the public and then the private
  advertised ones, each in its order, without the current endpoint, empty texts and
  repetitions: nothing else is lost.
\<close>

theorem buildCandidateRetryQueue_correct:
  "buildCandidateRetryQueue endpoint observed advertised =
     keep_first {endpoint, []} (observed @ public_addrs advertised @ private_addrs advertised) \<and>
   distinct (buildCandidateRetryQueue endpoint observed advertised) \<and>
   set (buildCandidateRetryQueue endpoint observed advertised) =
     (set observed \<union> cand_Addr ` set advertised) - {endpoint, []}"
  by (auto simp: buildCandidateRetryQueue_eq distinct_keep_first set_keep_first
      public_addrs_def private_addrs_def)

text \<open>
  The recovery order starts with the endpoint in use (when it is known), then has every
  other known endpoint once.
\<close>

theorem buildEndpointRecoveryOrder_correct:
  "distinct (buildEndpointRecoveryOrder current known) \<and>
   set (buildEndpointRecoveryOrder current known) = insert current (set known) - {[]} \<and>
   buildEndpointRecoveryOrder current known =
     (if current = [] then [] else [current]) @ keep_first {current, []} known"
  by (auto simp: buildEndpointRecoveryOrder_eq distinct_keep_first set_keep_first insert_commute)

text \<open>
  The next endpoint of the queue is the first one from the cursor on that is neither
  empty nor the endpoint in use, and the cursor moves past it; when there is none, every
  entry left is empty or in use.
\<close>

theorem nextEndpointCandidate_correct:
  "case nextEndpointCandidate queue start current of
     (c, next, ok) \<Rightarrow>
       (if ok then start < next \<and> next \<le> length queue \<and> c = queue ! (next - 1) \<and>
                   c \<noteq> [] \<and> c \<noteq> current \<and> set (drop start (take (next - 1) queue)) \<subseteq> {[], current}
        else c = [] \<and> set (drop start queue) \<subseteq> {[], current})"
proof -
  obtain c "next" ok where r: "nextEndpointCandidate queue start current = (c, next, ok)"
    by (metis surj_pair)
  show ?thesis
  proof (cases ok)
    case True
    with r have f: "nextEndpointCandidate queue start current = (c, next, True)" by simp
    note found = nextEndpointCandidate_found [OF f]
    then have "set (drop start (take (next - 1) queue)) \<subseteq> {[], current}"
      by (intro set_slice_subset) auto
    with found f show ?thesis by auto
  next
    case False
    with r have f: "nextEndpointCandidate queue start current = (c, next, False)" by simp
    note none = nextEndpointCandidate_none [OF f]
    then have "set (drop start (take (length queue) queue)) \<subseteq> {[], current}"
      by (intro set_slice_subset) auto
    with none f show ?thesis by simp
  qed
qed

text \<open>
  The interface candidates are pairwise different, and they are exactly the routable
  addresses of the requested family on the interfaces that are up and not loopback.
\<close>

theorem localCandidates_correct:
  "distinct (map cand_Addr (localCandidates ifaces port family)) \<and>
   set (localCandidates ifaces port family) =
     {\<lparr>cand_Type = ''iface'', cand_Addr = joinHostPort (ip_String (interfaceAddrIP a)) (int_str port)\<rparr>
      | a iface as. iface \<in> set ifaces \<and> if_up iface \<and> \<not> if_loopback iface \<and>
          if_addrs iface = Some as \<and> a \<in> set as \<and> interfaceAddrIP a \<noteq> [] \<and>
          isRoutableCandidateIP (interfaceAddrIP a) family}"
  (is "?D \<and> ?L = ?R")
proof -
  have "c \<in> ?L \<longleftrightarrow>
    (\<exists>iface t. iface \<in> set ifaces \<and> t \<in> set (iface_texts port family iface) \<and> c = iface_candidate t)" for c
    by (auto simp: localCandidates_eq set_keep_first)
  then have "?L = ?R" unfolding in_iface_texts iface_candidate_def by blast
  then show ?thesis by (simp add: localCandidates_addrs distinct_keep_first)
qed

end
