(* ===== verification/Go_Json.thy ===== *)
theory Go_Json
  imports Go_Prelude
begin

text \<open>
  The part of Go's \<^verbatim>\<open>encoding/json\<close> the client uses: reading a text into a value tree
  (\<^verbatim>\<open>Unmarshal\<close> into \<^verbatim>\<open>any\<close>), storing a member into a struct field, and quoting a string
  (\<^verbatim>\<open>Marshal\<close>, with Go's default HTML escaping). A number keeps its literal, as
  \<^verbatim>\<open>json.Number\<close> and \<^verbatim>\<open>json.RawMessage\<close> do.
\<close>

datatype json =
    JNull
  | JBool bool
  | JNum string
  | JStr string
  | JArr "json list"
  | JObj "(string \<times> json) list"

section \<open>UTF-8\<close>

definition cont_byte :: "string \<Rightarrow> nat \<Rightarrow> nat \<Rightarrow> nat \<Rightarrow> bool" where
  "cont_byte s i lo hi = (i < length s \<and> char_in (s ! i) lo hi)"

text \<open>The width of the valid non-ASCII rune that \<open>s\<close> starts with; 0 when there is none.\<close>

definition utf8_width :: "string \<Rightarrow> nat" where
  "utf8_width s =
     (if s = [] then 0
      else let c = hd s in
        if char_in c 194 223 \<and> cont_byte s 1 128 191 then 2
        else if (of_char c = (224::nat) \<and> cont_byte s 1 160 191 \<or>
                 (char_in c 225 236 \<or> char_in c 238 239) \<and> cont_byte s 1 128 191 \<or>
                 of_char c = (237::nat) \<and> cont_byte s 1 128 159) \<and> cont_byte s 2 128 191 then 3
        else if (of_char c = (240::nat) \<and> cont_byte s 1 144 191 \<or>
                 char_in c 241 243 \<and> cont_byte s 1 128 191 \<or>
                 of_char c = (244::nat) \<and> cont_byte s 1 128 143) \<and>
                cont_byte s 2 128 191 \<and> cont_byte s 3 128 191 then 4
        else 0)"

definition encode_rune :: "nat \<Rightarrow> string" where
  "encode_rune r =
     map char_of
       (if r < 128 then [r]
        else if r < 2048 then [192 + r div 64, 128 + r mod 64]
        else if r < 65536 then [224 + r div 4096, 128 + r div 64 mod 64, 128 + r mod 64]
        else [240 + r div 262144, 128 + r div 4096 mod 64, 128 + r div 64 mod 64, 128 + r mod 64])"

definition rune_error :: string where
  "rune_error = encode_rune 65533"

section \<open>Quoting strings\<close>

definition json_plain :: "char \<Rightarrow> bool" where
  "json_plain c = (char_in c 32 127 \<and> c \<notin> {CHR 0x22, CHR 0x5C, CHR ''&'', CHR ''<'', CHR ''>''})"

definition json_esc_char :: "char \<Rightarrow> string" where
  "json_esc_char c =
     (if json_plain c then [c]
      else if c = CHR 0x22 \<or> c = CHR 0x5C then [CHR 0x5C, c]
      else if c = CHR 0x08 then [CHR 0x5C, CHR ''b'']
      else if c = CHR 0x0C then [CHR 0x5C, CHR ''f'']
      else if c = CHR 0x0A then [CHR 0x5C, CHR ''n'']
      else if c = CHR 0x0D then [CHR 0x5C, CHR ''r'']
      else if c = CHR 0x09 then [CHR 0x5C, CHR ''t'']
      else [CHR 0x5C, CHR ''u'', CHR ''0'', CHR ''0'',
            hex_digit_char (of_char c div 16), hex_digit_char (of_char c mod 16)])"

function json_escape :: "string \<Rightarrow> string" where
  "json_escape s =
     (if s = [] then []
      else if of_char (hd s) < (128::nat) then json_esc_char (hd s) @ json_escape (tl s)
      else if utf8_width s = 0 then CHR 0x5C # ''ufffd'' @ json_escape (tl s)
      else if take 3 s = encode_rune 8232 then CHR 0x5C # ''u2028'' @ json_escape (drop 3 s)
      else if take 3 s = encode_rune 8233 then CHR 0x5C # ''u2029'' @ json_escape (drop 3 s)
      else take (utf8_width s) s @ json_escape (drop (utf8_width s) s))"
  by pat_completeness auto
termination
  by (relation "measure length") auto

declare json_escape.simps [simp del]

definition json_quote :: "string \<Rightarrow> string" where
  "json_quote s = CHR 0x22 # json_escape s @ [CHR 0x22]"

section \<open>Reading\<close>

definition skip_ws :: "string \<Rightarrow> string" where
  "skip_ws s = dropWhile (\<lambda>c. c \<in> {CHR 0x20, CHR 0x09, CHR 0x0A, CHR 0x0D}) s"

definition hex_digit_val :: "char \<Rightarrow> nat" where
  "hex_digit_val c = (if is_digit c then of_char c - 48
                      else if char_in c 97 102 then of_char c - 87 else of_char c - 55)"

definition getu4 :: "string \<Rightarrow> nat option" where
  "getu4 s = (if 4 \<le> length s \<and> list_all is_hex_digit (take 4 s)
              then Some (foldl (\<lambda>n c. 16 * n + hex_digit_val c) 0 (take 4 s)) else None)"

text \<open>The second half of a surrogate pair: the escape that must follow, decoded.\<close>

definition low_surrogate :: "string \<Rightarrow> nat option" where
  "low_surrogate s =
     (if take 2 s = [CHR 0x5C, CHR ''u''] then
        (case getu4 (drop 2 s) of
           Some r \<Rightarrow> (if 56320 \<le> r \<and> r \<le> 57343 then Some r else None)
         | None \<Rightarrow> None)
      else None)"

definition simple_escape :: "char \<Rightarrow> char option" where
  "simple_escape c =
     (if c \<in> {CHR 0x22, CHR 0x5C, CHR ''/''} then Some c
      else if c = CHR ''b'' then Some (CHR 0x08)
      else if c = CHR ''f'' then Some (CHR 0x0C)
      else if c = CHR ''n'' then Some (CHR 0x0A)
      else if c = CHR ''r'' then Some (CHR 0x0D)
      else if c = CHR ''t'' then Some (CHR 0x09) else None)"

definition prepend :: "'a list \<Rightarrow> ('a list \<times> 'b) option \<Rightarrow> ('a list \<times> 'b) option" where
  "prepend xs r = map_option (\<lambda>(ys, rest). (xs @ ys, rest)) r"

text \<open>The body of a string literal, after its opening quote: the value and what follows.\<close>

function json_chars :: "string \<Rightarrow> (string \<times> string) option" where
  "json_chars s =
     (case s of
        [] \<Rightarrow> None
      | c # cs \<Rightarrow>
          if c = CHR 0x22 then Some ([], cs)
          else if c = CHR 0x5C then
            (case cs of
               [] \<Rightarrow> None
             | e # es \<Rightarrow>
                 if e = CHR ''u'' then
                   (case getu4 es of
                      None \<Rightarrow> None
                    | Some r \<Rightarrow>
                        if 55296 \<le> r \<and> r \<le> 57343 then
                          (case (if r \<le> 56319 then low_surrogate (drop 4 es) else None) of
                             Some l \<Rightarrow> prepend (encode_rune (65536 + (r - 55296) * 1024 + (l - 56320)))
                                        (json_chars (drop 10 es))
                           | None \<Rightarrow> prepend rune_error (json_chars (drop 4 es)))
                        else prepend (encode_rune r) (json_chars (drop 4 es)))
                 else (case simple_escape e of
                         None \<Rightarrow> None
                       | Some x \<Rightarrow> prepend [x] (json_chars es)))
          else if of_char c < (32::nat) then None
          else if of_char c < (128::nat) then prepend [c] (json_chars cs)
          else if utf8_width s = 0 then prepend rune_error (json_chars cs)
          else prepend (take (utf8_width s) s) (json_chars (drop (utf8_width s) s)))"
  by pat_completeness auto
termination
  by (relation "measure length") auto

declare json_chars.simps [simp del]

definition take_digits :: "string \<Rightarrow> string \<times> string" where
  "take_digits s = (takeWhile is_digit s, dropWhile is_digit s)"

text \<open>A number literal and what follows it.\<close>

definition json_number :: "string \<Rightarrow> (string \<times> string) option" where
  "json_number s =
     (let (sgn, s1) = (if s \<noteq> [] \<and> hd s = CHR ''-'' then (''-'', tl s) else ([], s));
          (ip, s2) = (if s1 \<noteq> [] \<and> hd s1 = CHR ''0'' then (''0'', tl s1) else take_digits s1)
      in if ip = [] then None
         else
           let (fr, s3) = (if s2 \<noteq> [] \<and> hd s2 = CHR ''.''
                           then (let (d, r) = take_digits (tl s2) in (CHR ''.'' # d, r)) else ([], s2));
               (ex, s4) = (if s3 \<noteq> [] \<and> (hd s3 = CHR ''e'' \<or> hd s3 = CHR ''E'')
                           then (let (sg, r0) = (if tl s3 \<noteq> [] \<and> (hd (tl s3) = CHR ''+'' \<or> hd (tl s3) = CHR ''-'')
                                                  then ([hd (tl s3)], tl (tl s3)) else ([], tl s3));
                                     (d, r) = take_digits r0 in ((hd s3 # sg) @ d, r))
                           else ([], s3))
           in if fr = ''.'' \<or> (ex \<noteq> [] \<and> \<not> is_digit (last ex)) then None
              else Some (sgn @ ip @ fr @ ex, s4))"

text \<open>A string, \<^verbatim>\<open>null\<close>, \<^verbatim>\<open>true\<close>, \<^verbatim>\<open>false\<close> or a number that starts with \<open>c\<close>.\<close>

definition json_scalar :: "char \<Rightarrow> string \<Rightarrow> (json \<times> string) option" where
  "json_scalar c cs =
     (if c = CHR 0x22 then map_option (\<lambda>(x, r). (JStr x, r)) (json_chars cs)
      else if prefix ''null'' (c # cs) then Some (JNull, drop 4 (c # cs))
      else if prefix ''true'' (c # cs) then Some (JBool True, drop 4 (c # cs))
      else if prefix ''false'' (c # cs) then Some (JBool False, drop 5 (c # cs))
      else map_option (\<lambda>(x, r). (JNum x, r)) (json_number (c # cs)))"

text \<open>
  Values, the elements of an array after its bracket and the members of an object after its
  brace. Every recursive call is on a shorter text, so a fuel above the length of the text
  is enough.
\<close>

fun json_value :: "nat \<Rightarrow> string \<Rightarrow> (json \<times> string) option"
  and json_elems :: "nat \<Rightarrow> string \<Rightarrow> (json list \<times> string) option"
  and json_members :: "nat \<Rightarrow> string \<Rightarrow> ((string \<times> json) list \<times> string) option" where
  "json_value 0 s = None"
| "json_value (Suc n) s =
     (case skip_ws s of
        [] \<Rightarrow> None
      | c # cs \<Rightarrow>
          if c = CHR 0x7B then
            (if skip_ws cs \<noteq> [] \<and> hd (skip_ws cs) = CHR 0x7D then Some (JObj [], tl (skip_ws cs))
             else map_option (\<lambda>(ms, r). (JObj ms, r)) (json_members n cs))
          else if c = CHR 0x5B then
            (if skip_ws cs \<noteq> [] \<and> hd (skip_ws cs) = CHR 0x5D then Some (JArr [], tl (skip_ws cs))
             else map_option (\<lambda>(vs, r). (JArr vs, r)) (json_elems n cs))
          else json_scalar c cs)"
| "json_elems 0 s = None"
| "json_elems (Suc n) s =
     (case json_value n s of
        None \<Rightarrow> None
      | Some (v, r) \<Rightarrow>
          (case skip_ws r of
             [] \<Rightarrow> None
           | c # cs \<Rightarrow> if c = CHR 0x2C then prepend [v] (json_elems n cs)
                       else if c = CHR 0x5D then Some ([v], cs) else None))"
| "json_members 0 s = None"
| "json_members (Suc n) s =
     (case skip_ws s of
        [] \<Rightarrow> None
      | q # qs \<Rightarrow>
          (if q \<noteq> CHR 0x22 then None
           else case json_chars qs of
             None \<Rightarrow> None
           | Some (k, r) \<Rightarrow>
               (case skip_ws r of
                  [] \<Rightarrow> None
                | d # ds \<Rightarrow>
                    (if d \<noteq> CHR 0x3A then None
                     else case json_value n ds of
                       None \<Rightarrow> None
                     | Some (v, r2) \<Rightarrow>
                         (case skip_ws r2 of
                            [] \<Rightarrow> None
                          | c # cs \<Rightarrow> if c = CHR 0x2C then prepend [(k, v)] (json_members n cs)
                                      else if c = CHR 0x7D then Some ([(k, v)], cs) else None)))))"

definition json_unmarshal :: "string \<Rightarrow> json option" where
  "json_unmarshal s =
     (case json_value (2 * length s + 2) s of
        Some (v, r) \<Rightarrow> (if skip_ws r = [] then Some v else None)
      | None \<Rightarrow> None)"

section \<open>Struct fields\<close>

text \<open>
  Decoding an object into a struct visits the members in order; a member goes to the field
  whose name equals its key up to letter case, and \<^verbatim>\<open>null\<close> leaves the field alone. The values
  that reach a field are therefore the ones below, the last one being final.
\<close>

definition json_field :: "string \<Rightarrow> (string \<times> json) list \<Rightarrow> json list" where
  "json_field name ms = map snd (filter (\<lambda>(k, v). equalFold k name \<and> v \<noteq> JNull) ms)"

fun json_as_int :: "json \<Rightarrow> int option" where
  "json_as_int (JNum x) = atoi x"
| "json_as_int _ = None"

fun json_as_string :: "json \<Rightarrow> string option" where
  "json_as_string (JStr x) = Some x"
| "json_as_string _ = None"

text \<open>
  The final value of a field with zero value \<open>z\<close>: an error (\<open>None\<close>) as soon as some member
  has the wrong type, since \<^verbatim>\<open>Unmarshal\<close> reports the first type error it met.
\<close>

definition decode_field :: "(json \<Rightarrow> 'a option) \<Rightarrow> 'a \<Rightarrow> string \<Rightarrow> (string \<times> json) list \<Rightarrow> 'a option" where
  "decode_field conv z name ms =
     foldl (\<lambda>acc v. case (acc, conv v) of (Some _, Some x) \<Rightarrow> Some x | _ \<Rightarrow> None)
       (Some z) (json_field name ms)"

section \<open>The fuel is enough\<close>

lemma skip_ws_length: "length (skip_ws s) \<le> length s"
  by (simp add: skip_ws_def length_dropWhile_le)

lemma take_digits_length: "take_digits t = (d, u) \<Longrightarrow> length u + length d = length t"
  by (metis Pair_inject length_append add.commute take_digits_def takeWhile_dropWhile_id)

lemma length_tl_le: "length (tl t) \<le> length t"
  by simp

lemma json_number_length: 
  assumes a: "json_number s = Some (x, r)"
  shows "length r < length s"
proof -
  obtain sgn s1 where 1: "(if s \<noteq> [] \<and> hd s = CHR ''-'' then (''-'', tl s) else ([], s)) = (sgn, s1)"
    by force
  obtain ip s2 where 2: "(if s1 \<noteq> [] \<and> hd s1 = CHR ''0'' then (''0'', tl s1) else take_digits s1) = (ip, s2)"
    by force
  obtain fr s3 where 3: "(if s2 \<noteq> [] \<and> hd s2 = CHR ''.''
      then (let (d, r) = take_digits (tl s2) in (CHR ''.'' # d, r)) else ([], s2)) = (fr, s3)"
    by force
  obtain ex s4 where 4: "(if s3 \<noteq> [] \<and> (hd s3 = CHR ''e'' \<or> hd s3 = CHR ''E'')
      then (let (sg, r0) = (if tl s3 \<noteq> [] \<and> (hd (tl s3) = CHR ''+'' \<or> hd (tl s3) = CHR ''-'')
                            then ([hd (tl s3)], tl (tl s3)) else ([], tl s3));
                (d, r) = take_digits r0 in ((hd s3 # sg) @ d, r))
      else ([], s3)) = (ex, s4)"
    by force
  from a have r: "ip \<noteq> []" "r = s4"
    by (simp_all add: json_number_def 1 2 3 4 Let_def split: if_splits)
  have "length s1 \<le> length s" using 1 by (auto split: if_splits)
  moreover have "length s2 < length s1"
  proof (cases "s1 \<noteq> [] \<and> hd s1 = CHR ''0''")
    case True
    with 2 show ?thesis by (cases s1) auto
  next
    case False
    with 2 have "length s2 + length ip = length s1" by (auto intro: take_digits_length)
    moreover have "0 < length ip" using r(1) by simp
    ultimately show ?thesis by linarith
  qed
  moreover have "length s3 \<le> length s2"
    using 3 take_digits_length [of "tl s2"] length_tl_le [of s2]
    by (fastforce split: if_splits prod.splits)
  moreover have "length s4 \<le> length s3"
    using 4 take_digits_length [of "tl s3"] take_digits_length [of "tl (tl s3)"] length_tl_le [of s3] length_tl_le [of "tl s3"]
    by (fastforce split: if_splits prod.splits)
  ultimately show ?thesis using r by simp
qed


lemma json_chars_length: "json_chars s = Some (x, r) \<Longrightarrow> length r < length s"
proof (induction s arbitrary: x rule: length_induct)
  case (1 s)
  then have IH: "length r < length t" if "json_chars t = Some (y, r)" "length t < length s" for t y
    using that by blast
  show ?case
  proof (cases s)
    case Nil
    with "1.prems" show ?thesis by (subst (asm) json_chars.simps) simp
  next
    case (Cons c cs)
    from "1.prems" show ?thesis
      by (subst (asm) json_chars.simps)
        (auto simp: Cons prepend_def split: if_splits option.splits list.splits dest!: IH)
  qed
qed

lemma skip_ws_Cons: "skip_ws s = c # cs \<Longrightarrow> length cs < length s"
  using skip_ws_length [of s] by simp

lemma json_scalar_length: "json_scalar c cs = Some (v, r) \<Longrightarrow> length r \<le> length cs"
  using json_number_length [of "c # cs"]
  by (auto simp: json_scalar_def less_Suc_eq_le dest: json_chars_length split: if_splits)

lemma json_lengths:
  "json_value n s = Some (v, r) \<Longrightarrow> length r < length s"
  "json_elems n s = Some (vs, r) \<Longrightarrow> length r < length s"
  "json_members n s = Some (ms, r) \<Longrightarrow> length r < length s"
proof (induction n s and n s and n s arbitrary: v r and vs r and ms r rule: json_value_json_elems_json_members.induct)
  case (2 n s)
  show ?case
  proof (cases "skip_ws s")
    case Nil
    with 2 show ?thesis by simp
  next
    case (Cons c cs)
    have l: "length cs < length s" by (rule skip_ws_Cons [OF Cons])
    have m: "length r < length cs"
      if "json_members n cs = Some (ms, r)" "c = CHR 0x7B" "\<not> (skip_ws cs \<noteq> [] \<and> hd (skip_ws cs) = CHR 0x7D)"
      for ms r using 2(1) [OF Cons that(2,3,1)] .
    have e: "length r < length cs"
      if "json_elems n cs = Some (vs, r)" "c \<noteq> CHR 0x7B" "c = CHR 0x5B" "\<not> (skip_ws cs \<noteq> [] \<and> hd (skip_ws cs) = CHR 0x5D)"
      for vs r using 2(2) [OF Cons that(2,3,4,1)] .
    have w: "length (tl (skip_ws cs)) \<le> length cs" using skip_ws_length [of cs] by simp
    consider "c = CHR 0x7B" | "c = CHR 0x5B" | "c \<notin> {CHR 0x7B, CHR 0x5B}" by blast
    then have "length r \<le> length cs"
    proof cases
      case 1
      then show ?thesis using 2(3) m w
        by (cases "skip_ws cs \<noteq> [] \<and> hd (skip_ws cs) = CHR 0x7D") (auto simp: Cons less_imp_le)
    next
      case 2
      then show ?thesis using "2.prems" e w
        by (cases "skip_ws cs \<noteq> [] \<and> hd (skip_ws cs) = CHR 0x5D") (auto simp: Cons less_imp_le)
    next
      case 3
      then show ?thesis using "2.prems" json_scalar_length [of c cs v r] by (simp add: Cons)
    qed
    with l show ?thesis by simp
  qed
next
  case (4 n s)
  show ?case
  proof (cases "json_value n s")
    case None
    with 4(3) show ?thesis by simp
  next
    case (Some p)
    then obtain v r1 where v: "json_value n s = Some (v, r1)" by (cases p) auto
    have l1: "length r1 < length s" by (rule 4(1) [OF v])
    show ?thesis
    proof (cases "skip_ws r1")
      case Nil
      with 4(3) v show ?thesis by simp
    next
      case (Cons c cs)
      have "length r \<le> length cs"
        using "4.prems" 4(2) [OF v refl Cons] by (auto simp: v Cons prepend_def less_imp_le split: if_splits)
      with l1 skip_ws_Cons [OF Cons] show ?thesis by simp
    qed
  qed
next
  case (6 n s)
  from 6(3) obtain qs where s: "skip_ws s = CHR 0x22 # qs"
    by (cases "skip_ws s") (simp_all split: if_splits)
  from 6(3) obtain k r1 where k: "json_chars qs = Some (k, r1)"
    by (cases "json_chars qs") (auto simp: s)
  from 6(3) obtain ds where d: "skip_ws r1 = CHR 0x3A # ds"
    by (cases "skip_ws r1") (simp_all add: s k split: if_splits)
  from 6(3) obtain v r2 where v: "json_value n ds = Some (v, r2)"
    by (cases "json_value n ds") (auto simp: s k d)
  from 6(3) obtain c cs where r2: "skip_ws r2 = c # cs"
    by (cases "skip_ws r2") (simp_all add: s k d v)
  have "length r2 < length ds" by (rule 6(1) [OF s _ k refl d _ v]) simp_all
  moreover have "length r \<le> length cs"
    using 6(3) 6(2) [OF s _ k refl d _ v refl r2]
    by (auto simp: s k d v r2 prepend_def less_imp_le split: if_splits)
  ultimately show ?case
    using skip_ws_Cons [OF s] json_chars_length [OF k] skip_ws_Cons [OF d] skip_ws_Cons [OF r2] by simp
qed simp_all


text \<open>With fuel for its length, a text is read the same way under any larger fuel.\<close>

lemma json_fuel:
  "2 * length s + 1 \<le> n \<Longrightarrow> n \<le> m \<Longrightarrow> json_value m s = json_value n s"
  "2 * length s + 2 \<le> n \<Longrightarrow> n \<le> m \<Longrightarrow> json_elems m s = json_elems n s"
  "2 * length s + 2 \<le> n \<Longrightarrow> n \<le> m \<Longrightarrow> json_members m s = json_members n s"
proof (induction n s and n s and n s arbitrary: m and m and m rule: json_value_json_elems_json_members.induct)
  case (2 n s)
  from 2(3,4) obtain m' where m: "m = Suc m'" "n \<le> m'" by (cases m) auto
  show ?case
  proof (cases "skip_ws s")
    case Nil
    with m(1) show ?thesis by simp
  next
    case (Cons c cs)
    have l: "2 * length cs + 2 \<le> n" using skip_ws_Cons [OF Cons] 2(3) by simp
    have "json_members m' cs = json_members n cs" if "c = CHR 0x7B" "\<not> (skip_ws cs \<noteq> [] \<and> hd (skip_ws cs) = CHR 0x7D)"
      by (rule 2(1) [OF Cons that l m(2)])
    moreover have "json_elems m' cs = json_elems n cs"
      if "c \<noteq> CHR 0x7B" "c = CHR 0x5B" "\<not> (skip_ws cs \<noteq> [] \<and> hd (skip_ws cs) = CHR 0x5D)"
      by (rule 2(2) [OF Cons that l m(2)])
    ultimately show ?thesis by (simp add: m(1) Cons)
  qed
next
  case (4 n s)
  from 4(3,4) obtain m' where m: "m = Suc m'" "n \<le> m'" by (cases m) auto
  have v: "json_value m' s = json_value n s" by (rule 4(1)) (use 4(3) m in simp_all)
  show ?case
  proof (cases "json_value n s")
    case None
    with v show ?thesis by (simp add: m(1))
  next
    case (Some p)
    then obtain x r where p: "json_value n s = Some (x, r)" by (cases p) auto
    show ?thesis
    proof (cases "skip_ws r")
      case Nil
      with v p show ?thesis by (simp add: m(1))
    next
      case (Cons c cs)
      have "2 * length cs + 2 \<le> n"
        using skip_ws_Cons [OF Cons] json_lengths(1) [OF p] 4(3) by simp
      then have "json_elems m' cs = json_elems n cs" if "c = CHR 0x2C"
        by (rule 4(2) [OF p refl Cons that _ m(2)])
      then show ?thesis by (simp add: m(1) v p Cons)
    qed
  qed
next
  case (6 n s)
  from 6(3,4) obtain m' where m: "m = Suc m'" "n \<le> m'" by (cases m) auto
  show ?case
  proof (cases "\<exists>qs k r ds. skip_ws s = CHR 0x22 # qs \<and> json_chars qs = Some (k, r) \<and> skip_ws r = CHR 0x3A # ds")
    case False
    then show ?thesis by (auto simp: m(1) split: list.splits option.splits)
  next
    case True
    then obtain qs k r ds where s: "skip_ws s = CHR 0x22 # qs" and k: "json_chars qs = Some (k, r)"
      and d: "skip_ws r = CHR 0x3A # ds" by blast
    note ls = skip_ws_Cons [OF s] json_chars_length [OF k] skip_ws_Cons [OF d]
    have v: "json_value m' ds = json_value n ds"
      by (rule 6(1) [OF s _ k refl d]) (use 6(3) m ls in simp_all)
    show ?thesis
    proof (cases "json_value n ds")
      case None
      with v s k d show ?thesis by (simp add: m(1))
    next
      case (Some p)
      then obtain x r2 where p: "json_value n ds = Some (x, r2)" by (cases p) auto
      show ?thesis
      proof (cases "skip_ws r2")
        case Nil
        with v s k d p show ?thesis by (simp add: m(1))
      next
        case (Cons c cs)
        have "2 * length cs + 2 \<le> n"
          using skip_ws_Cons [OF Cons] json_lengths(1) [OF p] 6(3) ls by simp
        then have "json_members m' cs = json_members n cs" if "c = CHR 0x2C"
          by (intro 6(2) [OF s _ k refl d _ p refl Cons that _ m(2)]) simp_all
        then show ?thesis by (simp add: m(1) v s k d p Cons)
      qed
    qed
  qed
qed simp_all

section \<open>Reading back what was written\<close>

definition ascii :: "string \<Rightarrow> bool" where
  "ascii s = list_all (\<lambda>c. of_char c < (128::nat)) s"

lemma hex_digit_roundtrip:
  "n < 16 \<Longrightarrow> hex_digit_val (hex_digit_char n) = n \<and> is_hex_digit (hex_digit_char n)"
  by (auto simp: hex_digit_char_def hex_digit_val_def is_hex_digit_def is_digit_def char_in_def)

lemma getu4_esc:
  "of_char c < (128::nat) \<Longrightarrow>
   getu4 (CHR ''0'' # CHR ''0'' # hex_digit_char (of_char c div 16) # hex_digit_char (of_char c mod 16) # r) = Some (of_char c)"
  using hex_digit_roundtrip [of "of_char c div 16"] hex_digit_roundtrip [of "of_char c mod 16"]
  by (simp add: getu4_def is_hex_digit_def is_digit_def char_in_def hex_digit_val_def)

lemma encode_rune_ascii: "of_char c < (128::nat) \<Longrightarrow> encode_rune (of_char c) = [c]"
  by (simp add: encode_rune_def)

text \<open>The reader undoes the escape of one ASCII character.\<close>

lemma json_chars_esc_char:
  assumes c: "of_char c < (128::nat)"
  shows "json_chars (json_esc_char c @ r) = prepend [c] (json_chars r)"
proof (cases "json_plain c")
  case True
  then have "c \<noteq> CHR 0x22" "c \<noteq> CHR 0x5C" "\<not> of_char c < (32::nat)"
    by (auto simp: json_plain_def char_in_def)
  with c True show ?thesis by (subst json_chars.simps) (simp add: json_esc_char_def)
next
  case False
  show ?thesis
  proof (cases "c \<in> {CHR 0x22, CHR 0x5C, CHR 0x08, CHR 0x0C, CHR 0x0A, CHR 0x0D, CHR 0x09}")
    case True
    then show ?thesis
      by (subst json_chars.simps) (auto simp: json_esc_char_def json_plain_def char_in_def simple_escape_def)
  next
    case no: False
    with False have e: "json_esc_char c = [CHR 0x5C, CHR ''u'', CHR ''0'', CHR ''0'',
        hex_digit_char (of_char c div 16), hex_digit_char (of_char c mod 16)]"
      by (simp add: json_esc_char_def)
    show ?thesis
      by (subst json_chars.simps) (use c in \<open>simp add: e getu4_esc encode_rune_ascii\<close>)
  qed
qed

lemma json_chars_escape: "ascii s \<Longrightarrow> json_chars (json_escape s @ CHR 0x22 # r) = Some (s, r)"
proof (induction s)
  case Nil
  show ?case by (subst json_chars.simps) (simp add: json_escape.simps)
next
  case (Cons c s)
  then have "json_escape (c # s) = json_esc_char c @ json_escape s"
    by (subst json_escape.simps) (simp add: ascii_def)
  with Cons show ?case by (simp add: json_chars_esc_char ascii_def prepend_def)
qed

lemma json_escape_plain: "list_all json_plain s \<Longrightarrow> json_escape s = s"
proof (induction s)
  case (Cons c s)
  then have "of_char c < (128::nat)" by (simp add: json_plain_def char_in_def)
  with Cons show ?case by (subst json_escape.simps) (simp add: json_esc_char_def)
qed (simp add: json_escape.simps)

lemma json_value_quote:
  "ascii s \<Longrightarrow> json_value (Suc n) (json_quote s @ r) = Some (JStr s, r)"
  by (simp add: json_quote_def skip_ws_def json_scalar_def json_chars_escape)

lemma nat_str_hd_0: "0 < n \<Longrightarrow> hd (nat_str n) \<noteq> CHR ''0''"
proof (induction n rule: nat_str.induct)
  case (1 n)
  have "char_of (48 + n) \<noteq> CHR ''0''" if "n < 10" "0 < n"
  proof
    assume "char_of (48 + n) = CHR ''0''"
    then have "digit_val (char_of (48 + n)) = digit_val (CHR ''0'')" by simp
    with that show False by (simp add: digit_val_def)
  qed
  with 1 show ?case by (subst nat_str.simps) simp
qed

lemma json_number_nat_str:
  assumes "\<not> is_digit c" "c \<notin> {CHR ''.'', CHR ''e'', CHR ''E''}"
  shows "json_number (nat_str n @ c # r) = Some (nat_str n, c # r)"
proof -
  let ?s = "nat_str n @ c # r"
  have hd: "hd ?s = hd (nat_str n)" by simp
  have span: "take_digits ?s = (nat_str n, c # r)"
    using assms(1) nat_str_digits [of n]
    by (auto simp: take_digits_def list_all_iff takeWhile_append dropWhile_append)
  have ip: "(if ?s \<noteq> [] \<and> hd ?s = CHR ''0'' then (''0'', tl ?s) else take_digits ?s) = (nat_str n, c # r)"
  proof (cases "n = 0")
    case True
    moreover have "char_of (of_char (CHR ''0'') :: nat) = CHR ''0''" by (rule char_of_char)
    ultimately show ?thesis by (simp add: nat_str.simps)
  next
    case False
    with nat_str_hd_0 [of n] span show ?thesis by simp
  qed
  have sgn: "(if ?s \<noteq> [] \<and> hd ?s = CHR ''-'' then (''-'', tl ?s) else ([], ?s)) = ([], ?s)"
    using hd_nat_str_no_sign(1) [of n] by simp
  show ?thesis
    unfolding json_number_def sgn Let_def prod.case ip using assms(2) by simp
qed

lemma json_value_nat_str:
  assumes "\<not> is_digit c" "c \<notin> {CHR ''.'', CHR ''e'', CHR ''E''}"
  shows "json_value (Suc n) (nat_str k @ c # r) = Some (JNum (nat_str k), c # r)"
proof -
  obtain d ds where d: "nat_str k = d # ds" by (cases "nat_str k") auto
  have dig: "is_digit d" using hd_nat_str_digit [of k] d by simp
  then have no: "d \<notin> {CHR 0x20, CHR 0x09, CHR 0x0A, CHR 0x0D, CHR 0x22, CHR 0x7B, CHR 0x5B, CHR ''n'', CHR ''t'', CHR ''f''}"
    by (auto simp: is_digit_def char_in_def)
  have "json_scalar d (ds @ c # r) = Some (JNum (nat_str k), c # r)"
    using no json_number_nat_str [OF assms, of k r] by (auto simp: json_scalar_def d)
  with no show ?thesis by (simp add: d skip_ws_def)
qed

text \<open>One member of an object, and what follows it.\<close>

definition json_member :: "string \<Rightarrow> string \<Rightarrow> string" where
  "json_member k v = json_quote k @ CHR '':'' # v"

lemma json_members_last:
  assumes "ascii k" "json_value n (v @ CHR 0x7D # r) = Some (x, CHR 0x7D # r)"
  shows "json_members (Suc n) (json_member k v @ CHR 0x7D # r) = Some ([(k, x)], r)"
  using assms by (simp add: json_member_def json_quote_def skip_ws_def json_chars_escape)

lemma json_members_more:
  assumes "ascii k" "json_value n (v @ CHR '','' # r) = Some (x, CHR '','' # r)"
  shows "json_members (Suc n) (json_member k v @ CHR '','' # r) = prepend [(k, x)] (json_members n r)"
  using assms by (simp add: json_member_def json_quote_def skip_ws_def json_chars_escape)

lemma delims: "\<not> is_digit (CHR '','')" "\<not> is_digit (CHR 0x7D)"
  by (simp_all add: is_digit_def char_in_def)

lemma ascii_nat_str: "ascii (nat_str n)"
  using nat_str_digits [of n] by (fastforce simp: ascii_def list_all_iff is_digit_def char_in_def)

lemma int_str_nonneg: "0 \<le> i \<Longrightarrow> int_str i = nat_str (nat i)"
  by (simp add: int_str_def)

text \<open>The first characters of a member are a quote and then a key.\<close>

lemma json_member_hd: "skip_ws (json_member k v @ r) = json_member k v @ r" "hd (json_member k v @ r) = CHR 0x22"
  by (simp_all add: json_member_def json_quote_def skip_ws_def)

declare json_elems.simps [simp del] json_members.simps [simp del]

lemma json_object_value:
  assumes "json_members n (json_member k v @ r) = Some (ms, u)"
  shows "json_value (Suc n) (CHR 0x7B # json_member k v @ r) = Some (JObj ms, u)"
proof -
  have "skip_ws (CHR 0x7B # json_member k v @ r) = CHR 0x7B # json_member k v @ r" by (simp add: skip_ws_def)
  with assms show ?thesis by (simp add: json_member_hd)
qed

declare json_value.simps [simp del]

text \<open>Reading with enough fuel is reading with the fuel of \<^const>\<open>json_unmarshal\<close>.\<close>

lemma json_unmarshalI:
  assumes "json_value n s = Some (v, [])" "2 * length s + 1 \<le> n"
  shows "json_unmarshal s = Some v"
proof -
  have "json_value (2 * length s + 2) s = json_value (2 * length s + 1) s" by (rule json_fuel) simp_all
  moreover have "json_value n s = json_value (2 * length s + 1) s" by (rule json_fuel) (use assms in simp_all)
  ultimately have "json_value (2 * length s + 2) s = Some (v, [])" using assms(1) by (simp only:)
  then show ?thesis by (simp add: json_unmarshal_def skip_ws_def)
qed

end
