(* ===== verification/Nomination.thy ===== *)
theory Nomination
  imports Candidates Go_Json
begin

text \<open>
  Endpoint nomination (\<^verbatim>\<open>nomination.go\<close>, \<^verbatim>\<open>stun.go\<close>): the per-tuple wait sequence of the master,
  the authenticated STUN responder that feeds it, the listener that reads the outer sockets
  before the CONNECT response, its bounded packet log, and the fallback probe.

  The STUN library (pion/stun) is not part of the repository; the functions the client calls
  are the fields of \<open>stun_lib\<close>, an argument of every definition that uses them.
\<close>

section \<open>The nomination tracker\<close>

definition nominationWaitSequence :: "int list" where
  "nominationWaitSequence = [2000, 1000, 500, 250, 125]"

text \<open>
  \<open>nt_pairs\<close> is the map from a remote tuple to its \<^verbatim>\<open>nextWait\<close>; \<open>nt_chClosed\<close> says whether the
  channel \<^verbatim>\<open>selectedCh\<close> is closed. Closing it twice is a run-time panic.
\<close>

record nominationTracker =
  nt_pairs :: "string \<rightharpoonup> nat"
  nt_active :: bool
  nt_selected :: string
  nt_chClosed :: bool

datatype panic = CloseOfClosedChannel

definition newNominationTracker :: nominationTracker where
  "newNominationTracker =
     \<lparr>nt_pairs = Map.empty, nt_active = False, nt_selected = [], nt_chClosed = False\<rparr>"

definition tracker_select :: "nominationTracker \<Rightarrow> string \<Rightarrow> panic + nominationTracker" where
  "tracker_select t addr =
     (if nt_chClosed t then Inl CloseOfClosedChannel
      else Inr (t\<lparr>nt_selected := addr, nt_chClosed := True\<rparr>))"

definition nextWait :: "nominationTracker \<Rightarrow> string \<Rightarrow> nat" where
  "nextWait t addr = (case nt_pairs t addr of None \<Rightarrow> 0 | Some n \<Rightarrow> n)"

definition tracker_observe :: "nominationTracker \<Rightarrow> string \<Rightarrow> int \<Rightarrow> panic + (nominationTracker \<times> bool)" where
  "tracker_observe t addr waitMs =
     (let p = nextWait t addr;
          t1 = t\<lparr>nt_pairs := (nt_pairs t)(addr \<mapsto> p)\<rparr>
      in if nt_selected t1 \<noteq> [] \<or> p \<ge> length nominationWaitSequence then Inr (t1, False)
         else if waitMs \<noteq> nominationWaitSequence ! p then Inr (t1, False)
         else
           let t2 = t1\<lparr>nt_pairs := (nt_pairs t1)(addr \<mapsto> Suc p)\<rparr>
           in if Suc p = length nominationWaitSequence then
                (if \<not> nt_active t2 then Inr (t2, False)
                 else case tracker_select t2 addr of Inl e \<Rightarrow> Inl e | Inr t3 \<Rightarrow> Inr (t3, True))
              else Inr (t2, False))"

text \<open>
  \<open>order\<close> is the order in which the range over the map visits its keys; Go leaves it open.
\<close>

definition tracker_activate :: "string list \<Rightarrow> nominationTracker \<Rightarrow> panic + nominationTracker" where
  "tracker_activate order t =
     (if nt_active t then Inr t
      else
        let t1 = t\<lparr>nt_active := True\<rparr>
        in case find (\<lambda>addr. nt_pairs t1 addr = Some (length nominationWaitSequence)) order of
             Some addr \<Rightarrow> tracker_select t1 addr
           | None \<Rightarrow> Inr t1)"

definition selectedEndpoint :: "nominationTracker \<Rightarrow> string" where
  [simp]: "selectedEndpoint t = nt_selected t"

text \<open>
  \<^verbatim>\<open>waitForSelection\<close>: what the select statement woke up on, if the endpoint was not there at
  once. \<open>t'\<close> is the tracker when it woke up.
\<close>

datatype wait_event = SelectedCh | TimerFired | CtxDone

definition waitForSelection :: "nominationTracker \<Rightarrow> wait_event \<Rightarrow> nominationTracker \<Rightarrow> string" where
  "waitForSelection t ev t' =
     (if selectedEndpoint t \<noteq> [] then selectedEndpoint t
      else case ev of SelectedCh \<Rightarrow> selectedEndpoint t' | TimerFired \<Rightarrow> [] | CtxDone \<Rightarrow> [])"

section \<open>STUN messages\<close>

record 'm stun_lib =
  sl_Decode :: "byte list \<Rightarrow> 'm option"
  sl_IsBindingRequest :: "'m \<Rightarrow> bool"
  sl_TypeString :: "'m \<Rightarrow> string"
  sl_Check :: "string \<Rightarrow> 'm \<Rightarrow> bool"
  sl_GetData :: "'m \<Rightarrow> string option"
  sl_BuildSuccess :: "'m \<Rightarrow> string option \<Rightarrow> byte list"
  sl_XORMappedAddress :: "'m \<Rightarrow> (net_ip \<times> int) option"
  sl_BuildRequest :: "byte list \<Rightarrow> string option \<Rightarrow> byte list"

definition be_uint32 :: "byte list \<Rightarrow> 32 word" where
  "be_uint32 bs = word_rcat bs"

definition isSTUN :: "byte list \<Rightarrow> bool" where
  "isSTUN data =
     (length data \<ge> 20 \<and> (data ! 0 = 0 \<or> data ! 0 = 1) \<and>
      be_uint32 (take 4 (drop 4 data)) = 0x2112A442)"

definition parseStunMessage :: "'m stun_lib \<Rightarrow> byte list \<Rightarrow> 'm option" where
  "parseStunMessage lib data = sl_Decode lib data"

definition parseXorMapped :: "'m stun_lib \<Rightarrow> byte list \<Rightarrow> string option" where
  "parseXorMapped lib data =
     (case sl_Decode lib data of
        None \<Rightarrow> None
      | Some msg \<Rightarrow>
          (case sl_XORMappedAddress lib msg of
             None \<Rightarrow> None
           | Some (ip, port) \<Rightarrow> Some (joinHostPort (ip_String ip) (int_str port))))"

definition validStunIntegrity :: "'m stun_lib \<Rightarrow> 'm \<Rightarrow> string \<Rightarrow> bool" where
  "validStunIntegrity lib msg secret = (secret \<noteq> [] \<and> sl_Check lib secret msg)"

definition stunBindingSuccess :: "'m stun_lib \<Rightarrow> 'm \<Rightarrow> string \<Rightarrow> byte list" where
  "stunBindingSuccess lib req secret =
     sl_BuildSuccess lib req (if secret \<noteq> [] then Some secret else None)"

definition stunNominationWait :: "'m stun_lib \<Rightarrow> 'm \<Rightarrow> int option" where
  "stunNominationWait lib msg =
     (case sl_GetData lib msg of
        None \<Rightarrow> None
      | Some raw \<Rightarrow>
          (case json_unmarshal raw of
             Some (JObj ms) \<Rightarrow> decode_field json_as_int 0 ''wait'' ms
           | Some JNull \<Rightarrow> Some 0
           | _ \<Rightarrow> None))"

text \<open>
  The outcome of answering a request: the response, whether it was accepted, what was
  written to the socket, and the tracker afterwards.
\<close>

record stun_answer =
  sa_response :: "byte list option"
  sa_accepted :: bool
  sa_sent :: "(byte list \<times> addr_port) list"
  sa_tracker :: "nominationTracker option"

definition respondToStunBindingRequestAddrPort ::
  "'m stun_lib \<Rightarrow> bool \<Rightarrow> 'm \<Rightarrow> addr_port \<Rightarrow> string \<Rightarrow> nominationTracker option \<Rightarrow> panic + stun_answer" where
  "respondToStunBindingRequestAddrPort lib haveConn msg addrPort secret tracker =
     (if \<not> validStunIntegrity lib msg secret
      then Inr \<lparr>sa_response = None, sa_accepted = False, sa_sent = [], sa_tracker = tracker\<rparr>
      else
        let resp = stunBindingSuccess lib msg secret;
            ans = \<lparr>sa_response = (if resp \<noteq> [] then Some resp else None), sa_accepted = True,
                   sa_sent = (if resp \<noteq> [] \<and> haveConn then [(resp, addrPort)] else []),
                   sa_tracker = tracker\<rparr>
        in case tracker of
             None \<Rightarrow> Inr ans
           | Some t \<Rightarrow>
               (case stunNominationWait lib msg of
                  None \<Rightarrow> Inr ans
                | Some waitMs \<Rightarrow>
                    (case tracker_observe t (addrPort_String addrPort) waitMs of
                       Inl e \<Rightarrow> Inl e
                     | Inr (t', _) \<Rightarrow> Inr (ans\<lparr>sa_tracker := Some t'\<rparr>))))"

definition respondToStunBindingRequest ::
  "'m stun_lib \<Rightarrow> bool \<Rightarrow> 'm \<Rightarrow> udp_addr option \<Rightarrow> string \<Rightarrow> nominationTracker option \<Rightarrow> panic + stun_answer" where
  "respondToStunBindingRequest lib haveConn msg addr secret tracker =
     (case addr of
        None \<Rightarrow> Inr \<lparr>sa_response = None, sa_accepted = False, sa_sent = [], sa_tracker = tracker\<rparr>
      | Some a \<Rightarrow>
          respondToStunBindingRequestAddrPort lib haveConn msg (udpAddr_AddrPort a) secret tracker)"

section \<open>Stopping the readers\<close>

definition conn_SetReadDeadline :: "instant option \<Rightarrow> udp_conn option \<Rightarrow> udp_conn option" where
  "conn_SetReadDeadline t c = map_option (\<lambda>c. c\<lparr>uc_readDeadline := t\<rparr>) c"

definition setUDPReadDeadline :: "udpSockets \<Rightarrow> instant option \<Rightarrow> udpSockets" where
  "setUDPReadDeadline s t =
     s\<lparr>us_V4 := conn_SetReadDeadline t (us_V4 s), us_V6 := conn_SetReadDeadline t (us_V6 s)\<rparr>"

text \<open>
  \<open>rs_readers\<close> counts the goroutines of the wait group; a reader leaves once it sees the
  closed channel or the deadline.
\<close>

record udpReadStopper =
  rs_sockets :: udpSockets
  rs_done :: bool
  rs_stopped :: bool
  rs_readers :: nat

definition newUDPReadStopper :: "udpSockets \<Rightarrow> udpReadStopper" where
  "newUDPReadStopper s = \<lparr>rs_sockets = s, rs_done = False, rs_stopped = False, rs_readers = 0\<rparr>"

definition stopper_start :: "udpReadStopper \<Rightarrow> udp_conn option \<Rightarrow> udpReadStopper" where
  "stopper_start u conn = (case conn of None \<Rightarrow> u | Some _ \<Rightarrow> u\<lparr>rs_readers := Suc (rs_readers u)\<rparr>)"

text \<open>What a reader does next: \<^verbatim>\<open>readUDPPacket\<close> fails after Stop or with an expired deadline.\<close>

definition readUDPPacket ::
  "udpReadStopper \<Rightarrow> (byte list \<times> udp_addr) option \<Rightarrow> (byte list \<times> udp_addr) option" where
  "readUDPPacket u received = (if rs_done u then None else received)"

definition stopper_Stop :: "instant \<Rightarrow> udpReadStopper \<Rightarrow> udpReadStopper" where
  "stopper_Stop now u =
     (if rs_stopped u then u
      else
        let u1 = u\<lparr>rs_stopped := True, rs_done := True\<rparr>;
            u2 = u1\<lparr>rs_sockets := setUDPReadDeadline (rs_sockets u1) (Some now)\<rparr>;
            u3 = u2\<lparr>rs_readers := 0\<rparr> \<comment> \<open>\<^verbatim>\<open>wg.Wait()\<close>\<close>
        in u3\<lparr>rs_sockets := setUDPReadDeadline (rs_sockets u3) None\<rparr>)"

section \<open>The early listener\<close>

record packetLog =
  pl_Direction :: string
  pl_Addr :: string
  pl_Length :: nat
  pl_PrefixHex :: string
  pl_STUN :: bool
  pl_STUNType :: string

definition logPacket :: "'m stun_lib \<Rightarrow> string \<Rightarrow> udp_addr option \<Rightarrow> byte list \<Rightarrow> packetLog" where
  "logPacket lib direction addr data =
     (let prefixLen = min (length data) 12 in
      \<lparr>pl_Direction = direction,
       pl_Addr = (case addr of None \<Rightarrow> [] | Some a \<Rightarrow> udpAddr_String a),
       pl_Length = length data,
       pl_PrefixHex = hex_encode (take prefixLen data),
       pl_STUN = (parseStunMessage lib data \<noteq> None),
       pl_STUNType = (case parseStunMessage lib data of None \<Rightarrow> [] | Some msg \<Rightarrow> sl_TypeString lib msg)\<rparr>)"

definition maxEarlyNominationLogs :: nat where
  "maxEarlyNominationLogs = 500"

definition appendLog :: "packetLog list \<Rightarrow> packetLog \<Rightarrow> packetLog list" where
  "appendLog logs p =
     (if length logs \<ge> maxEarlyNominationLogs then tl logs else logs) @ [p]"

text \<open>The sockets of the listener are those of its stopper.\<close>

record earlyNominationListener =
  en_stunSecret :: string
  en_nomination :: nominationTracker
  en_logs :: "packetLog list"
  en_allowed :: "string set option"
  en_sent :: "(byte list \<times> addr_port) list"
  en_stop :: udpReadStopper

definition newEarlyNominationListener :: "udpSockets \<Rightarrow> string \<Rightarrow> nominationTracker \<Rightarrow> earlyNominationListener" where
  "newEarlyNominationListener sockets stunSecret nomination =
     \<lparr>en_stunSecret = stunSecret, en_nomination = nomination, en_logs = [], en_allowed = None,
      en_sent = [], en_stop = newUDPReadStopper sockets\<rparr>"

definition restrictToCandidates :: "earlyNominationListener \<Rightarrow> candidate list \<Rightarrow> earlyNominationListener" where
  "restrictToCandidates l candidates = l\<lparr>en_allowed := Some (cand_Addr ` set candidates)\<rparr>"

definition listener_allows :: "earlyNominationListener \<Rightarrow> string \<Rightarrow> bool" where
  "listener_allows l addr = (case en_allowed l of None \<Rightarrow> True | Some A \<Rightarrow> addr \<in> A)"

text \<open>\<^verbatim>\<open>Start\<close> runs a \<^verbatim>\<open>readLoop\<close> on every open socket; \<^verbatim>\<open>Stop\<close> ends them at time \<open>now\<close>.\<close>

definition listener_Start :: "earlyNominationListener \<Rightarrow> earlyNominationListener" where
  "listener_Start l =
     (let s = rs_sockets (en_stop l)
      in l\<lparr>en_stop := stopper_start (stopper_start (en_stop l) (us_V4 s)) (us_V6 s)\<rparr>)"

definition listener_Stop :: "instant \<Rightarrow> earlyNominationListener \<Rightarrow> earlyNominationListener" where
  "listener_Stop now l = l\<lparr>en_stop := stopper_Stop now (en_stop l)\<rparr>"

definition listener_Logs :: "earlyNominationListener \<Rightarrow> packetLog list" where
  [simp]: "listener_Logs l = en_logs l"

text \<open>One iteration of \<^verbatim>\<open>readLoop\<close> on a datagram that was read.\<close>

definition listener_packet ::
  "'m stun_lib \<Rightarrow> earlyNominationListener \<Rightarrow> byte list \<times> udp_addr \<Rightarrow> panic + earlyNominationListener" where
  "listener_packet lib l pkt =
     (let (data, addr) = pkt in
      if \<not> listener_allows l (udpAddr_String addr) then Inr l
      else
        let l1 = l\<lparr>en_logs := appendLog (en_logs l) (logPacket lib ''in'' (Some addr) data)\<rparr>
        in case parseStunMessage lib data of
             None \<Rightarrow> Inr l1
           | Some msg \<Rightarrow>
               (if \<not> sl_IsBindingRequest lib msg then Inr l1
                else case respondToStunBindingRequest lib True msg (Some addr) (en_stunSecret l1)
                            (Some (en_nomination l1)) of
                  Inl e \<Rightarrow> Inl e
                | Inr ans \<Rightarrow>
                    (if \<not> sa_accepted ans then Inr l1
                     else
                       let l2 = l1\<lparr>en_nomination := the (sa_tracker ans), en_sent := en_sent l1 @ sa_sent ans\<rparr>
                       in case sa_response ans of
                            None \<Rightarrow> Inr l2
                          | Some resp \<Rightarrow>
                              Inr (l2\<lparr>en_logs := appendLog (en_logs l2)
                                         (logPacket lib ''out'' (Some addr) resp)\<rparr>))))"

text \<open>\<^verbatim>\<open>readLoop\<close> on the datagrams that arrive, until there are no more or the read fails.\<close>

fun listener_readLoop ::
  "'m stun_lib \<Rightarrow> earlyNominationListener \<Rightarrow> (byte list \<times> udp_addr) list \<Rightarrow> panic + earlyNominationListener" where
  "listener_readLoop lib l [] = Inr l"
| "listener_readLoop lib l (p # ps) =
     (case readUDPPacket (en_stop l) (Some p) of
        None \<Rightarrow> Inr l
      | Some pkt \<Rightarrow> (case listener_packet lib l pkt of Inl e \<Rightarrow> Inl e | Inr l' \<Rightarrow> listener_readLoop lib l' ps))"

section \<open>Connectivity probes\<close>

text \<open>
  \<open>tx\<close> is the random transaction id. \<open>resolve\<close> is \<^verbatim>\<open>net.ResolveUDPAddr\<close> on this host and
  \<open>writeOk\<close> whether the datagram could be written: both are the operating system's. The
  result is the datagram sent and its network, \<open>None\<close> when nothing was sent.
\<close>

definition stunBindingProbe :: "'m stun_lib \<Rightarrow> byte list \<Rightarrow> string \<Rightarrow> byte list \<times> byte list" where
  "stunBindingProbe lib tx secret =
     (sl_BuildRequest lib tx (if secret \<noteq> [] then Some secret else None), tx)"

type_synonym sent_probe = "string \<times> udp_addr \<times> byte list"

record probe_os =
  po_resolve :: "string \<Rightarrow> string \<Rightarrow> udp_addr option"
  po_writeOk :: "string \<Rightarrow> udp_addr \<Rightarrow> bool"

definition sendPeerCandidateProbe ::
  "'m stun_lib \<Rightarrow> probe_os \<Rightarrow> udpSockets option \<Rightarrow> string \<Rightarrow> string \<Rightarrow> byte list \<Rightarrow> sent_probe option" where
  "sendPeerCandidateProbe lib os sockets addr secret tx =
     (case sockets of
        None \<Rightarrow> None
      | Some s \<Rightarrow>
          (case splitHostPort addr of
             None \<Rightarrow> None
           | Some (host, _) \<Rightarrow>
               (case parseIP host of
                  None \<Rightarrow> None
                | Some ip \<Rightarrow>
                    (let conn = (if is_v4 ip then us_V4 s else us_V6 s);
                         network = (if is_v4 ip then ''udp4'' else ''udp6'')
                     in if conn = None then None
                        else case po_resolve os network addr of
                          None \<Rightarrow> None
                        | Some remote \<Rightarrow>
                            (if po_writeOk os network remote
                             then Some (network, remote, fst (stunBindingProbe lib tx secret))
                             else None)))))"

text \<open>
  The goroutine of \<^verbatim>\<open>startPeerCandidateProbes\<close>: a burst phase, then a keep-alive phase, until it is
  told to stop. \<open>send n\<close> is what the \<open>n\<close>-th round sends; the state counts the rounds and holds what
  was sent so far.
\<close>

datatype probe_phase = Burst | KeepAlive | ProbesStopped

datatype probe_tick = TickDone | TickBurstDeadline | TickBurst | TickKeepAlive

type_synonym probe_state = "probe_phase \<times> nat \<times> sent_probe list"

fun peerProbe_step :: "(nat \<Rightarrow> sent_probe list) \<Rightarrow> probe_state \<Rightarrow> probe_tick \<Rightarrow> probe_state" where
  "peerProbe_step send (ProbesStopped, n, out) e = (ProbesStopped, n, out)"
| "peerProbe_step send (ph, n, out) TickDone = (ProbesStopped, n, out)"
| "peerProbe_step send (Burst, n, out) TickBurstDeadline = (KeepAlive, n, out)"
| "peerProbe_step send (Burst, n, out) TickBurst = (Burst, Suc n, out @ send n)"
| "peerProbe_step send (KeepAlive, n, out) TickKeepAlive = (KeepAlive, Suc n, out @ send n)"
| "peerProbe_step send st e = st"

text \<open>The host during a round, and the transaction id of every probe of a round.\<close>

definition peerProbe_send ::
  "'m stun_lib \<Rightarrow> (nat \<Rightarrow> probe_os) \<Rightarrow> udpSockets option \<Rightarrow> candidate list \<Rightarrow> string \<Rightarrow> (nat \<Rightarrow> nat \<Rightarrow> byte list) \<Rightarrow> nat \<Rightarrow> sent_probe list" where
  "peerProbe_send lib os sockets candidates secret tx n =
     List.map_filter (\<lambda>(i, c). sendPeerCandidateProbe lib (os n) sockets (cand_Addr c) secret (tx n i)) (List.enumerate 0 candidates)"

definition startPeerCandidateProbes ::
  "'m stun_lib \<Rightarrow> (nat \<Rightarrow> probe_os) \<Rightarrow> udpSockets option \<Rightarrow> candidate list \<Rightarrow> string \<Rightarrow> (nat \<Rightarrow> nat \<Rightarrow> byte list) \<Rightarrow> probe_tick list \<Rightarrow>
   probe_state" where
  "startPeerCandidateProbes lib os sockets candidates secret tx ticks =
     (if sockets = None \<or> candidates = [] then (ProbesStopped, 0, [])
      else
        let send = peerProbe_send lib os sockets candidates secret tx
        in foldl (peerProbe_step send) (Burst, 1, send 0) ticks)"

subsection \<open>The fallback probe\<close>

record probe_target =
  tg_addr :: string
  tg_remote :: udp_addr
  tg_network :: string \<comment> \<open>of the socket it is probed on\<close>

definition new_target :: "udpSockets \<Rightarrow> candidate \<Rightarrow> probe_target option" where
  "new_target s c =
     (case parseAddrPort (cand_Addr c) of
        None \<Rightarrow> None
      | Some ap \<Rightarrow>
          (if (if addr_Is6 (fst ap) then us_V6 s else us_V4 s) = None then None
           else Some \<lparr>tg_addr = cand_Addr c, tg_remote = udpAddrFromAddrPort ap,
                      tg_network = (if addr_Is6 (fst ap) then ''udp6'' else ''udp4'')\<rparr>))"

definition probe_targets :: "udpSockets \<Rightarrow> candidate list \<Rightarrow> probe_target list" where
  "probe_targets s ordered = List.map_filter (new_target s) ordered"

definition rankByRemote :: "probe_target list \<Rightarrow> (string \<rightharpoonup> nat)" where
  "rankByRemote targets =
     foldl (\<lambda>m i. m(udpAddr_String (tg_remote (targets ! i)) \<mapsto> i)) Map.empty [0..<length targets]"

text \<open>The requests to the targets; an error of the write is ignored.\<close>

definition target_probes :: "'m stun_lib \<Rightarrow> (nat \<Rightarrow> byte list) \<Rightarrow> string \<Rightarrow> probe_target list \<Rightarrow> sent_probe list" where
  "target_probes lib tx secret targets =
     map (\<lambda>(i, t). (tg_network t, tg_remote t, fst (stunBindingProbe lib (tx i) secret))) (List.enumerate 0 targets)"

datatype probe_event = PrResponse udp_addr | PrGrace | PrTimer

text \<open>
  The select loop: the best rank so far, and the events in the order they are received. \<open>None\<close>
  is a loop that still waits after them. The grace channel is nil until the first response.
\<close>

fun probe_loop ::
  "probe_target list \<Rightarrow> candidate list \<Rightarrow> nat option \<Rightarrow> probe_event list \<Rightarrow> string option" where
  "probe_loop targets ordered best [] = None"
| "probe_loop targets ordered best (PrResponse r # es) =
     (case rankByRemote targets (udpAddr_String r) of
        None \<Rightarrow> probe_loop targets ordered best es
      | Some rank \<Rightarrow>
          (if rank = 0 then Some (tg_addr (targets ! rank))
           else if (case best of None \<Rightarrow> True | Some b \<Rightarrow> rank < b)
             then probe_loop targets ordered (Some rank) es
           else probe_loop targets ordered best es))"
| "probe_loop targets ordered best (PrGrace # es) =
     (case best of
        Some b \<Rightarrow> Some (tg_addr (targets ! b))
      | None \<Rightarrow> probe_loop targets ordered best es)"
| "probe_loop targets ordered best (PrTimer # es) =
     (case best of
        Some b \<Rightarrow> Some (tg_addr (targets ! b))
      | None \<Rightarrow> Some (guessCandidate ordered))"

text \<open>
  The readers take the datagrams from the sockets until the deferred \<^verbatim>\<open>Stop\<close> at time \<open>now\<close>. The result: the
  requests sent, the sockets as they are left, and the candidate; \<open>None\<close> when it has not returned.
\<close>

definition probeCandidates ::
  "'m stun_lib \<Rightarrow> (nat \<Rightarrow> byte list) \<Rightarrow> instant \<Rightarrow> udpSockets option \<Rightarrow> candidate list \<Rightarrow> string \<Rightarrow> candidate list \<Rightarrow> probe_event list \<Rightarrow>
   (sent_probe list \<times> udpSockets option \<times> string) option" where
  "probeCandidates lib tx now sockets cands sessionSecret local events =
     (let ordered = compatibleCandidates sockets cands local in
      case sockets of
        None \<Rightarrow> Some ([], sockets, guessCandidate ordered)
      | Some s \<Rightarrow>
          (if ordered = [] then Some ([], sockets, guessCandidate ordered)
           else let targets = probe_targets s ordered in
                if targets = [] then Some ([], sockets, guessCandidate ordered)
                else
                  let reader = stopper_start (stopper_start (newUDPReadStopper s) (us_V4 s)) (us_V6 s);
                      sent = target_probes lib tx sessionSecret targets
                  in case probe_loop targets ordered None events of
                       None \<Rightarrow> None
                     | Some selected \<Rightarrow> Some (sent, Some (rs_sockets (stopper_Stop now reader)), selected)))"

section \<open>Runs of the tracker\<close>

text \<open>
  A history of requests and activations, with the tracker after it. The listener and the
  WireGuard bind feed the same tracker from several goroutines; the mutex makes their calls
  a sequence, and the relation allows every such sequence and every map order.
\<close>

datatype nom_event = Observed string int | Activated

inductive nom_run :: "nom_event list \<Rightarrow> nominationTracker \<Rightarrow> bool" where
  nom_new: "nom_run [] newNominationTracker"
| nom_observe: "nom_run h t \<Longrightarrow> addr \<noteq> [] \<Longrightarrow> tracker_observe t addr w = Inr (t', sel) \<Longrightarrow>
    nom_run (h @ [Observed addr w]) t'"
| nom_activate: "nom_run h t \<Longrightarrow> set order = dom (nt_pairs t) \<Longrightarrow> tracker_activate order t = Inr t' \<Longrightarrow>
    nom_run (h @ [Activated]) t'"

text \<open>The waits one remote tuple sent, and how far they match the sequence greedily.\<close>

definition waits_of :: "string \<Rightarrow> nom_event list \<Rightarrow> int list" where
  "waits_of addr h = List.map_filter (\<lambda>e. case e of Observed a w \<Rightarrow> (if a = addr then Some w else None)
                                              | Activated \<Rightarrow> None) h"

definition match_wait :: "nat \<Rightarrow> int \<Rightarrow> nat" where
  "match_wait k w = (if k < length nominationWaitSequence \<and> w = nominationWaitSequence ! k then Suc k else k)"

definition progress :: "int list \<Rightarrow> nat" where
  "progress ws = foldl match_wait 0 ws"

definition completed :: "nominationTracker \<Rightarrow> string \<Rightarrow> bool" where
  "completed t addr = (nt_pairs t addr = Some (length nominationWaitSequence))"

definition tracker_inv :: "nominationTracker \<Rightarrow> bool" where
  "tracker_inv t =
     ((nt_chClosed t \<longleftrightarrow> nt_selected t \<noteq> []) \<and>
      (nt_selected t \<noteq> [] \<longrightarrow> nt_active t \<and> completed t (nt_selected t)) \<and>
      (nt_active t \<and> nt_selected t = [] \<longrightarrow> (\<forall>a. \<not> completed t a)) \<and>
      nt_pairs t [] = None \<and>
      (\<forall>a. nextWait t a \<le> length nominationWaitSequence))"

lemma length_waits [simp]: "length nominationWaitSequence = 5"
  by (simp add: nominationWaitSequence_def)

lemma completed_nextWait: "completed t a \<longleftrightarrow> nextWait t a = 5"
  by (auto simp: completed_def nextWait_def split: option.splits)

lemma tracker_inv_new [simp]: "tracker_inv newNominationTracker"
  by (simp add: tracker_inv_def newNominationTracker_def completed_def nextWait_def)

text \<open>The three outcomes of a request, as equations on the fields of the tracker.\<close>

lemma tracker_observe_cases:
  assumes "tracker_inv t" "addr \<noteq> []"
  shows "\<exists>t'. tracker_observe t addr w = Inr (t', nt_selected t = [] \<and> nt_selected t' \<noteq> []) \<and>
    nt_active t' = nt_active t \<and>
    nt_pairs t' = (nt_pairs t)(addr \<mapsto> (if nt_selected t = [] then match_wait (nextWait t addr) w
                                         else nextWait t addr)) \<and>
    nt_selected t' = (if nt_selected t = [] \<and> nt_active t \<and> nextWait t addr < 5 \<and>
                         match_wait (nextWait t addr) w = 5
                      then addr else nt_selected t) \<and>
    nt_chClosed t' = (nt_selected t' \<noteq> [])"
proof -
  have ch: "nt_chClosed t \<longleftrightarrow> nt_selected t \<noteq> []" using assms by (simp add: tracker_inv_def)
  show ?thesis
    using assms(2) ch
    by (simp add: tracker_observe_def Let_def match_wait_def tracker_select_def)
qed

lemma nextWait_observe:
  "nt_pairs t' = (nt_pairs t)(addr \<mapsto> n) \<Longrightarrow> nextWait t' a = (if a = addr then n else nextWait t a)"
  by (simp add: nextWait_def)

lemma match_wait_le: "k \<le> 5 \<Longrightarrow> match_wait k w \<le> 5"
  by (simp add: match_wait_def)

lemma tracker_observe_inv [go_inv]:
  assumes inv: "tracker_inv t" and addr: "addr \<noteq> []" and ob: "tracker_observe t addr w = Inr (t', sel)"
  shows "tracker_inv t'"
proof -
  from tracker_observe_cases [OF inv addr, of w] ob
  have e: "nt_active t' = nt_active t"
    "nt_pairs t' = (nt_pairs t)(addr \<mapsto> (if nt_selected t = [] then match_wait (nextWait t addr) w
                                         else nextWait t addr))"
    "nt_selected t' = (if nt_selected t = [] \<and> nt_active t \<and> nextWait t addr < 5 \<and>
                          match_wait (nextWait t addr) w = 5 then addr else nt_selected t)"
    "nt_chClosed t' = (nt_selected t' \<noteq> [])"
    by auto
  note nw = nextWait_observe [OF e(2)]
  from inv have le: "\<And>a. nextWait t a \<le> 5" by (simp add: tracker_inv_def)
  have "match_wait (nextWait t addr) w = 5 \<Longrightarrow> \<not> nextWait t addr < 5 \<Longrightarrow> nextWait t addr = 5"
    using le [of addr] by simp
  with inv addr le show ?thesis
    by (auto simp: tracker_inv_def completed_nextWait nw e match_wait_le split: if_splits)
qed

lemma tracker_activate_cases:
  assumes inv: "tracker_inv t" and ord: "set order = dom (nt_pairs t)"
  shows "\<exists>t'. tracker_activate order t = Inr t' \<and> nt_active t' \<and> nt_pairs t' = nt_pairs t \<and>
    nt_chClosed t' = (nt_selected t' \<noteq> []) \<and>
    (if nt_active t \<or> (\<forall>a. \<not> completed t a) then nt_selected t' = nt_selected t
     else nt_selected t' \<noteq> [] \<and> completed t (nt_selected t'))"
proof (cases "nt_active t")
  case True
  with inv show ?thesis by (simp add: tracker_activate_def tracker_inv_def)
next
  case False
  with inv have sel: "nt_selected t = []" "\<not> nt_chClosed t" by (auto simp: tracker_inv_def)
  show ?thesis
  proof (cases "find (\<lambda>addr. nt_pairs t addr = Some 5) order")
    case None
    with ord have "\<forall>a. \<not> completed t a" by (auto simp: find_None_iff completed_def)
    with None False sel show ?thesis by (simp add: tracker_activate_def)
  next
    case (Some a)
    then have a: "completed t a" by (auto dest: find_SomeD simp: completed_def)
    with inv have "a \<noteq> []" by (auto simp: tracker_inv_def completed_def)
    with Some False sel a show ?thesis
      by (auto simp: tracker_activate_def tracker_select_def)
  qed
qed

lemma tracker_activate_inv [go_inv]:
  assumes inv: "tracker_inv t" and ord: "set order = dom (nt_pairs t)"
    and act: "tracker_activate order t = Inr t'"
  shows "tracker_inv t'"
proof -
  from tracker_activate_cases [OF inv ord] act
  have e: "nt_active t'" "nt_pairs t' = nt_pairs t" "nt_chClosed t' = (nt_selected t' \<noteq> [])"
    "if nt_active t \<or> (\<forall>a. \<not> completed t a) then nt_selected t' = nt_selected t
     else nt_selected t' \<noteq> [] \<and> completed t (nt_selected t')"
    by auto
  have "completed t' = completed t" "nextWait t' = nextWait t"
    using e(2) by (auto simp: completed_def nextWait_def fun_eq_iff)
  with e inv show ?thesis by (auto simp: tracker_inv_def split: if_splits)
qed

lemma nom_run_inv: "nom_run h t \<Longrightarrow> tracker_inv t"
  by (induction rule: nom_run.induct) (auto intro: tracker_observe_inv tracker_activate_inv)

subsection \<open>Histories\<close>

lemma waits_of_simps [simp]:
  "waits_of a [] = []"
  "waits_of a (h @ [Observed b w]) = waits_of a h @ (if b = a then [w] else [])"
  "waits_of a (h @ [Activated]) = waits_of a h"
  by (auto simp: waits_of_def List.map_filter_def)

lemma progress_simps [simp]: "progress [] = 0" "progress (ws @ [w]) = match_wait (progress ws) w"
  by (simp_all add: progress_def)

lemma progress_le: "progress ws \<le> 5"
  by (induction ws rule: rev_induct) (auto simp: match_wait_le)

lemma match_wait_mono: "j \<le> k \<Longrightarrow> k \<le> 5 \<Longrightarrow> match_wait j w \<le> match_wait k w"
  by (cases "j = k") (auto simp: match_wait_def)

lemma progress_subseq: "subseq (take (progress ws) nominationWaitSequence) ws"
proof (induction ws rule: rev_induct)
  case (snoc w ws)
  then show ?case
    by (auto simp: match_wait_def take_Suc_conv_app_nth intro: list_emb_prefix list_emb_append_mono)
qed simp

text \<open>What the tracker knows is what the history says, and no less once nothing is selected.\<close>

lemma nom_run_progress:
  "nom_run h t \<Longrightarrow> (nt_active t \<longleftrightarrow> Activated \<in> set h) \<and>
   (\<forall>a. nextWait t a \<le> progress (waits_of a h)) \<and>
   (nt_selected t = [] \<longrightarrow> (\<forall>a. a \<noteq> [] \<longrightarrow> nextWait t a = progress (waits_of a h)))"
proof (induction rule: nom_run.induct)
  case nom_new
  then show ?case by (simp add: newNominationTracker_def nextWait_def)
next
  case (nom_observe h t addr w t' sel)
  from nom_run_inv [OF nom_observe(1)] nom_observe(2,3)
  have e: "nt_active t' = nt_active t"
    "nt_pairs t' = (nt_pairs t)(addr \<mapsto> (if nt_selected t = [] then match_wait (nextWait t addr) w
                                         else nextWait t addr))"
    "nt_selected t' = [] \<Longrightarrow> nt_selected t = []"
    using tracker_observe_cases [of t addr w] by (auto split: if_splits)
  have "match_wait (nextWait t addr) w \<le> match_wait (progress (waits_of addr h)) w"
    using nom_observe.IH by (simp add: match_wait_mono progress_le)
  moreover have "progress (waits_of addr h) \<le> match_wait (progress (waits_of addr h)) w"
    by (simp add: match_wait_def)
  ultimately show ?case
    using nom_observe.IH e nom_observe(2)
    by (auto simp: nextWait_observe [OF e(2)] intro: order_trans)
next
  case (nom_activate h t order t')
  from tracker_activate_cases [OF nom_run_inv [OF nom_activate(1)] nom_activate(2)] nom_activate(3)
  have "nt_active t'" "nt_pairs t' = nt_pairs t" "nt_selected t' = [] \<Longrightarrow> nt_selected t = []"
    by (auto split: if_splits)
  with nom_activate.IH show ?case by (auto simp: nextWait_def)
qed

lemma progress_full_sequence: "k \<le> 5 \<Longrightarrow> foldl match_wait k nominationWaitSequence = 5"
proof -
  assume "k \<le> 5"
  then consider "k = 0" | "k = 1" | "k = 2" | "k = 3" | "k = 4" | "k = 5" by linarith
  then show ?thesis by cases (simp_all add: match_wait_def nominationWaitSequence_def)
qed

lemma nom_run_observing:
  assumes run: "nom_run h t" and act: "nt_active t" and none: "nt_selected t = []" and addr: "addr \<noteq> []"
  shows "\<exists>t'. nom_run (h @ map (Observed addr) ws) t' \<and> nt_active t' \<and>
      (nt_selected t' = [] \<and> nextWait t' addr = foldl match_wait (nextWait t addr) ws \<or>
       nt_selected t' = addr)"
proof (induction ws rule: rev_induct)
  case Nil
  then show ?case using run act none by auto
next
  case (snoc w ws)
  then obtain u where u: "nom_run (h @ map (Observed addr) ws) u" "nt_active u"
    "nt_selected u = [] \<and> nextWait u addr = foldl match_wait (nextWait t addr) ws \<or> nt_selected u = addr"
    by blast
  from tracker_observe_cases [OF nom_run_inv [OF u(1)] addr, of w] obtain u' sel where
    o: "tracker_observe u addr w = Inr (u', sel)" "nt_active u' = nt_active u"
    "nt_pairs u' = (nt_pairs u)(addr \<mapsto> (if nt_selected u = [] then match_wait (nextWait u addr) w
                                         else nextWait u addr))"
    "nt_selected u' = (if nt_selected u = [] \<and> nt_active u \<and> nextWait u addr < 5 \<and>
                          match_wait (nextWait u addr) w = 5 then addr else nt_selected u)"
    by blast
  from nom_observe [OF u(1) addr o(1)]
  have "nom_run (h @ map (Observed addr) (ws @ [w])) u'" by simp
  moreover have "nt_active u'" using o u by simp
  moreover have "nt_selected u' = [] \<and> nextWait u' addr = foldl match_wait (nextWait t addr) (ws @ [w]) \<or>
      nt_selected u' = addr"
    using u(3) o(4) addr by (auto simp: nextWait_observe [OF o(3)])
  ultimately show ?case by blast
qed

lemma nom_run_selects:
  assumes run: "nom_run h t" and act: "nt_active t" and none: "nt_selected t = []" and addr: "addr \<noteq> []"
  shows "\<exists>t'. nom_run (h @ map (Observed addr) nominationWaitSequence) t' \<and> nt_selected t' = addr \<and>
    (\<forall>b w u sel. b \<noteq> [] \<longrightarrow> tracker_observe t' b w = Inr (u, sel) \<longrightarrow> nt_selected u = addr \<and> \<not> sel)"
proof -
  from nom_run_observing [OF run act none addr, of nominationWaitSequence] obtain t' where
    t': "nom_run (h @ map (Observed addr) nominationWaitSequence) t'" "nt_active t'"
    "nt_selected t' = [] \<and> nextWait t' addr = foldl match_wait (nextWait t addr) nominationWaitSequence \<or>
     nt_selected t' = addr"
    by blast
  note inv = nom_run_inv [OF run] and inv' = nom_run_inv [OF t'(1)]
  have "nextWait t addr \<le> 5" using inv by (simp add: tracker_inv_def)
  with t'(2,3) inv' have sel: "nt_selected t' = addr"
    by (auto simp: progress_full_sequence tracker_inv_def completed_nextWait)
  have "nt_selected u = addr \<and> \<not> s" if "b \<noteq> []" "tracker_observe t' b w = Inr (u, s)" for b w u s
    using tracker_observe_cases [OF inv' that(1), of w] that(2) sel addr by auto
  with t'(1) sel show ?thesis by blast
qed

lemma ex_active_run: "nom_run [Activated] (newNominationTracker\<lparr>nt_active := True\<rparr>)"
proof -
  have "nom_run ([] @ [Activated]) (newNominationTracker\<lparr>nt_active := True\<rparr>)"
    by (rule nom_activate [OF nom_new, where order = "[]"])
      (simp_all add: tracker_activate_def newNominationTracker_def)
  then show ?thesis by simp
qed

section \<open>Properties of the tracker\<close>

text \<open>
  C10. No interleaving of requests and activations, and no map order, makes the tracker panic:
  the channel is closed at most once.
\<close>

theorem nomination_no_panic:
  assumes "nom_run h t" and "addr \<noteq> []" and "set order = dom (nt_pairs t)"
  shows "(\<exists>t' sel. tracker_observe t addr w = Inr (t', sel)) \<and> (\<exists>t'. tracker_activate order t = Inr t')"
  using tracker_observe_cases [OF nom_run_inv [OF assms(1)] assms(2)]
    tracker_activate_cases [OF nom_run_inv [OF assms(1)] assms(3)]
  by blast

lemma ex_nom_run:
  "nom_run [Observed ''a:1'' 2000] (newNominationTracker\<lparr>nt_pairs := [''a:1'' \<mapsto> 1]\<rparr>)"
proof -
  have "nom_run ([] @ [Observed ''a:1'' 2000]) (newNominationTracker\<lparr>nt_pairs := [''a:1'' \<mapsto> 1]\<rparr>)"
    by (rule nom_observe [OF nom_new, where sel = False])
      (simp_all add: tracker_observe_def newNominationTracker_def nextWait_def nominationWaitSequence_def)
  then show ?thesis by simp
qed

theorem nomination_no_panic_witness:
  "\<exists>t. nom_run [Observed ''a:1'' 2000] t \<and>
       (\<exists>t' sel. tracker_observe t ''a:1'' 1000 = Inr (t', sel)) \<and> (\<exists>t'. tracker_activate [''a:1''] t = Inr t')"
  using nomination_no_panic [OF ex_nom_run, of "''a:1''" "[''a:1'']" 1000] ex_nom_run
  by (auto simp: newNominationTracker_def)

text \<open>
  C2. The tracker implements its specification: it has an endpoint exactly when it was
  activated and some tuple sent the wait sequence (whether before or after the activation),
  and until then its counters are the greedy match of each tuple's own requests.
\<close>

theorem nomination_refines_spec:
  assumes "nom_run h t"
  shows "(nt_selected t \<noteq> [] \<longleftrightarrow> Activated \<in> set h \<and> (\<exists>a. a \<noteq> [] \<and> progress (waits_of a h) = 5)) \<and>
    (nt_selected t = [] \<longrightarrow> (\<forall>a. a \<noteq> [] \<longrightarrow> nextWait t a = progress (waits_of a h)))"
proof -
  note p = nom_run_progress [OF assms] and inv = nom_run_inv [OF assms]
  have "progress (waits_of a h) = 5" if "completed t a" for a
    using that p progress_le [of "waits_of a h"] by (metis completed_nextWait le_antisym)
  with p inv show ?thesis
    by (auto simp: tracker_inv_def completed_nextWait)
qed

theorem nomination_refines_spec_witness:
  "\<exists>t. nom_run [Observed ''a:1'' 2000] t \<and> nt_selected t = [] \<and>
       nextWait t ''a:1'' = progress (waits_of ''a:1'' [Observed ''a:1'' 2000])"
  using nomination_refines_spec [OF ex_nom_run] ex_nom_run
  by (auto simp: newNominationTracker_def)

text \<open>
  C1. A selected endpoint is genuine: the master sent it the five waits in order, on that very
  tuple, and the client was activated; the channel that wakes the waiters is closed.
\<close>

theorem nomination_selected_sound:
  assumes "nom_run h t" and "nt_selected t \<noteq> []"
  shows "Activated \<in> set h \<and> subseq nominationWaitSequence (waits_of (nt_selected t) h) \<and> nt_chClosed t"
proof -
  note inv = nom_run_inv [OF assms(1)] and p = nom_run_progress [OF assms(1)]
  from inv assms(2) have "nextWait t (nt_selected t) = 5"
    by (auto simp: tracker_inv_def completed_nextWait)
  with p have "progress (waits_of (nt_selected t) h) = 5"
    using progress_le by (metis le_antisym)
  then have "subseq nominationWaitSequence (waits_of (nt_selected t) h)"
    using progress_subseq [of "waits_of (nt_selected t) h"] by simp
  with inv p assms(2) show ?thesis by (auto simp: tracker_inv_def)
qed

theorem nomination_selected_sound_witness:
  "\<exists>h t. nom_run h t \<and> nt_selected t = ''a:1'' \<and> Activated \<in> set h \<and>
     subseq nominationWaitSequence (waits_of ''a:1'' h) \<and> nt_chClosed t"
proof -
  obtain h t where "nom_run h t" "nt_selected t = ''a:1''"
    using nom_run_selects [OF ex_active_run, of "''a:1''"] by (auto simp: newNominationTracker_def)
  then show ?thesis using nomination_selected_sound [of h t] by auto
qed

text \<open>
  C9. Once the client is active and has no endpoint, a tuple that sends the whole sequence is
  selected, whatever part of it the tuple had sent before; and a selection is final.
\<close>

theorem nomination_selects:
  assumes "nom_run h t" and "nt_active t" and "nt_selected t = []" and "addr \<noteq> []"
  shows "\<exists>t'. nom_run (h @ map (Observed addr) nominationWaitSequence) t' \<and> nt_selected t' = addr \<and>
    (\<forall>b w u sel. b \<noteq> [] \<longrightarrow> tracker_observe t' b w = Inr (u, sel) \<longrightarrow> nt_selected u = addr \<and> \<not> sel)"
  by (rule nom_run_selects [OF assms])

theorem nomination_selects_witness:
  "\<exists>t'. nom_run ([Activated] @ map (Observed ''a:1'') nominationWaitSequence) t' \<and> nt_selected t' = ''a:1''"
  using nomination_selects [OF ex_active_run, of "''a:1''"]
  by (auto simp: newNominationTracker_def)

section \<open>The listener\<close>

subsection \<open>Addresses of received datagrams\<close>

text \<open>
  What the sockets report: 4 bytes for IPv4, 16 bytes that are not IPv4-mapped for IPv6 (the
  \<^verbatim>\<open>udp6\<close> socket is IPv6-only), and a port.
\<close>

definition received_addr :: "udp_addr \<Rightarrow> bool" where
  "received_addr a =
     ((length (ua_IP a) = 4 \<and> ua_Zone a = [] \<or>
       length (ua_IP a) = 16 \<and> take 12 (ua_IP a) \<noteq> v4InV6Prefix) \<and>
      0 \<le> ua_Port a \<and> ua_Port a < 65536)"

lemma colon_in_ipv6_str: "CHR '':'' \<in> set (ipv6_str bs)"
  by (auto simp: ipv6_str_def groups_str_def upt_rec [of 0 8] upt_rec [of 1 8] split: option.splits)

lemma unat_of_int_port: "0 \<le> p \<Longrightarrow> p < 65536 \<Longrightarrow> unat (of_int p :: 16 word) = nat p"
  by (simp flip: nat_uint_eq add: unsigned_of_int take_bit_int_eq_self)

text \<open>The text the listener filters on is the text the tracker stores.\<close>

lemma received_addr_String:
  assumes "received_addr a"
  shows "udpAddr_String a = addrPort_String (udpAddr_AddrPort a)"
proof -
  have port: "int_str (ua_Port a) = nat_str (unat (of_int (ua_Port a) :: 16 word))"
    using assms unat_of_int_port [of "ua_Port a"]
    by (auto simp: received_addr_def int_str_def)
  from assms consider "length (ua_IP a) = 4" "ua_Zone a = []"
    | "length (ua_IP a) = 16" "take 12 (ua_IP a) \<noteq> v4InV6Prefix"
    by (auto simp: received_addr_def)
  then show ?thesis
  proof cases
    case 1
    then have "ua_IP a \<noteq> []" "CHR '':'' \<notin> set (ipv4_str (ua_IP a))"
      using ipv4_str_chars [of "CHR '':''" "ua_IP a"] dot_not_digit by auto
    with 1 port show ?thesis
      by (simp add: udpAddr_String_def udpAddr_AddrPort_def addrFromSlice_def ip_String_def is_v4_def
          to4_def zone_str_def joinHostPort_def)
  next
    case 2
    then have "ua_IP a \<noteq> []" by auto
    with 2 port colon_in_ipv6_str [of "ua_IP a"] show ?thesis
      by (simp add: udpAddr_String_def udpAddr_AddrPort_def addrFromSlice_def ip_String_def is_v4_def
          to4_def joinHostPort_def)
  qed
qed

lemma addrPort_String_not_Nil [simp]: "addrPort_String ap \<noteq> []"
  by (cases ap rule: addrPort_String.cases) auto

subsection \<open>One datagram\<close>

text \<open>
  A datagram either leaves the tracker and the socket alone, or is an allowed and
  authenticated Binding Request, in which case at most its own tuple advances.
\<close>

lemma listener_packet_effect:
  assumes inv: "tracker_inv (en_nomination l)"
  shows "\<exists>l'. listener_packet lib l (data, addr) = Inr l' \<and>
    en_stunSecret l' = en_stunSecret l \<and> en_allowed l' = en_allowed l \<and>
    tracker_inv (en_nomination l') \<and>
    dom (nt_pairs (en_nomination l')) \<subseteq>
      dom (nt_pairs (en_nomination l)) \<union>
      (if listener_allows l (udpAddr_String addr) then {addrPort_String (udpAddr_AddrPort addr)} else {}) \<and>
    ((en_nomination l', en_sent l') = (en_nomination l, en_sent l) \<or>
     listener_allows l (udpAddr_String addr) \<and>
     (\<exists>msg. sl_Decode lib data = Some msg \<and> sl_IsBindingRequest lib msg \<and>
        validStunIntegrity lib msg (en_stunSecret l)))"
proof (cases "listener_allows l (udpAddr_String addr) \<and>
    (\<exists>msg. sl_Decode lib data = Some msg \<and> sl_IsBindingRequest lib msg \<and>
       validStunIntegrity lib msg (en_stunSecret l))")
  case False
  then show ?thesis
    using inv by (auto simp: listener_packet_def Let_def parseStunMessage_def respondToStunBindingRequest_def
        respondToStunBindingRequestAddrPort_def split: option.splits)
next
  case True
  then obtain msg where m: "sl_Decode lib data = Some msg" "sl_IsBindingRequest lib msg"
    "validStunIntegrity lib msg (en_stunSecret l)" by blast
  let ?a = "addrPort_String (udpAddr_AddrPort addr)"
  show ?thesis
  proof (cases "stunNominationWait lib msg")
    case None
    with True m inv show ?thesis
      by (auto simp: listener_packet_def Let_def parseStunMessage_def respondToStunBindingRequest_def
          respondToStunBindingRequestAddrPort_def)
  next
    case (Some w)
    from tracker_observe_cases [OF inv, of ?a w] obtain t' sel where
      t': "tracker_observe (en_nomination l) ?a w = Inr (t', sel)"
      and d: "dom (nt_pairs t') = insert ?a (dom (nt_pairs (en_nomination l)))"
      by (auto split: if_splits)
    have "tracker_inv t'" by (rule tracker_observe_inv [OF inv _ t']) simp
    with True m Some t' d show ?thesis
      by (auto simp: listener_packet_def Let_def parseStunMessage_def respondToStunBindingRequest_def
          respondToStunBindingRequestAddrPort_def)
  qed
qed

lemma listener_readLoop_restricted:
  assumes "tracker_inv (en_nomination l)" "en_allowed l = Some A" "dom (nt_pairs (en_nomination l)) \<subseteq> A"
    and "list_all (\<lambda>p. received_addr (snd p)) pkts"
  shows "\<exists>l'. listener_readLoop lib l pkts = Inr l' \<and> tracker_inv (en_nomination l') \<and>
    dom (nt_pairs (en_nomination l')) \<subseteq> A"
  using assms
proof (induction pkts arbitrary: l)
  case (Cons p ps)
  obtain data addr where p: "p = (data, addr)" by (cases p)
  from Cons.prems(4) p have "received_addr addr" by simp
  then have same: "udpAddr_String addr = addrPort_String (udpAddr_AddrPort addr)"
    by (rule received_addr_String)
  from listener_packet_effect [OF Cons.prems(1), of lib data addr] obtain l1 where
    l1: "listener_packet lib l p = Inr l1" "en_allowed l1 = Some A" "tracker_inv (en_nomination l1)"
    "dom (nt_pairs (en_nomination l1)) \<subseteq> A"
    using Cons.prems(2,3) p same by (fastforce simp: listener_allows_def split: if_splits)
  have "list_all (\<lambda>p. received_addr (snd p)) ps" using Cons.prems(4) by simp
  from Cons.IH [OF l1(3) l1(2) l1(4) this] l1(1) Cons.prems(1,3) show ?case by (simp add: readUDPPacket_def)
qed simp

lemma listener_readLoop_unauthenticated:
  assumes "tracker_inv (en_nomination l)"
    and "\<forall>p \<in> set pkts. \<forall>msg. sl_Decode lib (fst p) = Some msg \<longrightarrow>
           \<not> (sl_IsBindingRequest lib msg \<and> validStunIntegrity lib msg (en_stunSecret l))"
  shows "\<exists>l'. listener_readLoop lib l pkts = Inr l' \<and> en_nomination l' = en_nomination l \<and> en_sent l' = en_sent l"
  using assms
proof (induction pkts arbitrary: l)
  case (Cons p ps)
  obtain data addr where p: "p = (data, addr)" by (cases p)
  from listener_packet_effect [OF Cons.prems(1), of lib data addr] Cons.prems(2) p obtain l1 where
    l1: "listener_packet lib l p = Inr l1" "en_stunSecret l1 = en_stunSecret l"
    "en_nomination l1 = en_nomination l" "en_sent l1 = en_sent l"
    by auto
  from Cons.IH [of l1] Cons.prems l1 show ?case by (auto simp: readUDPPacket_def)
qed simp

lemma foldl_appendLog:
  "length logs \<le> 500 \<Longrightarrow>
   foldl appendLog logs ps = drop (length logs + length ps - 500) (logs @ ps)"
proof (induction ps rule: rev_induct)
  case (snoc p ps)
  let ?n = "length logs + length ps"
  from snoc have ih: "foldl appendLog logs ps = drop (?n - 500) (logs @ ps)" by simp
  have "appendLog (drop (?n - 500) (logs @ ps)) p = drop (Suc ?n - 500) ((logs @ ps) @ [p])"
  proof (cases "500 \<le> ?n")
    case True
    then have "Suc ?n - 500 = Suc (?n - 500)" by simp
    then have "tl (drop (?n - 500) (logs @ ps)) = drop (Suc ?n - 500) (logs @ ps)"
      by (simp only: drop_Suc tl_drop)
    with True show ?thesis by (simp add: appendLog_def maxEarlyNominationLogs_def)
  next
    case False
    then show ?thesis by (simp add: appendLog_def maxEarlyNominationLogs_def)
  qed
  with ih show ?case by simp
qed simp

section \<open>The readers\<close>

lemma setUDPReadDeadline_twice [simp]: "setUDPReadDeadline (setUDPReadDeadline s t) t' = setUDPReadDeadline s t'"
  by (simp add: setUDPReadDeadline_def conn_SetReadDeadline_def option.map_comp comp_def)

lemma setUDPReadDeadline_open [simp]:
  "us_V4 (setUDPReadDeadline s t) = None \<longleftrightarrow> us_V4 s = None" "us_V6 (setUDPReadDeadline s t) = None \<longleftrightarrow> us_V6 s = None"
  by (simp_all add: setUDPReadDeadline_def conn_SetReadDeadline_def)

lemma compatible_deadline [simp]: "compatibleCandidates (Some (setUDPReadDeadline s t)) = compatibleCandidates (Some s)"
proof -
  have "compatible (setUDPReadDeadline s t) = compatible s"
    by (intro ext) (simp add: compatible_def cong: option.case_cong)
  then show ?thesis by (intro ext) (simp add: compatibleCandidates_def)
qed

lemma stopper_start_simps [simp]:
  "rs_sockets (stopper_start u c) = rs_sockets u" "rs_stopped (stopper_start u c) = rs_stopped u"
  "rs_done (stopper_start u c) = rs_done u"
  by (simp_all add: stopper_start_def split: option.splits)

lemma new_stopper_simps [simp]:
  "rs_sockets (newUDPReadStopper s) = s" "\<not> rs_stopped (newUDPReadStopper s)" "\<not> rs_done (newUDPReadStopper s)"
  by (simp_all add: newUDPReadStopper_def)

lemma foldl_stopper_start [simp]:
  "rs_sockets (foldl stopper_start u cs) = rs_sockets u" "rs_stopped (foldl stopper_start u cs) = rs_stopped u"
  by (induction cs arbitrary: u) simp_all

lemma stopper_Stop_sockets [simp]:
  "\<not> rs_stopped u \<Longrightarrow> rs_sockets (stopper_Stop now u) = setUDPReadDeadline (rs_sockets u) None"
  by (simp add: stopper_Stop_def Let_def)

section \<open>The fallback probe\<close>

lemma rankByRemote_foldl:
  "foldl (\<lambda>m i. m(udpAddr_String (tg_remote (ts ! i)) \<mapsto> i)) m is k = Some r \<Longrightarrow> r \<in> set is \<or> m k = Some r"
  by (induction "is" arbitrary: m) (fastforce split: if_splits)+

lemma rankByRemote_bound: "rankByRemote targets k = Some r \<Longrightarrow> r < length targets"
  using rankByRemote_foldl [of targets Map.empty "[0..<length targets]" k r]
  by (auto simp: rankByRemote_def)

lemma probe_targets_addr: "t \<in> set (probe_targets s ordered) \<Longrightarrow> tg_addr t \<in> cand_Addr ` set ordered"
  by (induction ordered)
    (auto simp: probe_targets_def List.map_filter_simps new_target_def split: option.splits if_splits)

lemma probe_loop_result:
  assumes "PrTimer \<in> set es" "\<forall>b. best = Some b \<longrightarrow> b < length targets"
  shows "\<exists>a. probe_loop targets ordered best es = Some a \<and>
    (a \<in> tg_addr ` set targets \<or> a = guessCandidate ordered)"
  using assms
proof (induction targets ordered best es rule: probe_loop.induct)
  case (2 targets ordered best r es)
  show ?case
  proof (cases "rankByRemote targets (udpAddr_String r)")
    case None
    with 2 show ?thesis by simp
  next
    case (Some k)
    with rankByRemote_bound have "k < length targets" by blast
    with 2 Some show ?thesis by (auto split: option.splits)
  qed
qed (auto split: option.splits)

lemma target_probes_remote: "map (\<lambda>(_, remote, _). remote) (target_probes lib tx secret ts) = map tg_remote ts"
proof -
  have "map (\<lambda>(_, remote, _). remote) (target_probes lib tx secret ts) = map tg_remote (map snd (List.enumerate 0 ts))"
    unfolding target_probes_def by (simp del: map_snd_enumerate add: case_prod_beta comp_def)
  then show ?thesis by simp
qed

lemma probes_stopped [simp]: "fst (startPeerCandidateProbes lib os sockets cands secret tx (ticks @ [TickDone])) = ProbesStopped"
proof -
  have "fst (peerProbe_step send st TickDone) = ProbesStopped" for send st
    by (cases st; cases "fst st") simp_all
  then show ?thesis by (simp add: startPeerCandidateProbes_def Let_def)
qed

text \<open>The ranks of the targets that answered.\<close>

definition responding_ranks :: "probe_target list \<Rightarrow> udp_addr list \<Rightarrow> nat set" where
  "responding_ranks ts rs = {k. \<exists>r \<in> set rs. rankByRemote ts (udpAddr_String r) = Some k}"

lemma responding_ranks_simps [simp]:
  "responding_ranks ts [] = {}"
  "responding_ranks ts (r # rs) = set_option (rankByRemote ts (udpAddr_String r)) \<union> responding_ranks ts rs"
  by (auto simp: responding_ranks_def)

lemma responding_ranks_bound: "k \<in> responding_ranks ts rs \<Longrightarrow> k < length ts"
  by (auto simp: responding_ranks_def rankByRemote_bound)

lemma finite_responding_ranks [simp]: "finite (responding_ranks ts rs)"
  by (rule finite_subset [of _ "{..<length ts}"]) (auto dest: responding_ranks_bound)

text \<open>
  What ends the loop after the answers \<open>rs\<close>: the first rank among them, the timer, or the grace
  period, which begins with the first answer of a target.
\<close>

definition probe_ends :: "nat set \<Rightarrow> probe_event list \<Rightarrow> bool" where
  "probe_ends R rest =
     (0 \<in> R \<or> (\<exists>es. rest = PrTimer # es) \<or> R \<noteq> {} \<and> (\<exists>es. rest = PrGrace # es))"

text \<open>The loop returns the lowest rank among the earlier best and the answers.\<close>

lemma probe_loop_min:
  assumes "best \<noteq> Some 0" "probe_ends (set_option best \<union> responding_ranks ts rs) rest"
  shows "probe_loop ts ordered best (map PrResponse rs @ rest) =
     Some (let R = set_option best \<union> responding_ranks ts rs
           in if R = {} then guessCandidate ordered else tg_addr (ts ! Min R))"
  using assms
proof (induction rs arbitrary: best)
  case Nil
  then show ?case by (cases best) (auto simp: probe_ends_def)
next
  case (Cons r rs)
  show ?case
  proof (cases "rankByRemote ts (udpAddr_String r)")
    case None
    with Cons show ?thesis by simp
  next
    case (Some k)
    let ?R = "responding_ranks ts rs"
    have zero: "Min (set_option best \<union> insert 0 ?R) = 0" by (rule Min_eqI) auto
    have worse: "Min (insert b (insert k ?R)) = Min (insert b ?R)" if "b \<le> k" for b
      using that by (cases "?R = {}") (simp_all add: min.left_commute min.absorb1 flip: min.assoc)
    have better: "Min (insert b (insert k ?R)) = Min (insert k ?R)" if "k < b" for b
      using that by (cases "?R = {}") (simp_all add: min.absorb2 flip: min.assoc)
    show ?thesis
    proof (cases "k = 0")
      case True
      with Some zero show ?thesis by (simp del: Min_insert)
    next
      case False
      let ?best = "if (case best of None \<Rightarrow> True | Some b \<Rightarrow> k < b) then Some k else best"
      have "probe_ends (set_option ?best \<union> ?R) rest" "?best \<noteq> Some 0"
        using Cons.prems False Some by (auto simp: probe_ends_def split: option.splits)
      from Cons.IH [OF this(2,1)] Some False worse better show ?thesis
        by (cases best) (auto simp: Let_def not_less insert_commute [of k] simp del: Min_insert)
    qed
  qed
qed

section \<open>Properties of the listener and the probe\<close>

text \<open>
  Under \<^verbatim>\<open>--turn\<close> the listener is restricted to the relay candidates: whatever the
  sockets receive, only their tuples enter the tracker, so only a relay can be nominated.
\<close>

theorem listener_restricted:
  assumes "list_all (\<lambda>p. received_addr (snd p)) pkts"
  shows "\<exists>l. listener_readLoop lib
      (restrictToCandidates (newEarlyNominationListener sockets secret newNominationTracker) cs) pkts = Inr l \<and>
    dom (nt_pairs (en_nomination l)) \<subseteq> cand_Addr ` set cs"
  using listener_readLoop_restricted
    [of "restrictToCandidates (newEarlyNominationListener sockets secret newNominationTracker) cs" _ pkts lib] assms
  by (auto simp: restrictToCandidates_def newEarlyNominationListener_def newNominationTracker_def
      tracker_inv_new [unfolded newNominationTracker_def])

definition ex_remote :: udp_addr where
  "ex_remote = \<lparr>ua_IP = [192, 0, 2, 7], ua_Port = 4500, ua_Zone = []\<rparr>"

text \<open>A STUN library whose messages are the datagrams, with a one-byte integrity check.\<close>

definition ex_stun :: "byte list stun_lib" where
  "ex_stun = \<lparr>sl_Decode = (\<lambda>d. if isSTUN d then Some d else None), sl_IsBindingRequest = (\<lambda>d. True),
     sl_TypeString = (\<lambda>d. ''request''), sl_Check = (\<lambda>s d. last d = 7), sl_GetData = (\<lambda>d. None),
     sl_BuildSuccess = (\<lambda>d s. d), sl_XORMappedAddress = (\<lambda>d. None), sl_BuildRequest = (\<lambda>tx s. tx)\<rparr>"

definition ex_datagram :: "byte list" where
  "ex_datagram = [0, 1, 0, 0, 33, 18, 164, 66] @ replicate 12 0"

theorem listener_restricted_witness:
  "\<exists>l. listener_readLoop ex_stun
      (restrictToCandidates (newEarlyNominationListener ex_v4_sockets ''s'' newNominationTracker) [ex_v4])
      [(ex_datagram, ex_remote)] = Inr l \<and>
    dom (nt_pairs (en_nomination l)) \<subseteq> {cand_Addr ex_v4}"
  using listener_restricted [of "[(ex_datagram, ex_remote)]" ex_stun ex_v4_sockets "''s''" "[ex_v4]"]
  by (simp add: received_addr_def ex_remote_def)

text \<open>
  C11. Datagrams that are not Binding Requests with a valid MESSAGE-INTEGRITY for the session
  secret never move the tracker and are never answered, however many arrive.
\<close>

theorem listener_ignores_unauthenticated:
  assumes "nom_run h (en_nomination l)"
    and "\<forall>p \<in> set pkts. \<forall>msg. sl_Decode lib (fst p) = Some msg \<longrightarrow>
           \<not> (sl_IsBindingRequest lib msg \<and> validStunIntegrity lib msg (en_stunSecret l))"
  shows "\<exists>l'. listener_readLoop lib l pkts = Inr l' \<and> en_nomination l' = en_nomination l \<and>
    en_sent l' = en_sent l"
  by (rule listener_readLoop_unauthenticated [OF nom_run_inv [OF assms(1)] assms(2)])

theorem listener_ignores_unauthenticated_witness:
  "\<exists>l'. listener_readLoop ex_stun (newEarlyNominationListener ex_v4_sockets ''s'' newNominationTracker)
      [(ex_datagram, ex_remote)] = Inr l' \<and>
    en_nomination l' = newNominationTracker \<and> en_sent l' = []"
  using listener_ignores_unauthenticated
    [of "[]" "newEarlyNominationListener ex_v4_sockets ''s'' newNominationTracker" "[(ex_datagram, ex_remote)]" ex_stun] nom_new
  by (simp add: newEarlyNominationListener_def ex_stun_def ex_datagram_def validStunIntegrity_def)

text \<open>The packet log is the last 500 packets, in the order they were seen.\<close>

theorem appendLog_bounded:
  "foldl appendLog [] ps = drop (length ps - 500) ps \<and> length (foldl appendLog [] ps) = min 500 (length ps)"
  by (simp add: foldl_appendLog)

text \<open>
  Stopping the readers leaves no reader and no deadline behind, so the next user of the
  sockets can read; stopping twice is stopping once.
\<close>

theorem stopper_Stop_correct:
  "stopper_Stop now' (stopper_Stop now (foldl stopper_start (newUDPReadStopper s) cs)) =
     stopper_Stop now (foldl stopper_start (newUDPReadStopper s) cs) \<and>
   rs_readers (stopper_Stop now (foldl stopper_start (newUDPReadStopper s) cs)) = 0 \<and>
   rs_sockets (stopper_Stop now (foldl stopper_start (newUDPReadStopper s) cs)) = setUDPReadDeadline s None \<and>
   readUDPPacket (stopper_Stop now (foldl stopper_start (newUDPReadStopper s) cs)) pkt = None"
  by (simp add: stopper_Stop_def Let_def readUDPPacket_def)

text \<open>
  C26. The fallback probe returns as soon as the best ranked target has answered, when the grace
  period after the first answer is over, or when its timer fires, whichever comes first: then its
  result is the best ranked target among those that answered, or a guess if none did. If the sockets
  can reach any candidate the result is one of those, otherwise it is empty. It has sent one request
  to every target and leaves no deadline on the sockets it has read.
\<close>

theorem probeCandidates_correct:
  fixes lib tx now s cands secret local rs rest
  defines "ordered \<equiv> compatibleCandidates (Some s) cands local"
  defines "ts \<equiv> probe_targets s ordered"
  defines "R \<equiv> responding_ranks ts rs"
  assumes "probe_ends R rest"
  shows "\<exists>sent s' a. probeCandidates lib tx now (Some s) cands secret local (map PrResponse rs @ rest) = Some (sent, Some s', a) \<and>
     a = (if R = {} then guessCandidate ordered else tg_addr (ts ! Min R)) \<and>
     (if ordered = [] then a = [] else a \<in> cand_Addr ` set ordered) \<and>
     map (\<lambda>(_, remote, _). remote) sent = map tg_remote ts \<and>
     s' = (if ts = [] then s else setUDPReadDeadline s None)"
proof -
  let ?a = "if R = {} then guessCandidate ordered else tg_addr (ts ! Min R)"
  have none: "ts = [] \<Longrightarrow> R = {}" by (auto simp: R_def dest: responding_ranks_bound)
  have empty: "ordered = [] \<Longrightarrow> ts = []" by (simp add: ts_def probe_targets_def List.map_filter_simps)
  have "probe_loop ts ordered None (map PrResponse rs @ rest) = Some ?a"
    using probe_loop_min [of None ts rs rest ordered] assms(4) by (simp add: R_def Let_def)
  with none empty have eq: "probeCandidates lib tx now (Some s) cands secret local (map PrResponse rs @ rest) =
      Some (target_probes lib tx secret ts, Some (if ts = [] then s else setUDPReadDeadline s None), ?a)"
    by (auto simp: probeCandidates_def Let_def target_probes_def ordered_def [symmetric] ts_def [symmetric])
  have "tg_addr (ts ! Min R) \<in> cand_Addr ` set ordered" if "R \<noteq> {}"
    using that Min_in [of R] responding_ranks_bound [of "Min R" ts rs] probe_targets_addr [of _ s ordered]
    by (simp add: R_def ts_def)
  moreover have "if ordered = [] then guessCandidate ordered = [] else guessCandidate ordered \<in> cand_Addr ` set ordered"
    using guessCandidate_in [of ordered] by (auto simp: guessCandidate_def)
  ultimately have "if ordered = [] then ?a = [] else ?a \<in> cand_Addr ` set ordered"
    using none empty by (auto split: if_splits)
  then show ?thesis by (simp add: eq target_probes_remote)
qed

definition ex_turn :: candidate where
  "ex_turn = \<lparr>cand_Type = ''turn'', cand_Addr = ''192.0.2.7:4500''\<rparr>"

definition ex_targets :: "probe_target list" where
  "ex_targets =
     [\<lparr>tg_addr = ''203.0.113.9:45'', tg_remote = \<lparr>ua_IP = [203, 0, 113, 9], ua_Port = 45, ua_Zone = []\<rparr>, tg_network = ''udp4''\<rparr>,
      \<lparr>tg_addr = ''192.0.2.7:4500'', tg_remote = ex_remote, tg_network = ''udp4''\<rparr>]"

lemma ex_ordered: "compatibleCandidates (Some ex_v4_sockets) [ex_turn, ex_v4] [ex_v4] = [ex_v4, ex_turn]"
  by (simp add: compatibleCandidates_def compatible_def localCandidateFamilies_def candidate_score_def
      localCandidateFamilies_step_def rankCandidates_def ex_v4_def ex_turn_def ex_v4_sockets_def addr_eval)

lemma ex_probe_targets: "probe_targets ex_v4_sockets [ex_v4, ex_turn] = ex_targets"
  by (simp add: probe_targets_def List.map_filter_simps new_target_def ex_v4_def ex_turn_def ex_v4_sockets_def addr_eval
      udpAddrFromAddrPort_def ex_remote_def ex_targets_def)

lemma ex_rank: "rankByRemote ex_targets (udpAddr_String ex_remote) = Some 1"
  by (simp add: rankByRemote_def ex_targets_def)

theorem probeCandidates_correct_witness:
  "\<exists>sent s'. probeCandidates ex_stun (\<lambda>_. []) 0 (Some ex_v4_sockets) [ex_turn, ex_v4] ''s'' [ex_v4]
     [PrResponse ex_remote, PrGrace] = Some (sent, Some s', ''192.0.2.7:4500'') \<and> length sent = 2"
proof -
  have r: "responding_ranks ex_targets [ex_remote] = {1}" by (simp add: ex_rank)
  have "probe_ends (responding_ranks ex_targets [ex_remote]) [PrGrace]" unfolding r by (simp add: probe_ends_def)
  with probeCandidates_correct [of ex_v4_sockets "[ex_turn, ex_v4]" "[ex_v4]" "[ex_remote]" "[PrGrace]" ex_stun "\<lambda>_. []" 0 "''s''"]
  have "\<exists>sent s' a. probeCandidates ex_stun (\<lambda>_. []) 0 (Some ex_v4_sockets) [ex_turn, ex_v4] ''s'' [ex_v4]
      [PrResponse ex_remote, PrGrace] = Some (sent, Some s', a) \<and> a = tg_addr (ex_targets ! 1) \<and>
      map (\<lambda>(_, remote, _). remote) sent = map tg_remote ex_targets"
    by (simp only: ex_ordered ex_probe_targets r) auto
  moreover have "tg_addr (ex_targets ! 1) = ''192.0.2.7:4500''" "length ex_targets = 2" by (simp_all add: ex_targets_def)
  ultimately show ?thesis by (metis length_map)
qed

end
