(* ===== verification/Api_Types.thy ===== *)
theory Api_Types
  imports Candidates Go_Json
begin

text \<open>
  The structures the Teleport API exchanges that the rest of the client reads
  (\<^verbatim>\<open>api.go\<close>, \<^verbatim>\<open>nomination.go\<close>).
\<close>

record iceServer =
  ice_URLs :: "string list"
  ice_Username :: string
  ice_Credential :: string

record peerDesc =
  pd_Candidates :: "candidate list"
  pd_IceConfig :: "iceServer list"
  pd_IsMaster :: bool

record serverInfo =
  si_PeerDesc :: peerDesc
  si_WGPubKey :: string
  si_UDPEchoPort :: int
  si_UDPEchoAddr :: string
  si_TunnelMask :: int
  si_TunnelAddr :: string

text \<open>\<^verbatim>\<open>any\<close> fields hold a \<open>json\<close> value, \<open>JNull\<close> for nil.\<close>

record apiResponse =
  ar_TeleportRequestID :: string
  ar_ResponseType :: string
  ar_Token :: string
  ar_Secret :: string
  ar_IceConfiguration :: "iceServer list"
  ar_ServerInfo :: serverInfo
  ar_ClientIP :: string
  ar_DNSAddrs :: "string list"
  ar_ConnectionState :: json
  ar_Metadata :: json
  ar_StatusCode :: int

end
