(* ===== verification/Redaction.thy ===== *)
theory Redaction
  imports Go_Json "HOL-Library.List_Lexorder" "HOL-Library.Char_ord"
begin

text \<open>
  What reaches the logs (\<^verbatim>\<open>logging.go\<close>, and the redaction functions of \<^verbatim>\<open>api.go\<close>): attributes with
  a sensitive key are replaced, errors of a request lose the token, and of the body of an
  error response only a few diagnostic members are logged, with every known secret replaced.

  A value decoded from JSON is a \<open>json\<close> tree in which the members of an object stand in the
  order of the text; a Go map keeps the last of two members with the same key
  (\<open>go_members\<close>). Numbers become floats: the argument \<open>num\<close> gives the text that the float of
  a literal is printed as, and nothing for a literal that is out of range.
\<close>

section \<open>Substrings\<close>

definition strContains :: "string \<Rightarrow> string \<Rightarrow> bool" where
  "strContains s sub = sublist sub s"

section \<open>The logger\<close>

definition redactedLogValue :: string where
  "redactedLogValue = ''[REDACTED]''"

definition sensitiveParts :: "string list" where
  "sensitiveParts = [''secret'', ''token'', ''credential'', ''private_key'', ''authorization'']"

definition sensitiveLogKey :: "string \<Rightarrow> bool" where
  "sensitiveLogKey key =
     (let key = toLower (replaceAll ''-'' ''_'' key)
      in list_ex (strContains key) sensitiveParts)"

text \<open>
  A line of the log: the level, the message and the attributes with their values as text.
  \<^verbatim>\<open>newAppLogger\<close> fixes the level and the function that replaces attributes.
\<close>

datatype log_level = LevelDebug | LevelInfo | LevelWarn | LevelError

type_synonym log_line = "log_level \<times> string \<times> (string \<times> string) list"

record appLogger =
  al_debug :: bool

definition logger_replaceAttr :: "string \<times> string \<Rightarrow> string \<times> string" where
  "logger_replaceAttr attr =
     (if sensitiveLogKey (fst attr) then (fst attr, redactedLogValue) else attr)"

definition logger_log :: "appLogger \<Rightarrow> log_level \<Rightarrow> string \<Rightarrow> (string \<times> string) list \<Rightarrow> log_line list" where
  "logger_log l level message args =
     (if level = LevelDebug \<and> \<not> al_debug l then [] else [(level, message, map logger_replaceAttr args)])"

text \<open>The two functions of \<^verbatim>\<open>newWireGuardLogger\<close>, given the formatted text.\<close>

definition wgLogger_Errorf :: "appLogger \<Rightarrow> string \<Rightarrow> log_line list" where
  "wgLogger_Errorf l formatted = logger_log l LevelError ''WireGuard'' [(''detail'', trimSpace formatted)]"

definition wgLogger_Verbosef :: "appLogger \<Rightarrow> bool \<Rightarrow> string \<Rightarrow> log_line list" where
  "wgLogger_Verbosef l debug formatted =
     (if debug then logger_log l LevelDebug ''WireGuard'' [(''detail'', trimSpace formatted)] else [])"

section \<open>Escaping of a query component\<close>

definition query_plain :: "char \<Rightarrow> bool" where
  "query_plain c = (is_lower c \<or> is_upper c \<or> is_digit c \<or> c \<in> set ''-_.~'')"

definition upper_hex_char :: "nat \<Rightarrow> char" where
  "upper_hex_char d = (if d < 10 then char_of (48 + d) else char_of (55 + d))"

definition queryEscape :: "string \<Rightarrow> string" where
  "queryEscape s =
     concat (map (\<lambda>c. if query_plain c then [c]
                      else if c = CHR '' '' then ''+''
                      else [CHR ''%'', upper_hex_char (of_char c div 16), upper_hex_char (of_char c mod 16)]) s)"

section \<open>Known secrets\<close>

definition redactAPIError :: "string \<Rightarrow> string \<Rightarrow> string" where
  "redactAPIError message token =
     (if token = [] then message
      else replaceAll (queryEscape token) redactedLogValue (replaceAll token redactedLogValue message))"

definition redact_secret :: "string \<Rightarrow> string \<Rightarrow> string" where
  "redact_secret value secret =
     (if secret = [] then value
      else replaceAll (queryEscape secret) redactedLogValue (replaceAll secret redactedLogValue value))"

text \<open>\<^verbatim>\<open>sort.SliceStable\<close> by decreasing length.\<close>

definition redactKnownSecrets :: "string \<Rightarrow> string list \<Rightarrow> string" where
  "redactKnownSecrets value knownSecrets =
     foldl redact_secret value (sort_key (\<lambda>s. - int (length s)) knownSecrets)"

section \<open>Values\<close>

text \<open>The members of a Go map: the last of several members with one key.\<close>

fun go_members :: "(string \<times> json) list \<Rightarrow> (string \<times> json) list" where
  "go_members [] = []"
| "go_members ((k, v) # ms) = (if k \<in> fst ` set ms then go_members ms else (k, v) # go_members ms)"

fun go_value :: "json \<Rightarrow> json" where
  "go_value (JArr vs) = JArr (map go_value vs)"
| "go_value (JObj ms) = JObj (go_members (map (map_prod id go_value) ms))"
| "go_value v = v"

fun json_nums :: "json \<Rightarrow> string list" where
  "json_nums (JNum x) = [x]"
| "json_nums (JArr vs) = concat (map json_nums vs)"
| "json_nums (JObj ms) = concat (map (\<lambda>(k, v). json_nums v) ms)"
| "json_nums v = []"

text \<open>\<^verbatim>\<open>json.Unmarshal\<close> into a variable of type \<^verbatim>\<open>any\<close>.\<close>

definition unmarshal_any :: "(string \<Rightarrow> string option) \<Rightarrow> string \<Rightarrow> json option" where
  "unmarshal_any num s =
     (case json_unmarshal s of
        None \<Rightarrow> None
      | Some v \<Rightarrow> (if list_all (\<lambda>x. num x \<noteq> None) (json_nums v) then Some (go_value v) else None))"

fun redactAPIValue :: "string list \<Rightarrow> json \<Rightarrow> json" where
  "redactAPIValue knownSecrets (JObj ms) =
     JObj (map (\<lambda>(key, child). (key, if sensitiveLogKey key then JStr redactedLogValue
                                     else redactAPIValue knownSecrets child)) ms)"
| "redactAPIValue knownSecrets (JArr vs) = JArr (map (redactAPIValue knownSecrets) vs)"
| "redactAPIValue knownSecrets (JStr s) = JStr (redactKnownSecrets s knownSecrets)"
| "redactAPIValue knownSecrets v = v"

text \<open>\<^verbatim>\<open>walkSensitiveValue\<close> with its visitor: the strings it visits and their flag.\<close>

fun walkSensitiveValue :: "bool \<Rightarrow> json \<Rightarrow> (string \<times> bool) list" where
  "walkSensitiveValue sensitiveParent (JObj ms) =
     concat (map (\<lambda>(key, child). walkSensitiveValue (sensitiveParent \<or> sensitiveLogKey key) child) ms)"
| "walkSensitiveValue sensitiveParent (JArr vs) = concat (map (walkSensitiveValue sensitiveParent) vs)"
| "walkSensitiveValue sensitiveParent (JStr s) = [(s, sensitiveParent)]"
| "walkSensitiveValue sensitiveParent v = []"

text \<open>
  The argument of \<^verbatim>\<open>collectSensitiveStrings\<close>: nil, bytes, or another value with the text that
  \<^verbatim>\<open>json.Marshal\<close> gives for it, if it gives one.
\<close>

datatype sensitive_arg = ArgNil | ArgBytes string | ArgValue "string option"

definition sensitive_decoded :: "(string \<Rightarrow> string option) \<Rightarrow> sensitive_arg \<Rightarrow> json option" where
  "sensitive_decoded num arg =
     (case arg of
        ArgNil \<Rightarrow> None
      | ArgBytes v \<Rightarrow> (if v = [] then None else unmarshal_any num v)
      | ArgValue encoded \<Rightarrow> (case encoded of None \<Rightarrow> None | Some t \<Rightarrow> unmarshal_any num t))"

definition collectSensitiveStrings :: "(string \<Rightarrow> string option) \<Rightarrow> sensitive_arg \<Rightarrow> string list" where
  "collectSensitiveStrings num arg =
     (case sensitive_decoded num arg of
        None \<Rightarrow> []
      | Some decoded \<Rightarrow>
          map fst (filter (\<lambda>(s, sensitive). sensitive \<and> s \<noteq> []) (walkSensitiveValue False decoded)))"

section \<open>Bodies of error responses\<close>

definition diagnosticKeys :: "string list" where
  "diagnosticKeys = [''code'', ''detail'', ''error'', ''message'', ''status'', ''status_code'', ''title'', ''type'']"

text \<open>\<^verbatim>\<open>json.Marshal\<close> of a value: the members of a map sorted by key.\<close>

fun sep_by :: "string \<Rightarrow> string list \<Rightarrow> string" where
  "sep_by sep [] = []"
| "sep_by sep [x] = x"
| "sep_by sep (x # xs) = x @ sep @ sep_by sep xs"

fun json_marshal :: "(string \<Rightarrow> string option) \<Rightarrow> json \<Rightarrow> string" where
  "json_marshal num JNull = ''null''"
| "json_marshal num (JBool b) = (if b then ''true'' else ''false'')"
| "json_marshal num (JNum x) = (case num x of Some t \<Rightarrow> t | None \<Rightarrow> x)"
| "json_marshal num (JStr s) = json_quote s"
| "json_marshal num (JArr vs) = ''['' @ sep_by '','' (map (json_marshal num) vs) @ '']''"
| "json_marshal num (JObj ms) =
     CHR 0x7B # sep_by '','' (map (\<lambda>(k, t). json_member k t) (sort_key fst (map (map_prod id (json_marshal num)) ms))) @ [CHR 0x7D]"

text \<open>The runes of a valid UTF-8 text, which is what \<^verbatim>\<open>json.Marshal\<close> produces.\<close>

function runes :: "string \<Rightarrow> string list" where
  "runes s =
     (if s = [] then []
      else let w = max 1 (utf8_width s) in take w s # runes (drop w s))"
  by pat_completeness auto
termination
  by (relation "measure length") (auto simp: Let_def)

declare runes.simps [simp del]

definition maxDebugAPIErrorRunes :: nat where
  "maxDebugAPIErrorRunes = 4096"

definition ellipsis :: string where
  "ellipsis = encode_rune 8230"

definition diagnostic :: "(string \<times> json) list \<Rightarrow> string list \<Rightarrow> (string \<times> json) list" where
  "diagnostic response knownSecrets =
     List.map_filter
       (\<lambda>key. map_option (\<lambda>value. (key, redactAPIValue knownSecrets value)) (map_of response key))
       diagnosticKeys"

definition debugAPIErrorResponse ::
  "(string \<Rightarrow> string option) \<Rightarrow> appLogger \<Rightarrow> string \<Rightarrow> string \<Rightarrow> string \<Rightarrow> string list \<Rightarrow> log_line list" where
  "debugAPIErrorResponse num logger meth path body knownSecrets =
     (let omitted = (\<lambda>reason. logger_log logger LevelDebug ''API error response body omitted''
            [(''method'', meth), (''path'', path), (''response_bytes'', nat_str (length body)), (''reason'', reason)])
      in case unmarshal_any num body of
           Some (JObj response) \<Rightarrow>
             (let diag = diagnostic response knownSecrets
              in if diag = [] then omitted ''no diagnostic fields''
                 else
                   let rs = runes (json_marshal num (JObj diag));
                       detail = (if length rs > maxDebugAPIErrorRunes
                                 then concat (take maxDebugAPIErrorRunes rs) @ ellipsis else concat rs)
                   in logger_log logger LevelDebug ''API error response''
                        [(''method'', meth), (''path'', path), (''detail'', detail)])
         | Some JNull \<Rightarrow> omitted ''no diagnostic fields''
         | _ \<Rightarrow> omitted ''not a JSON object'')"

section \<open>Replacing a secret: lemmas\<close>

text \<open>
  A text without brackets can not reach across the mark that replaces a secret: it occurs in
  the result only if it occurred before, or inside the mark.
\<close>

definition unbracketed :: "string \<Rightarrow> bool" where
  "unbracketed s = (CHR ''['' \<notin> set s \<and> CHR '']'' \<notin> set s)"

lemma prefix_replaceAll_mark:
  assumes "unbracketed s" "prefix s (replaceAll t redactedLogValue v)"
  shows "prefix s v"
  using assms
proof (induction t redactedLogValue v arbitrary: s rule: replaceAll.induct)
  case (1 t v)
  show ?case
  proof (cases "s = [] \<or> t = [] \<or> v = []")
    case True
    with 1(4) show ?thesis by (auto simp: replaceAll.simps [of t _ v])
  next
    case False
    then obtain c s' where s: "s = c # s'" by (cases s) auto
    have np: "\<not> prefix t v"
      using 1(3,4) False s by (auto simp: replaceAll.simps [of t _ v] redactedLogValue_def unbracketed_def)
    then have "c = hd v" "prefix s' (replaceAll t redactedLogValue (tl v))"
      using 1(4) False s by (auto simp: replaceAll.simps [of t _ v])
    moreover have "unbracketed s'" using 1(3) s by (simp add: unbracketed_def)
    ultimately have "prefix s' (tl v)" using 1(2) False np by blast
    with \<open>c = hd v\<close> False s show ?thesis by (cases v) auto
  qed
qed

lemma sublist_past:
  assumes "c \<notin> set s"
  shows "sublist s (u @ c # w) \<longleftrightarrow> sublist s u \<or> sublist s w"
proof
  assume "sublist s (u @ c # w)"
  then obtain ps ss where e: "u @ c # w = ps @ s @ ss" by (auto simp: sublist_def)
  show "sublist s u \<or> sublist s w"
  proof (cases "length (ps @ s) \<le> length u")
    case True
    with e have "prefix (ps @ s) u" by (metis append.assoc prefix_def prefix_length_prefix)
    then show ?thesis by (auto simp: prefix_def sublist_def)
  next
    case False
    have "\<not> length u < length (ps @ s) \<or> length u < length ps"
    proof (rule ccontr)
      assume "\<not> ?thesis"
      then have "(ps @ s @ ss) ! length u \<in> set s" by (auto simp: nth_append less_diff_conv2)
      moreover have "(ps @ s @ ss) ! length u = c" using e by (metis nth_append_length)
      ultimately show False using assms by simp
    qed
    with False have "Suc (length u) \<le> length ps" by simp
    then have "w = drop (Suc (length u)) ps @ s @ ss"
      using e by (metis (no_types) append_eq_conv_conj append_Cons append_Nil append_assoc drop_append
          diff_is_0_eq' drop0 length_Cons length_append_singleton)
    then show ?thesis by (auto simp: sublist_def)
  qed
next
  show "sublist s u \<or> sublist s w \<Longrightarrow> sublist s (u @ c # w)"
    by (meson sublist_append sublist_Cons_right)
qed

lemma sublist_mark:
  assumes "unbracketed s"
  shows "sublist s (redactedLogValue @ w) \<longleftrightarrow> sublist s ''REDACTED'' \<or> sublist s w"
proof -
  have e: "redactedLogValue @ w = [] @ CHR ''['' # ''REDACTED'' @ CHR '']'' # w"
    by (simp add: redactedLogValue_def)
  show ?thesis
    unfolding e using assms sublist_past [of "CHR ''[''" s "[]" "''REDACTED'' @ CHR '']'' # w"]
      sublist_past [of "CHR '']''" s "''REDACTED''" w]
    by (auto simp: unbracketed_def)
qed

lemma sublist_replaceAll:
  assumes "unbracketed s" "s \<noteq> []" "\<not> sublist s ''REDACTED''" "sublist s (replaceAll t redactedLogValue v)"
  shows "sublist s v"
  using assms(4)
proof (induction t redactedLogValue v rule: replaceAll.induct)
  case (1 t v)
  consider "t = [] \<or> v = []" | "t \<noteq> []" "v \<noteq> []" "prefix t v" | "t \<noteq> []" "v \<noteq> []" "\<not> prefix t v"
    by blast
  then show ?case
  proof cases
    case 1
    with \<open>sublist s (replaceAll t redactedLogValue v)\<close> show ?thesis by (simp add: replaceAll.simps [of t _ v])
  next
    case 2
    with \<open>sublist s (replaceAll t redactedLogValue v)\<close>
    have "sublist s (replaceAll t redactedLogValue (drop (length t) v))"
      using assms by (simp add: replaceAll.simps [of t _ v] sublist_mark)
    with 1(1) 2 have "sublist s (drop (length t) v)" by blast
    then show ?thesis by (meson sublist_drop sublist_order.order_trans)
  next
    case 3
    then have r: "replaceAll t redactedLogValue v = hd v # replaceAll t redactedLogValue (tl v)"
      by (simp add: replaceAll.simps [of t _ v])
    show ?thesis
    proof (cases "prefix s (replaceAll t redactedLogValue v)")
      case True
      then show ?thesis using prefix_replaceAll_mark [OF assms(1)] by blast
    next
      case False
      with \<open>sublist s (replaceAll t redactedLogValue v)\<close> r
      have "sublist s (replaceAll t redactedLogValue (tl v))" by (simp add: sublist_Cons_right)
      with 1(2) 3 have "sublist s (tl v)" by blast
      then show ?thesis by (meson sublist_tl sublist_order.order_trans)
    qed
  qed
qed

lemma sublist_replaceAll_self:
  assumes "unbracketed s" "s \<noteq> []" "\<not> sublist s ''REDACTED''"
  shows "\<not> sublist s (replaceAll s redactedLogValue v)"
proof (induction v rule: length_induct)
  case (1 v)
  consider "v = []" | "v \<noteq> []" "prefix s v" | "v \<noteq> []" "\<not> prefix s v" by blast
  then show ?case
  proof cases
    case 1
    with assms(2) show ?thesis by (simp add: replaceAll.simps)
  next
    case 2
    then have "length (drop (length s) v) < length v" using assms(2) by simp
    with 1 have "\<not> sublist s (replaceAll s redactedLogValue (drop (length s) v))" by blast
    with 2 assms show ?thesis by (simp add: replaceAll.simps [of s _ v] sublist_mark)
  next
    case 3
    then have "length (tl v) < length v" by (cases v) auto
    with 1 have "\<not> sublist s (replaceAll s redactedLogValue (tl v))" by blast
    moreover have "\<not> prefix s (replaceAll s redactedLogValue v)"
      using prefix_replaceAll_mark [OF assms(1)] 3 by blast
    ultimately show ?thesis
      using 3 assms by (simp add: replaceAll.simps [of s _ v] sublist_Cons_right)
  qed
qed

text \<open>The escaped form of a text has no brackets, and is the text itself unless it shows.\<close>

lemma upper_hex_char_unbracketed: "n < 16 \<Longrightarrow> upper_hex_char n \<notin> {CHR ''['', CHR '']''}"
proof -
  assume n: "n < 16"
  then have "of_char (upper_hex_char n) < (91 :: nat)" by (simp add: upper_hex_char_def)
  then show ?thesis by auto
qed

lemma queryEscape_Cons:
  "queryEscape (c # s) =
     (if query_plain c then [c] else if c = CHR '' '' then ''+''
      else [CHR ''%'', upper_hex_char (of_char c div 16), upper_hex_char (of_char c mod 16)]) @ queryEscape s"
  by (simp add: queryEscape_def)

lemma queryEscape_Nil: "queryEscape s = [] \<longleftrightarrow> s = []"
  by (cases s) (simp_all add: queryEscape_Cons, simp add: queryEscape_def)

lemma queryEscape_unbracketed: "unbracketed (queryEscape s)"
proof (induction s)
  case (Cons c s)
  have "of_char c div 16 < (16 :: nat)" by (rule less_mult_imp_div_less) (use nat_of_char_less_256 in simp)
  then have "unbracketed [CHR ''%'', upper_hex_char (of_char c div 16), upper_hex_char (of_char c mod 16)]"
    using upper_hex_char_unbracketed [of "of_char c div 16"] upper_hex_char_unbracketed [of "of_char c mod 16"]
    by (auto simp: unbracketed_def)
  moreover have "\<not> query_plain (CHR ''['')" "\<not> query_plain (CHR '']'')"
    by (simp_all add: query_plain_def is_lower_def is_upper_def is_digit_def char_in_def)
  then have "unbracketed [c]" if "query_plain c" using that by (auto simp: unbracketed_def)
  ultimately show ?case using Cons by (simp add: queryEscape_Cons unbracketed_def)
qed (simp add: queryEscape_def unbracketed_def)

lemma queryEscape_id: "CHR ''%'' \<notin> set (queryEscape s) \<Longrightarrow> CHR ''+'' \<notin> set (queryEscape s) \<Longrightarrow> queryEscape s = s"
  by (induction s) (auto simp: queryEscape_Cons split: if_splits, simp add: queryEscape_def)

lemma set_mono_sublist': "sublist s t \<Longrightarrow> set s \<subseteq> set t"
  by (auto simp: sublist_def)

lemma queryEscape_not_mark:
  assumes "\<not> sublist s ''REDACTED''"
  shows "\<not> sublist (queryEscape s) ''REDACTED''"
proof
  assume a: "sublist (queryEscape s) ''REDACTED''"
  then have "set (queryEscape s) \<subseteq> set ''REDACTED''" by (rule set_mono_sublist')
  then have "queryEscape s = s" by (intro queryEscape_id) auto
  with a assms show False by simp
qed

section \<open>Known secrets never show: lemmas\<close>

text \<open>What a secret must be like for the redaction to remove it.\<close>

definition redactable :: "string \<Rightarrow> bool" where
  "redactable s = (s \<noteq> [] \<and> unbracketed s \<and> \<not> sublist s ''REDACTED'')"

lemma redactable_escape: "redactable s \<Longrightarrow> redactable (queryEscape s)"
  by (simp add: redactable_def queryEscape_Nil queryEscape_unbracketed queryEscape_not_mark)

lemma redactable_kept: "redactable s \<Longrightarrow> \<not> sublist s v \<Longrightarrow> \<not> sublist s (redact_secret v t)"
  using sublist_replaceAll [of s] by (auto simp only: redactable_def redact_secret_def split: if_splits)

lemma redactable_fold: "redactable s \<Longrightarrow> \<not> sublist s v \<Longrightarrow> \<not> sublist s (foldl redact_secret v ts)"
  by (induction ts arbitrary: v) (simp_all add: redactable_kept)

lemma redact_own:
  assumes "redactable s"
  shows "\<not> sublist s (redact_secret v s)" "\<not> sublist (queryEscape s) (redact_secret v s)"
proof -
  have "\<not> sublist s (replaceAll s redactedLogValue v)"
    using assms sublist_replaceAll_self by (simp add: redactable_def)
  then show "\<not> sublist s (redact_secret v s)"
    using assms sublist_replaceAll by (auto simp: redactable_def redact_secret_def)
  show "\<not> sublist (queryEscape s) (redact_secret v s)"
    using redactable_escape [OF assms] sublist_replaceAll_self assms
    by (simp add: redactable_def redact_secret_def)
qed

lemma redact_fold_own:
  assumes "redactable s" "s \<in> set ts"
  shows "\<not> sublist s (foldl redact_secret v ts)" "\<not> sublist (queryEscape s) (foldl redact_secret v ts)"
proof -
  obtain as bs where ts: "ts = as @ s # bs" using assms(2) by (auto simp: in_set_conv_decomp)
  show "\<not> sublist s (foldl redact_secret v ts)" "\<not> sublist (queryEscape s) (foldl redact_secret v ts)"
    using assms(1) by (simp_all add: ts redactable_fold redactable_escape redact_own)
qed

lemma redactKnownSecrets_removes:
  assumes "redactable s" "s \<in> set known"
  shows "\<not> strContains (redactKnownSecrets v known) s \<and> \<not> strContains (redactKnownSecrets v known) (queryEscape s)"
  using assms redact_fold_own [of s "sort_key (\<lambda>s. - int (length s)) known" v]
  by (simp add: strContains_def redactKnownSecrets_def)

text \<open>The mark itself contains no secret.\<close>

lemma mark_clean: "redactable s \<Longrightarrow> \<not> strContains redactedLogValue s"
  using sublist_mark [of s "[]"] by (auto simp: redactable_def strContains_def)

section \<open>Redacted values: lemmas\<close>

text \<open>
  A string leaf of a value, with the keys of the objects it lies in from the outside in.
\<close>

inductive leaf :: "json \<Rightarrow> string list \<Rightarrow> string \<Rightarrow> bool" where
  leaf_str: "leaf (JStr s) [] s"
| leaf_arr: "v \<in> set vs \<Longrightarrow> leaf v p s \<Longrightarrow> leaf (JArr vs) p s"
| leaf_obj: "(k, v) \<in> set ms \<Longrightarrow> leaf v p s \<Longrightarrow> leaf (JObj ms) (k # p) s"

inductive_simps leaf_simps:
  "leaf JNull p s" "leaf (JBool b) p s" "leaf (JNum x) p s" "leaf (JStr t) p s" "leaf (JArr vs) p s" "leaf (JObj ms) p s"

lemma walk_leaf:
  "(s, b) \<in> set (walkSensitiveValue sp v) \<longleftrightarrow> (\<exists>p. leaf v p s \<and> b = (sp \<or> list_ex sensitiveLogKey p))"
proof (induction sp v arbitrary: s b rule: walkSensitiveValue.induct)
  case (1 sp ms)
  have "(s, b) \<in> set (walkSensitiveValue sp (JObj ms)) \<longleftrightarrow>
    (\<exists>m \<in> set ms. (s, b) \<in> set (walkSensitiveValue (sp \<or> sensitiveLogKey (fst m)) (snd m)))"
    by (simp add: case_prod_beta)
  also have "\<dots> \<longleftrightarrow>
    (\<exists>m \<in> set ms. \<exists>p. leaf (snd m) p s \<and> b = ((sp \<or> sensitiveLogKey (fst m)) \<or> list_ex sensitiveLogKey p))"
    by (rule bex_cong [OF refl], rule 1) simp_all
  also have "\<dots> \<longleftrightarrow> (\<exists>k v p. (k, v) \<in> set ms \<and> leaf v p s \<and> b = (sp \<or> list_ex sensitiveLogKey (k # p)))"
    by (simp add: Bex_def)
  also have "\<dots> \<longleftrightarrow> (\<exists>p. leaf (JObj ms) p s \<and> b = (sp \<or> list_ex sensitiveLogKey p))"
    unfolding leaf_simps by blast
  finally show ?case .
next
  case (2 sp vs)
  then show ?case by (auto simp: leaf_simps)
qed (auto simp: leaf_simps)

text \<open>The leaves of a redacted value: the mark below a sensitive key, a redacted text elsewhere.\<close>

lemma redacted_leaf:
  "leaf (redactAPIValue known v) p s \<Longrightarrow>
   (if list_ex sensitiveLogKey p then s = redactedLogValue
    else \<exists>t. leaf v p t \<and> s = redactKnownSecrets t known)"
proof (induction known v arbitrary: p s rule: redactAPIValue.induct)
  case (1 known ms)
  from 1(2) obtain k q v where p: "p = k # q" "(k, v) \<in> set ms"
    "leaf (if sensitiveLogKey k then JStr redactedLogValue else redactAPIValue known v) q s"
    by (auto simp: leaf_simps)
  show ?case
  proof (cases "sensitiveLogKey k")
    case True
    with p show ?thesis by (simp add: leaf_simps)
  next
    case False
    with p have "leaf (redactAPIValue known v) q s" by simp
    from 1(1) [OF p(2) refl False this] False p show ?thesis by (fastforce simp: leaf_simps split: if_splits)
  qed
next
  case (2 known vs)
  then show ?case by (fastforce simp: leaf_simps split: if_splits)
qed (auto simp: leaf_simps)

text \<open>A key of an object in a value, with the keys of the objects that this object lies in.\<close>

inductive key_at :: "json \<Rightarrow> string list \<Rightarrow> string \<Rightarrow> bool" where
  key_here: "(k, v) \<in> set ms \<Longrightarrow> key_at (JObj ms) [] k"
| key_arr: "v \<in> set vs \<Longrightarrow> key_at v p k \<Longrightarrow> key_at (JArr vs) p k"
| key_obj: "(j, v) \<in> set ms \<Longrightarrow> key_at v p k \<Longrightarrow> key_at (JObj ms) (j # p) k"

inductive_simps key_at_simps:
  "key_at JNull p k" "key_at (JBool b) p k" "key_at (JNum x) p k" "key_at (JStr t) p k" "key_at (JArr vs) p k" "key_at (JObj ms) p k"

lemma redacted_keys: "key_at (redactAPIValue known v) p k \<longleftrightarrow> key_at v p k \<and> \<not> list_ex sensitiveLogKey p"
proof (induction known v arbitrary: p k rule: redactAPIValue.induct)
  case (1 known ms)
  show ?case
  proof (cases p)
    case Nil
    then show ?thesis by (force simp: key_at_simps)
  next
    case (Cons j q)
    have "key_at (redactAPIValue known (JObj ms)) p k \<longleftrightarrow>
        (\<exists>m \<in> set ms. fst m = j \<and> key_at (if sensitiveLogKey j then JStr redactedLogValue else redactAPIValue known (snd m)) q k)"
      using Cons by (force simp: key_at_simps)
    also have "\<dots> \<longleftrightarrow> (\<exists>m \<in> set ms. fst m = j \<and> key_at (snd m) q k \<and> \<not> sensitiveLogKey j \<and> \<not> list_ex sensitiveLogKey q)"
      by (rule bex_cong [OF refl]) (auto simp: key_at_simps 1)
    also have "\<dots> \<longleftrightarrow> key_at (JObj ms) p k \<and> \<not> list_ex sensitiveLogKey p"
      using Cons by (force simp: key_at_simps)
    finally show ?thesis .
  qed
next
  case (2 known vs)
  then show ?case by (auto simp: key_at_simps)
qed (simp_all add: key_at_simps)

lemma redacted_nums: "set (json_nums (redactAPIValue known v)) \<subseteq> set (json_nums v)"
proof (induction known v rule: redactAPIValue.induct)
  case (1 known ms)
  then show ?case by (fastforce split: if_splits)
qed auto

section \<open>Properties of the redaction\<close>

text \<open>
  C5. Of an error response only the members with a diagnostic key are logged. No string value that
  is logged of them shows a known secret, neither as it is nor escaped for a query, and every string
  value below a sensitive key is the mark; this holds for every secret that is not empty, has no
  brackets and is not a part of the word in the mark. The keys of objects and the numbers are the
  server's own: exactly the keys that the member has outside of sensitive keys are logged as they
  are, and no number that the member does not have.
\<close>

theorem diagnostic_no_leak:
  assumes "(key, value) \<in> set (diagnostic response known)" and "secret \<in> set known" and "redactable secret"
  shows "key \<in> set diagnosticKeys \<and>
    (\<forall>path txt. leaf value path txt \<longrightarrow>
       \<not> strContains txt secret \<and> \<not> strContains txt (queryEscape secret) \<and>
       (list_ex sensitiveLogKey path \<longrightarrow> txt = redactedLogValue)) \<and>
    (\<exists>v. map_of response key = Some v \<and>
       (\<forall>path k. key_at value path k \<longleftrightarrow> key_at v path k \<and> \<not> list_ex sensitiveLogKey path) \<and>
       set (json_nums value) \<subseteq> set (json_nums v))"
proof -
  from assms(1) obtain v where v: "value = redactAPIValue known v" "key \<in> set diagnosticKeys" "map_of response key = Some v"
    by (auto simp: diagnostic_def List.map_filter_def split: option.splits)
  have mark: "\<not> strContains redactedLogValue secret" "\<not> strContains redactedLogValue (queryEscape secret)"
    using assms(3) by (simp_all add: mark_clean redactable_escape)
  have "\<not> strContains str secret \<and> \<not> strContains str (queryEscape secret) \<and>
      (list_ex sensitiveLogKey path \<longrightarrow> str = redactedLogValue)" if "leaf value path str" for path str
    using redacted_leaf [OF that [unfolded v(1)]] mark redactKnownSecrets_removes [OF assms(3,2)]
    by (auto split: if_splits)
  with v redacted_keys redacted_nums show ?thesis by blast
qed

lemma redactable_tok: "redactable ''tok-1''"
  by (simp add: redactable_def unbracketed_def sublist_code)

lemma sensitive_token: "sensitiveLogKey ''token''" "\<not> sensitiveLogKey ''note''"
  by (simp_all add: sensitiveLogKey_def sensitiveParts_def strContains_def sublist_code toLower_ascii replaceAll.simps
      to_lower_char_def is_upper_def char_in_def)

theorem diagnostic_no_leak_witness:
  "\<not> strContains (redactKnownSecrets ''bad tok-1'' [''tok-1'']) ''tok-1'' \<and>
   \<not> strContains (redactKnownSecrets ''bad tok-1'' [''tok-1'']) (queryEscape ''tok-1'')"
proof -
  let ?m = "(''error'', redactAPIValue [''tok-1''] (JStr ''bad tok-1''))"
  have "?m \<in> set (diagnostic [(''error'', JStr ''bad tok-1'')] [''tok-1''])"
    by (simp add: diagnostic_def diagnosticKeys_def List.map_filter_def)
  from diagnostic_no_leak [OF this, of "''tok-1''"]
  show ?thesis by (simp add: redactable_tok leaf_simps)
qed

text \<open>
  C36. The secrets collected from the body of a request, given as bytes or as another value, are
  exactly the non-empty texts that lie below a sensitive key of the body, at any depth.
\<close>

theorem collectSensitiveStrings_correct:
  "set (collectSensitiveStrings num arg) =
     {s. s \<noteq> [] \<and> (\<exists>body v p. (arg = ArgBytes body \<and> body \<noteq> [] \<or> arg = ArgValue (Some body)) \<and>
           unmarshal_any num body = Some v \<and> leaf v p s \<and> list_ex sensitiveLogKey p)}"
proof (cases "sensitive_decoded num arg")
  case None
  then show ?thesis
    by (auto simp: collectSensitiveStrings_def sensitive_decoded_def split: sensitive_arg.splits option.splits if_splits)
next
  case (Some v)
  then obtain body where body: "arg = ArgBytes body \<and> body \<noteq> [] \<or> arg = ArgValue (Some body)" "unmarshal_any num body = Some v"
    by (auto simp: sensitive_decoded_def split: sensitive_arg.splits option.splits if_splits)
  have "set (collectSensitiveStrings num arg) = {s. s \<noteq> [] \<and> (s, True) \<in> set (walkSensitiveValue False v)}"
    using Some by (force simp: collectSensitiveStrings_def)
  then show ?thesis using body by (auto simp: walk_leaf)
qed

lemma replaceAll_char: "replaceAll [c] [d] s = map (\<lambda>x. if x = c then d else x) s"
proof (induction s)
  case (Cons x s)
  then show ?case by (auto simp: replaceAll.simps [of "[c]" "[d]" "x # s"])
qed (simp add: replaceAll.simps)

text \<open>
  C37. A line of the log never shows the value of an attribute with a sensitive key. A key is
  sensitive when it contains one of the five words, in any case and with dashes for
  underscores.
\<close>

theorem logger_redacts:
  assumes "(level, message, attrs) \<in> set (logger_log l lv m args)" and "(a @ word @ b, value) \<in> set attrs"
    and "list_all (\<lambda>c. of_char c < (128 :: nat)) (a @ word @ b)"
    and "toLower (map (\<lambda>c. if c = CHR ''-'' then CHR ''_'' else c) word) \<in> set sensitiveParts"
  shows "value = redactedLogValue"
proof -
  let ?d = "map (\<lambda>c. if c = CHR ''-'' then CHR ''_'' else c)"
  have ascii: "list_all (\<lambda>c. of_char c < (128 :: nat)) (?d w)" if "list_all (\<lambda>c. of_char c < (128 :: nat)) w" for w
    using that by (auto simp: list_all_iff)
  have "toLower (replaceAll ''-'' ''_'' (a @ word @ b)) = toLower (?d a) @ toLower (?d word) @ toLower (?d b)"
    using assms(3) ascii [of a] ascii [of word] ascii [of b] ascii [of "a @ word @ b"]
    by (simp add: replaceAll_char toLower_ascii del: map_map)
  then have "sensitiveLogKey (a @ word @ b)"
    using assms(4) sublist_appendI [of "toLower (?d word)" "toLower (?d a)" "toLower (?d b)"]
    by (auto simp: sensitiveLogKey_def Let_def strContains_def list_ex_iff)
  with assms(1,2) show ?thesis
    by (auto simp: logger_log_def logger_replaceAttr_def split: if_splits)
qed

theorem logger_redacts_witness:
  "logger_log \<lparr>al_debug = False\<rparr> LevelInfo ''x'' [(''my-private-key'', ''abc'')] = [(LevelInfo, ''x'', [(''my-private-key'', redactedLogValue)])]"
proof -
  have "(LevelInfo, ''x'', [logger_replaceAttr (''my-private-key'', ''abc'')])
      \<in> set (logger_log \<lparr>al_debug = False\<rparr> LevelInfo ''x'' [(''my-private-key'', ''abc'')])"
    by (simp add: logger_log_def)
  from logger_redacts [OF this, of "''my-''" "''private-key''" "[]" "snd (logger_replaceAttr (''my-private-key'', ''abc''))"]
  have "snd (logger_replaceAttr (''my-private-key'', ''abc'')) = redactedLogValue"
    by (simp add: logger_replaceAttr_def toLower_ascii sensitiveParts_def to_lower_char_def is_upper_def char_in_def
        prod_eq_iff)
  then show ?thesis by (simp add: logger_log_def logger_replaceAttr_def split: if_splits)
qed

text \<open>
  The message of a failed request never shows the token, neither as it is nor escaped.
\<close>

theorem redactAPIError_no_leak:
  assumes "redactable token"
  shows "\<not> strContains (redactAPIError message token) token \<and>
    \<not> strContains (redactAPIError message token) (queryEscape token)"
  using redact_own [OF assms, of message] assms
  by (simp add: strContains_def redactAPIError_def redact_secret_def redactable_def)

theorem redactAPIError_no_leak_witness:
  "\<not> strContains (redactAPIError ''Get x?token=tok-1: EOF'' ''tok-1'') ''tok-1''"
  using redactAPIError_no_leak [OF redactable_tok] by simp

end
