(* ===== verification/Go_Base64.thy ===== *)
theory Go_Base64
  imports Go_Prelude
begin

text \<open>
  Go's \<^verbatim>\<open>base64.StdEncoding\<close>: encoding with padding, and decoding that skips line breaks,
  demands the padding and ignores the unused bits of the last digit (it is not \<^verbatim>\<open>Strict\<close>).
\<close>

definition b64_alphabet :: string where
  "b64_alphabet = ''ABCDEFGHIJKLMNOPQRSTUVWXYZabcdefghijklmnopqrstuvwxyz0123456789+/''"

definition b64_char :: "nat \<Rightarrow> char" where
  "b64_char n = b64_alphabet ! n"

definition b64_val :: "char \<Rightarrow> nat option" where
  "b64_val c = indexByte c b64_alphabet"

text \<open>The four digits of a group of 24 bits, the highest first.\<close>

definition b64_digit :: "nat \<Rightarrow> nat \<Rightarrow> nat" where
  "b64_digit k n = n div 64 ^ k mod 64"

definition b64_digits :: "nat \<Rightarrow> nat list" where
  "b64_digits n = [b64_digit 3 n, b64_digit 2 n, b64_digit 1 n, b64_digit 0 n]"

fun b64_encode :: "byte list \<Rightarrow> string" where
  "b64_encode [] = []"
| "b64_encode [a] =
     map b64_char (take 2 (b64_digits (unat a * 65536))) @ ''==''"
| "b64_encode [a, b] =
     map b64_char (take 3 (b64_digits (unat a * 65536 + unat b * 256))) @ ''=''"
| "b64_encode (a # b # c # bs) =
     map b64_char (b64_digits (unat a * 65536 + unat b * 256 + unat c)) @ b64_encode bs"

definition group_bytes :: "nat \<Rightarrow> byte list" where
  "group_bytes n = [of_nat (n div 65536 mod 256), of_nat (n div 256 mod 256), of_nat (n mod 256)]"

text \<open>The groups of four characters; the last one may be padded. \<open>None\<close> is a corrupt input.\<close>

fun b64_groups :: "string \<Rightarrow> byte list option" where
  "b64_groups [] = Some []"
| "b64_groups (p # q # r # s # cs) =
     (if cs = [] \<and> s = CHR ''='' then
        (if r = CHR ''='' then
           (case (b64_val p, b64_val q) of
              (Some i, Some j) \<Rightarrow> Some (take 1 (group_bytes (i * 262144 + j * 4096)))
            | _ \<Rightarrow> None)
         else
           (case (b64_val p, b64_val q, b64_val r) of
              (Some i, Some j, Some k) \<Rightarrow> Some (take 2 (group_bytes (i * 262144 + j * 4096 + k * 64)))
            | _ \<Rightarrow> None))
      else
        (case (b64_val p, b64_val q, b64_val r, b64_val s) of
           (Some i, Some j, Some k, Some l) \<Rightarrow>
             map_option (\<lambda>bs. group_bytes (i * 262144 + j * 4096 + k * 64 + l) @ bs) (b64_groups cs)
         | _ \<Rightarrow> None))"
| "b64_groups _ = None"

definition b64_decode :: "string \<Rightarrow> byte list option" where
  "b64_decode s = b64_groups (filter (\<lambda>c. c \<noteq> CHR 0x0A \<and> c \<noteq> CHR 0x0D) s)"

section \<open>Round trip\<close>

lemma indexByte_nth: "distinct xs \<Longrightarrow> n < length xs \<Longrightarrow> indexByte (xs ! n) xs = Some n"
proof (induction xs arbitrary: n)
  case (Cons x xs)
  then show ?case by (cases n) (auto simp: nth_mem)
qed simp

lemma b64_alphabet_facts: "distinct b64_alphabet" "length b64_alphabet = 64"
  by (simp_all add: b64_alphabet_def)

lemma b64_val_char [simp]: "n < 64 \<Longrightarrow> b64_val (b64_char n) = Some n"
  by (simp add: b64_val_def b64_char_def indexByte_nth b64_alphabet_facts)

lemma b64_alphabet_plain: "c \<in> set b64_alphabet \<Longrightarrow> c \<notin> {CHR 0x0A, CHR 0x0D, CHR ''=''}"
  by (auto simp: b64_alphabet_def)

lemma b64_char_plain: "n < 64 \<Longrightarrow> b64_char n \<noteq> CHR 0x0A \<and> b64_char n \<noteq> CHR 0x0D \<and> b64_char n \<noteq> CHR ''=''"
  using b64_alphabet_plain [of "b64_char n"] nth_mem [of n b64_alphabet]
  by (simp add: b64_char_def b64_alphabet_facts)

lemma digit_split: "r < B \<Longrightarrow> (q * B + r) div B = q \<and> (q * B + r) mod B = (r::nat)"
  by simp

text \<open>The digits of a number below \<open>2 ^ 24\<close>, and its three bytes.\<close>

lemma group_digits:
  assumes "n < 16777216"
  shows "b64_digit 3 n * 262144 + b64_digit 2 n * 4096 + b64_digit 1 n * 64 + b64_digit 0 n = n"
proof -
  define p q r where "p = n div 64" "q = p div 64" "r = q div 64"
  have d: "n div 4096 = q" "n div 262144 = r" by (simp_all add: p_q_r_def flip: div_mult2_eq)
  have "r < 64" using assms d(2) by (simp add: div_less_iff_less_mult flip: d(2))
  moreover have "n = p * 64 + n mod 64" "p = q * 64 + p mod 64" "q = r * 64 + q mod 64"
    by (simp_all add: p_q_r_def)
  ultimately have "n div 262144 mod 64 * 262144 + n div 4096 mod 64 * 4096 + n div 64 mod 64 * 64 + n mod 64 = n"
    unfolding d p_q_r_def(1) [symmetric] by (simp only: mod_less)
  moreover have "64 ^ 3 = (262144::nat)" "64 ^ 2 = (4096::nat)" by simp_all
  ultimately show ?thesis by (simp only: b64_digit_def power_one_right power_0 div_by_1)
qed

lemma unat_byte_lt_256: "unat (a :: byte) < 256"
  using unsigned_less [of a, where ?'a = nat] by simp

lemma group_bytes_of:
  "group_bytes (unat (a :: byte) * 65536 + unat (b :: byte) * 256 + unat (c :: byte)) = [a, b, c]"
proof -
  let ?n = "unat a * 65536 + unat b * 256 + unat c" and ?m = "unat a * 256 + unat b"
  have n: "?n = ?m * 256 + unat c" by simp
  have d: "?n div 256 = ?m" "?n mod 256 = unat c"
    unfolding n using digit_split [OF unat_byte_lt_256 [of c], of ?m] by blast+
  have "?n div 65536 = ?n div 256 div 256" by (simp flip: div_mult2_eq)
  also have "\<dots> = unat a" unfolding d using digit_split [OF unat_byte_lt_256 [of b], of "unat a"] by blast
  finally have "?n div 65536 = unat a" .
  moreover have "?m mod 256 = unat b" using digit_split [OF unat_byte_lt_256 [of b], of "unat a"] by blast
  ultimately show ?thesis
    unfolding group_bytes_def d by (simp add: unat_byte_lt_256)
qed

lemma group_lt: "unat (a :: byte) * 65536 + unat (b :: byte) * 256 + unat (c :: byte) < 16777216"
  using unat_byte_lt_256 [of a] unat_byte_lt_256 [of b] unat_byte_lt_256 [of c] by linarith

text \<open>The low digits of a group with no third, or no second and third byte.\<close>

lemma low_digits:
  "b64_digit 0 (unat (a :: byte) * 65536 + unat (b :: byte) * 256) = 0"
  "b64_digit 1 (unat (a :: byte) * 65536) = 0" "b64_digit 0 (unat (a :: byte) * 65536) = 0"
  by (simp_all add: b64_digit_def mod_eq_0_iff_dvd dvd_add mult.commute [of "unat _"] dvd_div_iff_mult)

lemma b64_digit_lt [simp]: "b64_digit k n < 64"
  by (simp add: b64_digit_def)

lemma group_digits_of:
  "b64_digit 3 (unat (a :: byte) * 65536) * 262144 + b64_digit 2 (unat a * 65536) * 4096 = unat a * 65536"
  "b64_digit 3 (unat a * 65536 + unat (b :: byte) * 256) * 262144 +
   b64_digit 2 (unat a * 65536 + unat b * 256) * 4096 +
   b64_digit 1 (unat a * 65536 + unat b * 256) * 64 = unat a * 65536 + unat b * 256"
  using group_digits [OF group_lt [of a 0 0]] group_digits [OF group_lt [of a b 0]] low_digits(1) [of a b] low_digits(2,3) [of a]
  by (simp_all del: One_nat_def)

lemma b64_decode_encode: "b64_decode (b64_encode bs) = Some bs"
proof (induction bs rule: b64_encode.induct)
  case 1
  then show ?case by (simp add: b64_decode_def)
next
  case (2 a)
  then show ?case
    using group_bytes_of [of a 0 0]
    by (simp add: b64_decode_def b64_digits_def b64_char_plain group_digits_of del: One_nat_def) simp
next
  case (3 a b)
  then show ?case
    using group_bytes_of [of a b 0]
    by (simp add: b64_decode_def b64_digits_def b64_char_plain group_digits_of del: One_nat_def)
next
  case (4 a b c bs)
  then show ?case
    using group_digits [OF group_lt [of a b c]] group_bytes_of [of a b c]
    by (simp add: b64_decode_def b64_digits_def b64_char_plain del: One_nat_def)
qed

text \<open>The codec as an interface: what a writer and a reader of keys share.\<close>

locale text_codec =
  fixes encode :: "'a \<Rightarrow> string" and decode :: "string \<Rightarrow> 'a option"
  assumes decode_encode: "decode (encode x) = Some x"
begin

lemma encode_inj: "encode x = encode y \<Longrightarrow> x = y"
  by (metis decode_encode option.inject)

end

interpretation b64: text_codec b64_encode b64_decode
  by unfold_locales (rule b64_decode_encode)

end
