(* ===== verification/Api.thy ===== *)
theory Api
  imports Api_Types Redaction Go_Base64 "HOL-Library.Monad_Syntax"
begin

text \<open>
  The client of the Teleport API (\<^verbatim>\<open>api.go\<close>): tokens and identifiers, the invite, requests and
  their errors, and polling for the answer to a request.

  The HTTP transport is an argument: the world \<open>api_world\<close> holds the outcome of the \<open>n\<close>th
  request and says whether the context is still open at the \<open>n\<close>th look; it records what was
  sent and logged. scrypt and SHA-512 are the argument \<open>kdf\<close>, and the result of \<^verbatim>\<open>url.Parse\<close> is
  the record \<open>url\<close>.
\<close>

section \<open>Tokens and identifiers\<close>

definition b64url_char :: "char \<Rightarrow> char" where
  "b64url_char c = (if c = CHR ''+'' then CHR ''-'' else if c = CHR ''/'' then CHR ''_'' else c)"

text \<open>\<open>kdf secret\<close> is the SHA-512 sum of the scrypt key, \<open>None\<close> when scrypt reports an error.\<close>

definition secretToToken :: "(string \<Rightarrow> byte list option) \<Rightarrow> string \<Rightarrow> string option" where
  "secretToToken kdf secret =
     map_option (\<lambda>h. trimRight_set ''='' (map b64url_char (b64_encode h))) (kdf secret)"

text \<open>The random bytes are an argument, here and below.\<close>

definition uuid_format :: "byte list \<Rightarrow> string" where
  "uuid_format b =
     hex_encode (take 4 b) @ ''-'' @ hex_encode (take 2 (drop 4 b)) @ ''-'' @ hex_encode (take 2 (drop 6 b)) @
     ''-'' @ hex_encode (take 2 (drop 8 b)) @ ''-'' @ hex_encode (take 6 (drop 10 b))"

definition randomUUID :: "byte list \<Rightarrow> string" where
  "randomUUID rnd =
     (let b = rnd[6 := or (and (rnd ! 6) 0x0f) 0x40];
          b = b[8 := or (and (b ! 8) 0x3f) 0x80]
      in uuid_format b)"

definition randomB64 :: "byte list \<Rightarrow> string" where
  "randomB64 rnd = b64_encode rnd"

section \<open>The invite\<close>

record url =
  u_Scheme :: string
  u_Hostname :: string
  u_Port :: string
  u_EscapedPath :: string
  u_RawQuery :: string
  u_Fragment :: string
  u_QueryGet :: "string \<Rightarrow> string" \<comment> \<open>\<^verbatim>\<open>u.Query().Get\<close>\<close>

datatype invite_error = InviteHost | InvitePath | InviteUUID

definition uuid_hyphens :: "nat set" where
  "uuid_hyphens = {8, 13, 18, 23}"

definition is_uuid_text :: "string \<Rightarrow> bool" where
  "is_uuid_text value =
     (length value = 36 \<and> value ! 8 = CHR ''-'' \<and> value ! 13 = CHR ''-'' \<and> value ! 18 = CHR ''-'' \<and> value ! 23 = CHR ''-'' \<and>
      list_all (\<lambda>i. i \<in> uuid_hyphens \<or> is_hex_digit (value ! i)) [0..<36])"

definition invite_uuid :: "string \<Rightarrow> invite_error + string" where
  "invite_uuid value = (if is_uuid_text value then Inr (toLower value) else Inl InviteUUID)"

definition normalizeInviteSecret :: "(string \<Rightarrow> url option) \<Rightarrow> string \<Rightarrow> invite_error + string" where
  "normalizeInviteSecret urlParse value =
     (let value = trimSpace value
      in if prefix ''https://'' value \<or> prefix ''http://'' value then
           (case urlParse value of
              None \<Rightarrow> Inl InviteHost
            | Some u \<Rightarrow>
                (if \<not> equalFold (u_Hostname u) ''teleport.ui.link'' then Inl InviteHost
                 else
                   let value = trim_set ''/'' (u_EscapedPath u)
                   in if strContains value ''/'' \<or> u_RawQuery u \<noteq> [] \<or> u_Fragment u \<noteq> [] then Inl InvitePath
                      else invite_uuid value))
         else invite_uuid value)"

section \<open>Decoding a response\<close>

text \<open>
  Decoding stores members one after the other: a decoder gets the value a field has so far.
  \<^verbatim>\<open>null\<close> leaves a string, a number, a boolean or a structure alone and clears a slice.
\<close>

type_synonym 'a decoder = "'a \<Rightarrow> json \<Rightarrow> 'a option"

fun dec_string :: "string decoder" where
  "dec_string cur (JStr s) = Some s"
| "dec_string cur JNull = Some cur"
| "dec_string cur _ = None"

fun dec_int :: "int decoder" where
  "dec_int cur (JNum x) = atoi x"
| "dec_int cur JNull = Some cur"
| "dec_int cur _ = None"

fun dec_bool :: "bool decoder" where
  "dec_bool cur (JBool b) = Some b"
| "dec_bool cur JNull = Some cur"
| "dec_bool cur _ = None"

fun dec_list :: "'a decoder \<Rightarrow> 'a \<Rightarrow> 'a list decoder" where
  "dec_list dec z cur (JArr vs) = those (map (dec z) vs)"
| "dec_list dec z cur JNull = Some []"
| "dec_list dec z cur _ = None"

definition dec_any :: "(string \<Rightarrow> string option) \<Rightarrow> json decoder" where
  "dec_any num cur v = (if list_all (\<lambda>x. num x \<noteq> None) (json_nums v) then Some (go_value v) else None)"

definition dec_field :: "'a decoder \<Rightarrow> string \<Rightarrow> (string \<times> json) list \<Rightarrow> 'a decoder" where
  "dec_field dec name ms cur _ =
     foldl (\<lambda>acc (k, v). if equalFold k name then Option.bind acc (\<lambda>x. dec x v) else acc) (Some cur) ms"

fun dec_struct :: "((string \<times> json) list \<Rightarrow> 'a \<Rightarrow> 'a option) \<Rightarrow> 'a decoder" where
  "dec_struct store cur (JObj ms) = store ms cur"
| "dec_struct store cur JNull = Some cur"
| "dec_struct store cur _ = None"

abbreviation dec_member :: "(string \<times> json) list \<Rightarrow> string \<Rightarrow> 'a decoder \<Rightarrow> 'a \<Rightarrow> 'a option" where
  "dec_member ms name dec cur \<equiv> dec_field dec name ms cur JNull"

definition dec_candidate :: "candidate decoder" where
  "dec_candidate = dec_struct (\<lambda>ms c. do {
     t \<leftarrow> dec_member ms ''type'' dec_string (cand_Type c);
     a \<leftarrow> dec_member ms ''addr'' dec_string (cand_Addr c);
     Some \<lparr>cand_Type = t, cand_Addr = a\<rparr> })"

definition zero_candidate :: candidate where
  "zero_candidate = \<lparr>cand_Type = [], cand_Addr = []\<rparr>"

definition dec_iceServer :: "iceServer decoder" where
  "dec_iceServer = dec_struct (\<lambda>ms c. do {
     u \<leftarrow> dec_member ms ''urls'' (dec_list dec_string []) (ice_URLs c);
     n \<leftarrow> dec_member ms ''username'' dec_string (ice_Username c);
     p \<leftarrow> dec_member ms ''credential'' dec_string (ice_Credential c);
     Some \<lparr>ice_URLs = u, ice_Username = n, ice_Credential = p\<rparr> })"

definition zero_iceServer :: iceServer where
  "zero_iceServer = \<lparr>ice_URLs = [], ice_Username = [], ice_Credential = []\<rparr>"

definition dec_peerDesc :: "peerDesc decoder" where
  "dec_peerDesc = dec_struct (\<lambda>ms c. do {
     cs \<leftarrow> dec_member ms ''candidates'' (dec_list dec_candidate zero_candidate) (pd_Candidates c);
     ic \<leftarrow> dec_member ms ''ice_config'' (dec_list dec_iceServer zero_iceServer) (pd_IceConfig c);
     im \<leftarrow> dec_member ms ''is_master'' dec_bool (pd_IsMaster c);
     Some \<lparr>pd_Candidates = cs, pd_IceConfig = ic, pd_IsMaster = im\<rparr> })"

definition dec_serverInfo :: "serverInfo decoder" where
  "dec_serverInfo = dec_struct (\<lambda>ms c. do {
     pd \<leftarrow> dec_member ms ''peer_desc'' dec_peerDesc (si_PeerDesc c);
     k \<leftarrow> dec_member ms ''wg_pub_key'' dec_string (si_WGPubKey c);
     ep \<leftarrow> dec_member ms ''udp_echo_port'' dec_int (si_UDPEchoPort c);
     ea \<leftarrow> dec_member ms ''udp_echo_addr'' dec_string (si_UDPEchoAddr c);
     tm \<leftarrow> dec_member ms ''tunnel_mask'' dec_int (si_TunnelMask c);
     ta \<leftarrow> dec_member ms ''tunnel_addr'' dec_string (si_TunnelAddr c);
     Some \<lparr>si_PeerDesc = pd, si_WGPubKey = k, si_UDPEchoPort = ep, si_UDPEchoAddr = ea,
           si_TunnelMask = tm, si_TunnelAddr = ta\<rparr> })"

definition zero_apiResponse :: apiResponse where
  "zero_apiResponse =
     \<lparr>ar_TeleportRequestID = [], ar_ResponseType = [], ar_Token = [], ar_Secret = [], ar_IceConfiguration = [],
      ar_ServerInfo = \<lparr>si_PeerDesc = \<lparr>pd_Candidates = [], pd_IceConfig = [], pd_IsMaster = False\<rparr>, si_WGPubKey = [],
        si_UDPEchoPort = 0, si_UDPEchoAddr = [], si_TunnelMask = 0, si_TunnelAddr = []\<rparr>,
      ar_ClientIP = [], ar_DNSAddrs = [], ar_ConnectionState = JNull, ar_Metadata = JNull, ar_StatusCode = 0\<rparr>"

definition dec_apiResponse :: "(string \<Rightarrow> string option) \<Rightarrow> apiResponse decoder" where
  "dec_apiResponse num = dec_struct (\<lambda>ms r. do {
     i \<leftarrow> dec_member ms ''teleportRequestId'' dec_string (ar_TeleportRequestID r);
     t \<leftarrow> dec_member ms ''response_type'' dec_string (ar_ResponseType r);
     tok \<leftarrow> dec_member ms ''token'' dec_string (ar_Token r);
     sec \<leftarrow> dec_member ms ''secret'' dec_string (ar_Secret r);
     ice \<leftarrow> dec_member ms ''ice_configuration'' (dec_list dec_iceServer zero_iceServer) (ar_IceConfiguration r);
     si \<leftarrow> dec_member ms ''server_info'' dec_serverInfo (ar_ServerInfo r);
     ip \<leftarrow> dec_member ms ''client_ip'' dec_string (ar_ClientIP r);
     dns \<leftarrow> dec_member ms ''dns_addrs'' (dec_list dec_string []) (ar_DNSAddrs r);
     cs \<leftarrow> dec_member ms ''connectionStateData'' (dec_any num) (ar_ConnectionState r);
     md \<leftarrow> dec_member ms ''metadata'' (dec_any num) (ar_Metadata r);
     st \<leftarrow> dec_member ms ''status_code'' dec_int (ar_StatusCode r);
     Some \<lparr>ar_TeleportRequestID = i, ar_ResponseType = t, ar_Token = tok, ar_Secret = sec, ar_IceConfiguration = ice,
           ar_ServerInfo = si, ar_ClientIP = ip, ar_DNSAddrs = dns, ar_ConnectionState = cs, ar_Metadata = md,
           ar_StatusCode = st\<rparr> })"

definition unmarshal_apiResponse :: "(string \<Rightarrow> string option) \<Rightarrow> string \<Rightarrow> apiResponse option" where
  "unmarshal_apiResponse num body =
     Option.bind (json_unmarshal body) (dec_apiResponse num zero_apiResponse)"

section \<open>Requests\<close>

record http_request =
  hr_method :: string
  hr_url :: string
  hr_body :: "string option"

text \<open>
  The outcome of a request: it could not be built, it failed (the text of the error, and
  whether the context was done), or it was answered with a status, its text and a body.
\<close>

datatype http_result =
    HttpInvalid string
  | HttpFailed string bool
  | HttpAnswer int string string

text \<open>\<^verbatim>\<open>*apiError\<close> with its status (0 without an answer), its text and whether it wraps a cancelled
  context; every other error is a text.\<close>

datatype api_error =
    ApiError int string bool
  | OtherError string
  | CtxCanceled

record api_world =
  aw_http :: "nat \<Rightarrow> http_result"
  aw_alive :: "nat \<Rightarrow> bool"
  aw_num :: "string \<Rightarrow> string option"
  aw_logger :: appLogger
  aw_calls :: nat \<comment> \<open>requests made so far\<close>
  aw_sent :: "http_request list"
  aw_looks :: nat
  aw_logs :: "log_line list"

definition apiBase :: string where
  "apiBase = ''https://cloudaccess.svc.ui.com/teleport''"

fun isTransientAPIError :: "api_error \<Rightarrow> bool" where
  "isTransientAPIError (ApiError statusCode _ _) = (statusCode = 0 \<or> statusCode \<ge> 500 \<or> statusCode = 429)"
| "isTransientAPIError _ = False"

fun api_error_text :: "api_error \<Rightarrow> string" where
  "api_error_text (ApiError _ msg _) = msg"
| "api_error_text (OtherError msg) = msg"
| "api_error_text CtxCanceled = ''context canceled''"

fun isCanceled :: "api_error \<Rightarrow> bool" where
  "isCanceled (ApiError _ _ c) = c"
| "isCanceled (OtherError _) = False"
| "isCanceled CtxCanceled = True"

definition aw_log :: "log_level \<Rightarrow> string \<Rightarrow> (string \<times> string) list \<Rightarrow> api_world \<Rightarrow> api_world" where
  "aw_log level message args w = w\<lparr>aw_logs := aw_logs w @ logger_log (aw_logger w) level message args\<rparr>"

definition waitForContext :: "api_world \<Rightarrow> api_world \<times> bool" where
  "waitForContext w = (w\<lparr>aw_looks := aw_looks w + 1\<rparr>, aw_alive w (aw_looks w))"

definition bool_str :: "bool \<Rightarrow> string" where
  "bool_str b = (if b then ''true'' else ''false'')"

definition request_url :: "string \<Rightarrow> string \<Rightarrow> string \<Rightarrow> string" where
  "request_url baseURL path token =
     (let reqURL = baseURL @ path
      in if token = [] then reqURL
         else reqURL @ (if strContains reqURL ''?'' then ''&'' else ''?'') @ ''token='' @ queryEscape token)"

text \<open>The result of a request whose outcome is known, and the lines of the log it leaves.\<close>

definition api_result ::
  "(string \<Rightarrow> string option) \<Rightarrow> string \<Rightarrow> string \<Rightarrow> string \<Rightarrow> http_result \<Rightarrow> api_error + apiResponse" where
  "api_result num meth path token outcome =
     (case outcome of
        HttpInvalid msg \<Rightarrow> Inl (OtherError msg)
      | HttpFailed msg True \<Rightarrow> Inl (ApiError 0 (''api '' @ meth @ '' '' @ path @ '' request canceled: context canceled'') True)
      | HttpFailed msg False \<Rightarrow>
          Inl (ApiError 0 (''api '' @ meth @ '' '' @ path @ '' request failed: '' @ redactAPIError msg token) False)
      | HttpAnswer status statusText body \<Rightarrow>
          (if status \<ge> 400
           then Inl (ApiError status (''api '' @ meth @ '' '' @ path @ '': '' @ statusText @ '' (response body omitted)'') False)
           else if status = 202 \<or> body = [] then Inr (zero_apiResponse\<lparr>ar_StatusCode := status\<rparr>)
           else case unmarshal_apiResponse num body of
             None \<Rightarrow> Inl (OtherError ''json'')
           | Some r \<Rightarrow> Inr r))"

definition api_logs ::
  "(string \<Rightarrow> string option) \<Rightarrow> appLogger \<Rightarrow> string \<Rightarrow> string \<Rightarrow> string \<Rightarrow> string option \<Rightarrow> http_result \<Rightarrow> log_line list" where
  "api_logs num logger meth path token body outcome =
     logger_log logger LevelDebug ''API request''
       [(''method'', meth), (''path'', path), (''authenticated'', bool_str (token \<noteq> [])), (''has_body'', bool_str (body \<noteq> None))] @
     (case outcome of
        HttpAnswer status statusText answer \<Rightarrow>
          logger_log logger LevelDebug ''API response'' [(''method'', meth), (''path'', path), (''status'', int_str status)] @
          (if status \<ge> 400
           then debugAPIErrorResponse num logger meth path answer
                  (token # collectSensitiveStrings num (ArgBytes (case body of None \<Rightarrow> [] | Some b \<Rightarrow> b)))
           else if status = 202 \<or> answer = [] then []
           else case unmarshal_apiResponse num answer of
             None \<Rightarrow> []
           | Some r \<Rightarrow> logger_log logger LevelDebug ''API response decoded''
               [(''method'', meth), (''path'', path), (''response_type'', ar_ResponseType r)])
      | _ \<Rightarrow> [])"

text \<open>The duration in the second line is left out: it is the only value read from the clock.\<close>

definition apiRequestContext ::
  "api_world \<Rightarrow> string \<Rightarrow> string \<Rightarrow> string \<Rightarrow> string option \<Rightarrow> api_world \<times> (api_error + apiResponse)" where
  "apiRequestContext w meth path token body =
     (let outcome = aw_http w (aw_calls w);
          req = \<lparr>hr_method = meth, hr_url = request_url apiBase path token, hr_body = body\<rparr>
      in (w\<lparr>aw_calls := aw_calls w + 1,
            aw_sent := aw_sent w @ (case outcome of HttpInvalid _ \<Rightarrow> [] | _ \<Rightarrow> [req]),
            aw_logs := aw_logs w @ api_logs (aw_num w) (aw_logger w) meth path token body outcome\<rparr>,
          api_result (aw_num w) meth path token outcome))"

text \<open>The text of an envelope whose payload is a map.\<close>

definition apiEnvelope :: "string \<Rightarrow> string \<Rightarrow> string" where
  "apiEnvelope token payload =
     CHR 0x7B # json_member ''token'' (json_quote token) @ CHR '','' # json_member ''payload'' payload @ [CHR 0x7D]"

section \<open>Metadata\<close>

record connectionStateData =
  cs_DeviceID :: string
  cs_LastStateChangeTimestamp :: int
  cs_State :: string

record md_location =
  ml_Lat :: string
  ml_Long :: string
  ml_Radius :: int
  ml_Text :: string

record md_owner =
  mo_FirstName :: string
  mo_FullName :: string
  mo_LastName :: string

record metadata =
  md_ConsoleDeviceIconId :: string
  md_ConsoleFingerprintEngineId :: int
  md_ConsoleType :: string
  md_ConsoleUidbIconId :: string
  md_LocalNetworkName :: string
  md_Location :: md_location
  md_Name :: string
  md_Owner :: md_owner
  md_WanIP :: string

record metadataResponse =
  mr_ConnectionStateData :: connectionStateData
  mr_Metadata :: metadata

definition zero_metadataResponse :: metadataResponse where
  "zero_metadataResponse =
     \<lparr>mr_ConnectionStateData = \<lparr>cs_DeviceID = [], cs_LastStateChangeTimestamp = 0, cs_State = []\<rparr>,
      mr_Metadata = \<lparr>md_ConsoleDeviceIconId = [], md_ConsoleFingerprintEngineId = 0, md_ConsoleType = [],
        md_ConsoleUidbIconId = [], md_LocalNetworkName = [],
        md_Location = \<lparr>ml_Lat = [], ml_Long = [], ml_Radius = 0, ml_Text = []\<rparr>, md_Name = [],
        md_Owner = \<lparr>mo_FirstName = [], mo_FullName = [], mo_LastName = []\<rparr>, md_WanIP = []\<rparr>\<rparr>"

definition dec_connectionStateData :: "connectionStateData decoder" where
  "dec_connectionStateData = dec_struct (\<lambda>ms c. do {
     i \<leftarrow> dec_member ms ''deviceId'' dec_string (cs_DeviceID c);
     t \<leftarrow> dec_member ms ''lastStateChangeTimestamp'' dec_int (cs_LastStateChangeTimestamp c);
     s \<leftarrow> dec_member ms ''state'' dec_string (cs_State c);
     Some \<lparr>cs_DeviceID = i, cs_LastStateChangeTimestamp = t, cs_State = s\<rparr> })"

definition dec_location :: "md_location decoder" where
  "dec_location = dec_struct (\<lambda>ms c. do {
     a \<leftarrow> dec_member ms ''lat'' dec_string (ml_Lat c);
     l \<leftarrow> dec_member ms ''long'' dec_string (ml_Long c);
     r \<leftarrow> dec_member ms ''radius'' dec_int (ml_Radius c);
     t \<leftarrow> dec_member ms ''text'' dec_string (ml_Text c);
     Some \<lparr>ml_Lat = a, ml_Long = l, ml_Radius = r, ml_Text = t\<rparr> })"

definition dec_owner :: "md_owner decoder" where
  "dec_owner = dec_struct (\<lambda>ms c. do {
     f \<leftarrow> dec_member ms ''first_name'' dec_string (mo_FirstName c);
     u \<leftarrow> dec_member ms ''full_name'' dec_string (mo_FullName c);
     l \<leftarrow> dec_member ms ''last_name'' dec_string (mo_LastName c);
     Some \<lparr>mo_FirstName = f, mo_FullName = u, mo_LastName = l\<rparr> })"

definition dec_metadata :: "metadata decoder" where
  "dec_metadata = dec_struct (\<lambda>ms c. do {
     i \<leftarrow> dec_member ms ''consoleDeviceIconId'' dec_string (md_ConsoleDeviceIconId c);
     e \<leftarrow> dec_member ms ''consoleFingerprintEngineId'' dec_int (md_ConsoleFingerprintEngineId c);
     t \<leftarrow> dec_member ms ''consoleType'' dec_string (md_ConsoleType c);
     u \<leftarrow> dec_member ms ''consoleUidbIconId'' dec_string (md_ConsoleUidbIconId c);
     n \<leftarrow> dec_member ms ''localNetworkName'' dec_string (md_LocalNetworkName c);
     l \<leftarrow> dec_member ms ''location'' dec_location (md_Location c);
     m \<leftarrow> dec_member ms ''name'' dec_string (md_Name c);
     w \<leftarrow> dec_member ms ''owner'' dec_owner (md_Owner c);
     ip \<leftarrow> dec_member ms ''wanIp'' dec_string (md_WanIP c);
     Some \<lparr>md_ConsoleDeviceIconId = i, md_ConsoleFingerprintEngineId = e, md_ConsoleType = t, md_ConsoleUidbIconId = u,
           md_LocalNetworkName = n, md_Location = l, md_Name = m, md_Owner = w, md_WanIP = ip\<rparr> })"

definition dec_metadataResponse :: "metadataResponse decoder" where
  "dec_metadataResponse = dec_struct (\<lambda>ms c. do {
     s \<leftarrow> dec_member ms ''connectionStateData'' dec_connectionStateData (mr_ConnectionStateData c);
     m \<leftarrow> dec_member ms ''metadata'' dec_metadata (mr_Metadata c);
     Some \<lparr>mr_ConnectionStateData = s, mr_Metadata = m\<rparr> })"

text \<open>The result is the text of an error or the metadata; \<open>readErr\<close> is the error of reading the body.\<close>

definition metadata_result :: "string \<Rightarrow> string option \<Rightarrow> http_result \<Rightarrow> string + metadataResponse" where
  "metadata_result token readErr outcome =
     (case outcome of
        HttpInvalid msg \<Rightarrow> Inl msg
      | HttpFailed msg True \<Rightarrow> Inl ''api GET /metadata request canceled: context canceled''
      | HttpFailed msg False \<Rightarrow> Inl (''api GET /metadata request failed: '' @ redactAPIError msg token)
      | HttpAnswer status statusText body \<Rightarrow>
          (case readErr of
             Some e \<Rightarrow> Inl e
           | None \<Rightarrow>
               (if status \<ge> 400 then Inl (''api GET /metadata: '' @ statusText @ '' (response body omitted)'')
                else case Option.bind (json_unmarshal body) (dec_metadataResponse zero_metadataResponse) of
                  None \<Rightarrow> Inl ''json''
                | Some r \<Rightarrow> Inr r)))"

definition metadata_logs :: "(string \<Rightarrow> string option) \<Rightarrow> appLogger \<Rightarrow> string \<Rightarrow> string option \<Rightarrow> http_result \<Rightarrow> log_line list" where
  "metadata_logs num logger token readErr outcome =
     logger_log logger LevelDebug ''API request'' [(''method'', ''GET''), (''path'', ''/metadata'')] @
     (case outcome of
        HttpAnswer status statusText answer \<Rightarrow>
          logger_log logger LevelDebug ''API response''
            [(''method'', ''GET''), (''path'', ''/metadata''), (''status'', int_str status)] @
          (if readErr = None \<and> status \<ge> 400
           then debugAPIErrorResponse num logger ''GET'' ''/metadata'' answer [token] else [])
      | _ \<Rightarrow> [])"

definition fetchMetadataContext :: "api_world \<Rightarrow> string \<Rightarrow> string option \<Rightarrow> api_world \<times> (string + metadataResponse)" where
  "fetchMetadataContext w token readErr =
     (let outcome = aw_http w (aw_calls w);
          req = \<lparr>hr_method = ''GET'', hr_url = apiBase @ ''/metadata?token='' @ queryEscape token, hr_body = None\<rparr>
      in (w\<lparr>aw_calls := aw_calls w + 1,
            aw_sent := aw_sent w @ (case outcome of HttpInvalid _ \<Rightarrow> [] | _ \<Rightarrow> [req]),
            aw_logs := aw_logs w @ metadata_logs (aw_num w) (aw_logger w) token readErr outcome\<rparr>,
          metadata_result token readErr outcome))"

section \<open>Polling\<close>

definition maxConsecutivePollErrors :: nat where
  "maxConsecutivePollErrors = 5"

fun poll_loop ::
  "string \<Rightarrow> string \<Rightarrow> string \<Rightarrow> nat \<Rightarrow> nat \<Rightarrow> api_world \<Rightarrow> api_world \<times> (api_error + apiResponse option)" where
  "poll_loop token requestID want 0 consecutiveErrors w = (w, Inr None)"
| "poll_loop token requestID want (Suc tries) consecutiveErrors w =
     (case waitForContext w of
        (w1, False) \<Rightarrow> (w1, Inl CtxCanceled)
      | (w1, True) \<Rightarrow>
          (case apiRequestContext w1 ''GET'' (CHR ''/'' # requestID) token None of
             (w2, Inl err) \<Rightarrow>
               (if \<not> isTransientAPIError err then (w2, Inl err)
                else if consecutiveErrors + 1 \<ge> maxConsecutivePollErrors then (w2, Inl err)
                else poll_loop token requestID want tries (consecutiveErrors + 1)
                       (aw_log LevelWarn ''transient poll failure, retrying''
                          [(''request_id'', requestID), (''consecutive_errors'', nat_str (consecutiveErrors + 1)),
                           (''error'', api_error_text err)] w2))
           | (w2, Inr poll) \<Rightarrow>
               (if ar_ResponseType poll = want then (w2, Inr (Some poll))
                else poll_loop token requestID want tries 0 w2)))"

definition pollForResponseWithContext ::
  "api_world \<Rightarrow> string \<Rightarrow> string \<Rightarrow> string \<Rightarrow> nat \<Rightarrow> api_world \<times> (api_error + apiResponse option)" where
  "pollForResponseWithContext w token requestID want maxTries = poll_loop token requestID want maxTries 0 w"

section \<open>Polling: lemmas\<close>

text \<open>The length of the run of errors that ends before the \<open>n\<close>th result, after a run of \<open>e\<close>.\<close>

fun error_run :: "nat \<Rightarrow> (nat \<Rightarrow> 'e + 'a) \<Rightarrow> nat \<Rightarrow> nat" where
  "error_run e rs 0 = e"
| "error_run e rs (Suc n) = error_run (case rs 0 of Inl _ \<Rightarrow> e + 1 | Inr _ \<Rightarrow> 0) (\<lambda>j. rs (Suc j)) n"

text \<open>The \<open>k\<close>th look at the context or the \<open>k\<close>th answer ends the polling.\<close>

definition poll_ends :: "string \<Rightarrow> nat \<Rightarrow> (nat \<Rightarrow> bool) \<Rightarrow> (nat \<Rightarrow> api_error + apiResponse) \<Rightarrow> nat \<Rightarrow> bool" where
  "poll_ends want e alive rs k =
     (\<not> alive k \<or>
      (case rs k of
         Inl err \<Rightarrow> \<not> isTransientAPIError err \<or> error_run e rs (Suc k) \<ge> 5
       | Inr r \<Rightarrow> ar_ResponseType r = want))"

definition poll_spec ::
  "string \<Rightarrow> nat \<Rightarrow> (nat \<Rightarrow> bool) \<Rightarrow> (nat \<Rightarrow> api_error + apiResponse) \<Rightarrow> nat \<Rightarrow> nat \<times> (api_error + apiResponse option)" where
  "poll_spec want e alive rs tries =
     (case find (poll_ends want e alive rs) [0..<tries] of
        None \<Rightarrow> (tries, Inr None)
      | Some k \<Rightarrow>
          (if \<not> alive k then (k, Inl CtxCanceled)
           else (k + 1, case rs k of Inl err \<Rightarrow> Inl err | Inr r \<Rightarrow> Inr (Some r))))"

lemma find_upt_Suc: "find P [0..<Suc n] = (if P 0 then Some 0 else map_option Suc (find (\<lambda>j. P (Suc j)) [0..<n]))"
proof -
  have "find P (map Suc xs) = map_option Suc (find (\<lambda>j. P (Suc j)) xs)" for xs :: "nat list"
    by (induction xs) auto
  then show ?thesis by (simp add: upt_conv_Cons map_Suc_upt [symmetric] del: upt_Suc map_Suc_upt)
qed

lemma poll_spec_Suc:
  "poll_spec want e alive rs (Suc n) =
     (if \<not> alive 0 then (0, Inl CtxCanceled)
      else case rs 0 of
        Inl err \<Rightarrow>
          (if \<not> isTransientAPIError err \<or> 5 \<le> e + 1 then (1, Inl err)
           else map_prod Suc id (poll_spec want (e + 1) (\<lambda>j. alive (Suc j)) (\<lambda>j. rs (Suc j)) n))
      | Inr r \<Rightarrow>
          (if ar_ResponseType r = want then (1, Inr (Some r))
           else map_prod Suc id (poll_spec want 0 (\<lambda>j. alive (Suc j)) (\<lambda>j. rs (Suc j)) n)))"
proof -
  have shift: "poll_ends want e alive rs (Suc j) =
      poll_ends want (case rs 0 of Inl _ \<Rightarrow> e + 1 | Inr _ \<Rightarrow> 0) (\<lambda>j. alive (Suc j)) (\<lambda>j. rs (Suc j)) j" for j
    by (cases "rs (Suc j)") (simp_all add: poll_ends_def)
  show ?thesis
    by (auto simp: poll_spec_def find_upt_Suc shift poll_ends_def [where k = 0] simp del: upt_Suc
        split: sum.splits option.splits)
qed

definition poll_reply :: "api_world \<Rightarrow> string \<Rightarrow> string \<Rightarrow> nat \<Rightarrow> api_error + apiResponse" where
  "poll_reply w token requestID j =
     api_result (aw_num w) ''GET'' (CHR ''/'' # requestID) token (aw_http w (aw_calls w + j))"

definition poll_alive :: "api_world \<Rightarrow> nat \<Rightarrow> bool" where
  "poll_alive w j = aw_alive w (aw_looks w + j)"

lemma poll_alive_Suc:
  "aw_alive w' = aw_alive w \<Longrightarrow> aw_looks w' = aw_looks w + 1 \<Longrightarrow> poll_alive w' = (\<lambda>j. poll_alive w (Suc j))"
  by (simp add: poll_alive_def fun_eq_iff)

lemma poll_reply_Suc:
  "aw_http w' = aw_http w \<Longrightarrow> aw_num w' = aw_num w \<Longrightarrow> aw_calls w' = aw_calls w + 1 \<Longrightarrow>
   poll_reply w' token requestID = (\<lambda>j. poll_reply w token requestID (Suc j))"
  by (rule ext) (simp add: poll_reply_def)

lemma aw_log_same [simp]:
  "aw_alive (aw_log l m a w) = aw_alive w" "aw_looks (aw_log l m a w) = aw_looks w" "aw_http (aw_log l m a w) = aw_http w"
  "aw_num (aw_log l m a w) = aw_num w" "aw_calls (aw_log l m a w) = aw_calls w" "aw_sent (aw_log l m a w) = aw_sent w"
  by (simp_all add: aw_log_def)

lemma apiRequestContext_world:
  assumes "apiRequestContext w meth path token body = (w', r)"
  shows "aw_alive w' = aw_alive w" "aw_looks w' = aw_looks w" "aw_http w' = aw_http w" "aw_num w' = aw_num w"
    "aw_calls w' = aw_calls w + 1" "r = api_result (aw_num w) meth path token (aw_http w (aw_calls w))"
  using assms by (auto simp: apiRequestContext_def Let_def)

lemma poll_loop_spec:
  assumes "poll_loop token requestID want tries e w = (w', r)"
  shows "aw_calls w \<le> aw_calls w' \<and>
    (aw_calls w' - aw_calls w, r) = poll_spec want e (poll_alive w) (poll_reply w token requestID) tries"
  using assms
proof (induction tries arbitrary: e w)
  case 0
  then show ?case by (auto simp: poll_spec_def)
next
  case (Suc tries)
  obtain w1 where w1: "waitForContext w = (w1, poll_alive w 0)"
    and same: "aw_alive w1 = aw_alive w" "aw_looks w1 = aw_looks w + 1" "aw_http w1 = aw_http w" "aw_num w1 = aw_num w"
      "aw_calls w1 = aw_calls w"
    by (simp add: waitForContext_def poll_alive_def)
  obtain w2 x where req: "apiRequestContext w1 ''GET'' (CHR ''/'' # requestID) token None = (w2, x)" by force
  note w2 = apiRequestContext_world [OF req, unfolded same]
  have x: "x = poll_reply w token requestID 0"
    using w2(6) by (simp add: poll_reply_def)
  have sh: "poll_alive v = (\<lambda>j. poll_alive w (Suc j))" "poll_reply v token requestID = (\<lambda>j. poll_reply w token requestID (Suc j))"
    if "aw_alive v = aw_alive w2" "aw_looks v = aw_looks w2" "aw_http v = aw_http w2" "aw_num v = aw_num w2"
      "aw_calls v = aw_calls w2" for v
    using that w2 by (intro poll_alive_Suc poll_reply_Suc; simp)+
  have go: "aw_calls w \<le> aw_calls w' \<and> (aw_calls w' - aw_calls w, r) =
      map_prod Suc id (poll_spec want f (\<lambda>j. poll_alive w (Suc j)) (\<lambda>j. poll_reply w token requestID (Suc j)) tries)"
    if "poll_loop token requestID want tries f v = (w', r)" "aw_alive v = aw_alive w2" "aw_looks v = aw_looks w2"
      "aw_http v = aw_http w2" "aw_num v = aw_num w2" "aw_calls v = aw_calls w2" for v f
  proof -
    have c: "aw_calls v = Suc (aw_calls w)" using that w2 by simp
    from Suc.IH [OF that(1)] have "aw_calls v \<le> aw_calls w'"
      "(aw_calls w' - aw_calls v, r) = poll_spec want f (\<lambda>j. poll_alive w (Suc j)) (\<lambda>j. poll_reply w token requestID (Suc j)) tries"
      by (simp_all add: sh [OF that(2-)])
    then show ?thesis using c by (metis Suc_diff_le Suc_leD diff_Suc_Suc id_apply map_prod_simp)
  qed
  show ?case
  proof (cases "poll_alive w 0")
    case False
    with Suc.prems w1 same show ?thesis by (auto simp: poll_spec_Suc)
  next
    case True
    show ?thesis
    proof (cases x)
      case (Inl err)
      show ?thesis
      proof (cases "\<not> isTransientAPIError err \<or> 5 \<le> e + 1")
        case d: True
        then have "poll_loop token requestID want (Suc tries) e w = (w2, Inl err)"
          using w1 True req Inl by (auto simp: maxConsecutivePollErrors_def)
        with Suc.prems Inl x d True w2(5) show ?thesis by (auto simp: poll_spec_Suc same)
      next
        case d: False
        with Suc.prems w1 True req Inl have "poll_loop token requestID want tries (e + 1)
          (aw_log LevelWarn ''transient poll failure, retrying'' [(''request_id'', requestID),
             (''consecutive_errors'', nat_str (e + 1)), (''error'', api_error_text err)] w2) = (w', r)"
          by (simp add: maxConsecutivePollErrors_def)
        from go [OF this] d True Inl x show ?thesis by (simp add: poll_spec_Suc)
      qed
    next
      case (Inr p)
      show ?thesis
      proof (cases "ar_ResponseType p = want")
        case d: True
        with Suc.prems w1 True req Inr x w2(5) show ?thesis by (auto simp: poll_spec_Suc same)
      next
        case d: False
        with Suc.prems w1 True req Inr have "poll_loop token requestID want tries 0 w2 = (w', r)" by simp
        from go [OF this] d True Inr x show ?thesis by (simp add: poll_spec_Suc)
      qed
    qed
  qed
qed

section \<open>Invites and identifiers: lemmas\<close>

lemma hex_digit_no_space:
  assumes "is_hex_digit c"
  shows "\<not> (\<exists>p \<in> set space_seqs. prefix p (c # s))" "\<not> (\<exists>p \<in> set space_seqs. suffix p (s @ [c]))"
proof -
  have ns: "\<forall>p \<in> set space_seqs. p \<noteq> [] \<and> \<not> is_hex_digit (hd p) \<and> \<not> is_hex_digit (last p)"
    by (simp add: space_seqs_def bytes_str_def is_hex_digit_def is_digit_def char_in_def)
  show "\<not> (\<exists>p \<in> set space_seqs. prefix p (c # s))"
    using ns assms by (metis list.sel(1) prefix_def hd_append2)
  show "\<not> (\<exists>p \<in> set space_seqs. suffix p (s @ [c]))"
    using ns assms by (metis last_appendR last_snoc suffix_def)
qed

lemma trimSpace_hex_ends:
  assumes "s \<noteq> []" "is_hex_digit (hd s)" "is_hex_digit (last s)"
  shows "trimSpace s = s"
proof -
  have "space_len s = 0" "space_suffix_len s = 0"
    using hex_digit_no_space(1) [OF assms(2), of "tl s"] hex_digit_no_space(2) [OF assms(3), of "butlast s"] assms(1)
    by (auto simp: space_len_def space_suffix_len_def find_Some_iff split: option.splits)
  then show ?thesis
    by (simp add: trimSpace_def trimLeftSpace.simps [of s] trimRightSpace.simps [of s])
qed

lemma uuid_nth: "is_uuid_text s \<Longrightarrow> i < 36 \<Longrightarrow> i \<notin> uuid_hyphens \<Longrightarrow> is_hex_digit (s ! i)"
  by (auto simp: is_uuid_text_def list_all_iff)

lemma uuid_ends:
  assumes "is_uuid_text s"
  shows "s \<noteq> []" "is_hex_digit (hd s)" "is_hex_digit (last s)"
proof -
  show "s \<noteq> []" using assms by (auto simp: is_uuid_text_def)
  with uuid_nth [OF assms, of 0] uuid_nth [OF assms, of 35] assms
  show "is_hex_digit (hd s)" "is_hex_digit (last s)"
    by (simp_all add: hd_conv_nth last_conv_nth uuid_hyphens_def is_uuid_text_def)
qed

lemma uuid_not_url:
  assumes "is_uuid_text s"
  shows "\<not> prefix ''https://'' s" "\<not> prefix ''http://'' s"
proof -
  have "\<not> is_hex_digit (CHR ''h'')" by (simp add: is_hex_digit_def is_digit_def char_in_def)
  with uuid_ends(2) [OF assms] show "\<not> prefix ''https://'' s" "\<not> prefix ''http://'' s"
    by (auto simp: prefix_def)
qed

lemma uuid_ascii: assumes "is_uuid_text s" shows "list_all (\<lambda>c. of_char c < (128::nat)) s"
proof -
  have "of_char (s ! i) < (128 :: nat)" if "i < 36" for i
  proof (cases "i \<in> uuid_hyphens")
    case True
    with assms show ?thesis by (auto simp: uuid_hyphens_def is_uuid_text_def)
  next
    case False
    from uuid_nth [OF assms that this] show ?thesis by (auto simp: is_hex_digit_def is_digit_def char_in_def)
  qed
  with assms show ?thesis by (auto simp: list_all_length is_uuid_text_def)
qed

lemma to_lower_hex: "is_hex_digit c \<Longrightarrow> is_hex_digit (to_lower_char c)"
  by (auto simp: is_hex_digit_def is_digit_def char_in_def to_lower_char_def is_upper_def)

lemma to_lower_idem: "to_lower_char (to_lower_char c) = to_lower_char c"
  by (auto simp: to_lower_char_def is_upper_def char_in_def)

lemma to_lower_hyphen: "to_lower_char (CHR ''-'') = CHR ''-''"
  by (simp add: to_lower_char_def is_upper_def char_in_def)

lemma uuid_toLower:
  assumes "is_uuid_text s"
  shows "is_uuid_text (toLower s)" "toLower (toLower s) = toLower s"
proof -
  have l: "toLower s = map to_lower_char s" by (rule toLower_ascii [OF uuid_ascii [OF assms]])
  then show "is_uuid_text (toLower s)"
    using assms by (auto simp: is_uuid_text_def list_all_iff to_lower_hex to_lower_hyphen)
  then have "toLower (toLower s) = map to_lower_char (toLower s)" by (rule toLower_ascii [OF uuid_ascii])
  with l show "toLower (toLower s) = toLower s" by (simp add: to_lower_idem)
qed

lemma normalize_uuid: "is_uuid_text s \<Longrightarrow> normalizeInviteSecret urlParse s = Inr (toLower s)"
  by (simp add: normalizeInviteSecret_def trimSpace_hex_ends uuid_ends uuid_not_url invite_uuid_def)

lemma invite_uuid_ok: "invite_uuid s = Inr u \<Longrightarrow> is_uuid_text u \<and> toLower u = u"
  by (auto simp: invite_uuid_def uuid_toLower split: if_splits)

lemma normalize_ok: "normalizeInviteSecret urlParse v = Inr u \<Longrightarrow> is_uuid_text u \<and> toLower u = u"
  by (auto simp: normalizeInviteSecret_def Let_def invite_uuid_ok split: if_splits option.splits)

text \<open>Identifiers.\<close>

lemma hex_digit_char_hex: "n < 16 \<Longrightarrow> is_hex_digit (hex_digit_char n) \<and> to_lower_char (hex_digit_char n) = hex_digit_char n"
  by (auto simp: hex_digit_char_def is_hex_digit_def is_digit_def char_in_def to_lower_char_def is_upper_def)

lemma byte_nibbles: "unat (b :: byte) div 16 < 16" "unat (b :: byte) mod 16 < 16"
  using unat_byte_lt_256 [of b] by (simp_all add: less_mult_imp_div_less)

lemma upt_36:
  "[0..<36] = [0, 1, 2, 3, 4, 5, 6, 7, 8, 9, 10, 11, 12, 13, 14, 15, 16, 17, 18, 19, 20, 21, 22, 23, 24, 25, 26, 27, 28, 29,
     30, 31, 32, 33, 34, 35]"
  by (simp add: upt_rec)

text \<open>The text of sixteen bytes, five groups of them.\<close>

lemma uuid_format_text:
  fixes b :: "byte list"
  assumes "length b = 16"
  shows "is_uuid_text (uuid_format b)" and "map to_lower_char (uuid_format b) = uuid_format b"
    and "uuid_format b ! 14 = hex_digit_char (unat (b ! 6) div 16)"
    and "uuid_format b ! 19 = hex_digit_char (unat (b ! 8) div 16)"
proof -
  obtain b0 b1 b2 b3 b4 b5 b6 b7 b8 b9 b10 b11 b12 b13 b14 b15
    where b: "b = [b0, b1, b2, b3, b4, b5, b6, b7, b8, b9, b10, b11, b12, b13, b14, b15]"
    using assms by (auto simp: numeral_eq_Suc length_Suc_conv)
  note u = b uuid_format_def hex_encode_def hex_byte_def
  show "is_uuid_text (uuid_format b)"
    by (simp add: u is_uuid_text_def upt_36 uuid_hyphens_def hex_digit_char_hex byte_nibbles)
  show "map to_lower_char (uuid_format b) = uuid_format b"
    by (simp add: u hex_digit_char_hex byte_nibbles to_lower_hyphen)
  show "uuid_format b ! 14 = hex_digit_char (unat (b ! 6) div 16)" "uuid_format b ! 19 = hex_digit_char (unat (b ! 8) div 16)"
    by (simp_all add: u)
qed

lemma high_nibble: "unat (b :: byte) div 16 = unat (drop_bit 4 b)"
  using unat_drop_bit_eq [of 4 b] by (simp add: drop_bit_nat_def)

lemma version_nibble: "unat (or (and x 0x0f) 0x40 :: byte) div 16 = 4"
  by (simp add: high_nibble)

lemma variant_nibble: "unat (or (and x 0x3f) 0x80 :: byte) div 16 \<in> {8, 9, 10, 11}"
proof -
  have "drop_bit 4 (or (and x 0x3f) 0x80 :: byte) = or (and (drop_bit 4 x) 3) 8" by simp
  moreover have "and (drop_bit 4 x) 3 \<in> {0, 1, 2, 3 :: byte}"
  proof -
    have "unat (and (drop_bit 4 x) 3 :: byte) \<le> 3"
      using word_and_le1 [of "drop_bit 4 x" 3] by (simp add: word_le_nat_alt)
    then have "unat (and (drop_bit 4 x) 3 :: byte) \<in> {0, 1, 2, 3}" by auto
    then show ?thesis by (auto simp: unat_eq_0 dest: arg_cong [of _ _ "of_nat :: nat \<Rightarrow> byte"])
  qed
  ultimately show ?thesis by (auto simp: high_nibble)
qed

text \<open>Tokens: what base64 for URLs is made of.\<close>

lemma b64_encode_one_more:
  assumes "length h = 3 * n + 1"
  shows "\<exists>ds. b64_encode h = map b64_char ds @ ''=='' \<and> length ds = 4 * n + 2 \<and> list_all (\<lambda>d. d < 64) ds"
  using assms
proof (induction n arbitrary: h)
  case 0
  then obtain a where "h = [a]" by (auto simp: length_Suc_conv)
  then show ?case by (intro exI [of _ "take 2 (b64_digits (unat a * 65536))"]) (simp add: b64_digits_def)
next
  case (Suc n)
  then have "length h = Suc (Suc (Suc (3 * n + 1)))" by simp
  then obtain a b c bs where h: "h = a # b # c # bs" "length bs = 3 * n + 1"
    by (simp only: length_Suc_conv) blast
  with Suc.IH [OF h(2)] obtain ds where "b64_encode bs = map b64_char ds @ ''==''" "length ds = 4 * n + 2"
    "list_all (\<lambda>d. d < 64) ds" by blast
  with h show ?case
    by (intro exI [of _ "b64_digits (unat a * 65536 + unat b * 256 + unat c) @ ds"]) (simp add: b64_digits_def)
qed

lemma b64url_char_plain:
  assumes "d < 64"
  shows "query_plain (b64url_char (b64_char d))" "b64url_char (b64_char d) \<noteq> CHR ''=''"
proof -
  have "\<forall>c \<in> set b64_alphabet. query_plain (b64url_char c) \<and> b64url_char c \<noteq> CHR ''=''"
    by (simp add: b64_alphabet_def b64url_char_def query_plain_def is_lower_def is_upper_def is_digit_def char_in_def)
  moreover have "b64_char d \<in> set b64_alphabet"
    using assms b64_alphabet_facts(2) by (simp add: b64_char_def)
  ultimately show "query_plain (b64url_char (b64_char d))" "b64url_char (b64_char d) \<noteq> CHR ''=''" by blast+
qed

lemma queryEscape_plain: "list_all query_plain s \<Longrightarrow> queryEscape s = s"
  by (induction s) (simp_all add: queryEscape_Cons, simp add: queryEscape_def)

lemma plain_redactable:
  assumes "list_all query_plain s" "8 < length s"
  shows "redactable s"
proof -
  have "unbracketed s" using queryEscape_unbracketed [of s] queryEscape_plain [OF assms(1)] by simp
  moreover have "\<not> sublist s ''REDACTED''"
    using assms(2) sublist_length_le [of s "''REDACTED''"] by auto
  ultimately show ?thesis using assms(2) by (auto simp: redactable_def)
qed

section \<open>Properties of the API client\<close>

text \<open>
  C6. Polling is decided by the first look at the context or answer that ends it: a closed
  context, an error that is not transient, the fifth transient error in a row, or an answer of
  the wanted type; when there is none, it makes exactly the given number of requests and
  returns without an answer.
\<close>

theorem poll_correct:
  "map_prod (\<lambda>w'. aw_calls w' - aw_calls w) id (pollForResponseWithContext w token requestID want maxTries) =
     poll_spec want 0 (poll_alive w) (poll_reply w token requestID) maxTries"
proof -
  obtain w' r where "poll_loop token requestID want maxTries 0 w = (w', r)" by force
  with poll_loop_spec [OF this] show ?thesis by (simp add: pollForResponseWithContext_def)
qed

text \<open>
  C35. An accepted invite is a lower-case UUID and is accepted again unchanged; a text that is a
  UUID up to white space and case is never refused.
\<close>

theorem normalizeInviteSecret_correct:
  "case normalizeInviteSecret urlParse value of
     Inr u \<Rightarrow> is_uuid_text u \<and> toLower u = u \<and> normalizeInviteSecret urlParse u = Inr u
   | Inl e \<Rightarrow> \<not> is_uuid_text (trimSpace value)"
proof (cases "normalizeInviteSecret urlParse value")
  case (Inr u)
  with normalize_ok [OF Inr] normalize_uuid show ?thesis by simp
next
  case (Inl e)
  have "\<not> is_uuid_text (trimSpace value)"
  proof
    assume u: "is_uuid_text (trimSpace value)"
    with Inl show False
      by (auto simp: normalizeInviteSecret_def Let_def invite_uuid_def uuid_not_url [OF u] split: if_splits)
  qed
  with Inl show ?thesis by simp
qed

text \<open>
  An identifier made from sixteen random bytes is a lower-case UUID of version 4 and of the
  standard variant, and would be accepted as an invite.
\<close>

theorem randomUUID_correct:
  assumes "length rnd = 16"
  shows "is_uuid_text (randomUUID rnd) \<and> normalizeInviteSecret urlParse (randomUUID rnd) = Inr (randomUUID rnd) \<and>
    randomUUID rnd ! 14 = CHR ''4'' \<and> randomUUID rnd ! 19 \<in> set ''89ab''"
proof -
  define b where "b = rnd[6 := or (and (rnd ! 6) 0x0f) 0x40, 8 := or (and (rnd ! 8) 0x3f) 0x80]"
  have b: "length b = 16" "randomUUID rnd = uuid_format b" "unat (b ! 6) div 16 = 4" "unat (b ! 8) div 16 \<in> {8, 9, 10, 11}"
    using assms variant_nibble [of "rnd ! 8"] version_nibble [of "rnd ! 6"] by (simp_all add: b_def randomUUID_def Let_def)
  note u = uuid_format_text [OF b(1)]
  have "toLower (uuid_format b) = uuid_format b"
    using u(2) toLower_ascii [OF uuid_ascii [OF u(1)]] by simp
  then have "normalizeInviteSecret urlParse (uuid_format b) = Inr (uuid_format b)"
    using normalize_uuid [OF u(1)] by simp
  moreover have "hex_digit_char 4 = CHR ''4''" "hex_digit_char 8 = CHR ''8''" "hex_digit_char 9 = CHR ''9''"
    "hex_digit_char 10 = CHR ''a''" "hex_digit_char 11 = CHR ''b''"
    by (simp_all add: hex_digit_char_def char_of_def bit_0)
  ultimately show ?thesis using u b by auto
qed

theorem randomUUID_correct_witness:
  "randomUUID (replicate 16 255) ! 14 = CHR ''4'' \<and> randomUUID (replicate 16 255) ! 19 \<in> set ''89ab''"
  using randomUUID_correct [of "replicate 16 255"] by simp

text \<open>
  A token derived from a secret is 86 characters that need no escaping in a URL, and every
  such token is one that the redaction of logs removes.
\<close>

theorem secretToToken_correct:
  assumes "kdf secret = Some h" and "length h = 64"
  shows "\<exists>token. secretToToken kdf secret = Some token \<and> length token = 86 \<and> queryEscape token = token \<and> redactable token"
proof -
  obtain ds where ds: "b64_encode h = map b64_char ds @ ''==''" "length ds = 86" "list_all (\<lambda>d. d < 64) ds"
    using b64_encode_one_more [of h 21] assms(2) by auto
  define t where "t = map (\<lambda>d. b64url_char (b64_char d)) ds"
  have t: "list_all query_plain t" "length t = 86" "\<forall>c \<in> set t. c \<noteq> CHR ''=''"
    using ds by (auto simp: t_def list_all_iff b64url_char_plain)
  have "map b64url_char (b64_encode h) = t @ ''==''"
    by (simp add: ds(1) t_def b64url_char_def)
  moreover have "dropWhile (\<lambda>c. c \<in> set ''='') (rev (t @ ''=='')) = rev t"
    using t(2,3) by (cases t rule: rev_cases) auto
  ultimately have "secretToToken kdf secret = Some t"
    using assms(1) by (simp add: secretToToken_def trimRight_set_def)
  with t show ?thesis by (intro exI [of _ t]) (simp add: queryEscape_plain plain_redactable)
qed

theorem secretToToken_correct_witness:
  "\<exists>token. secretToToken (\<lambda>s. Some (replicate 64 (of_nat (length s)))) ''abc'' = Some token \<and> length token = 86 \<and> redactable token"
  using secretToToken_correct [of "\<lambda>s. Some (replicate 64 (of_nat (length s)))" "''abc''"] by auto

end
