(* ===== verification/Ice.thy ===== *)
theory Ice
  imports Nomination Api
begin

text \<open>
  The ICE servers of the console and the server-reflexive candidate (\<^verbatim>\<open>stun.go\<close>). The URL parser,
  name resolution and the socket are arguments; what arrives at the socket is a sequence with times,
  and a read fails when the read deadline of the socket comes first.
\<close>

section \<open>ICE servers\<close>

text \<open>\<^verbatim>\<open>strings.Replace\<close> with a limit of one.\<close>

definition replace_first_char :: "char \<Rightarrow> string \<Rightarrow> string \<Rightarrow> string" where
  "replace_first_char c new s =
     (case indexByte c s of None \<Rightarrow> s | Some i \<Rightarrow> take i s @ new @ drop (Suc i) s)"

definition parseConsoleICEURL :: "(string \<Rightarrow> url option) \<Rightarrow> string \<Rightarrow> url option" where
  "parseConsoleICEURL urlParse rawURL = urlParse (replace_first_char (CHR '':'') ''://'' rawURL)"

definition ice_server_addr :: "url \<Rightarrow> string" where
  "ice_server_addr u = joinHostPort (u_Hostname u) (if u_Port u = [] then ''3478'' else u_Port u)"

fun stunServerFromURLs :: "(string \<Rightarrow> url option) \<Rightarrow> string list \<Rightarrow> string option" where
  "stunServerFromURLs urlParse [] = None"
| "stunServerFromURLs urlParse (rawURL # urls) =
     (case parseConsoleICEURL urlParse rawURL of
        None \<Rightarrow> stunServerFromURLs urlParse urls
      | Some u \<Rightarrow>
          (if u_Scheme u \<noteq> ''stun'' \<or> u_Hostname u = [] then stunServerFromURLs urlParse urls
           else Some (ice_server_addr u)))"

fun stunServerFromIce :: "(string \<Rightarrow> url option) \<Rightarrow> iceServer list \<Rightarrow> string option" where
  "stunServerFromIce urlParse [] = None"
| "stunServerFromIce urlParse (s # ice) =
     (case stunServerFromURLs urlParse (ice_URLs s) of
        None \<Rightarrow> stunServerFromIce urlParse ice
      | Some server \<Rightarrow> Some server)"

fun turnServerFromURLs :: "(string \<Rightarrow> url option) \<Rightarrow> string list \<Rightarrow> string option" where
  "turnServerFromURLs urlParse [] = None"
| "turnServerFromURLs urlParse (rawURL # urls) =
     (case parseConsoleICEURL urlParse rawURL of
        None \<Rightarrow> turnServerFromURLs urlParse urls
      | Some u \<Rightarrow>
          (if u_Scheme u \<noteq> ''turn'' \<or> u_Hostname u = [] \<or> u_QueryGet u ''transport'' \<noteq> ''udp''
           then turnServerFromURLs urlParse urls
           else Some (ice_server_addr u)))"

fun turnServerFromIce :: "(string \<Rightarrow> url option) \<Rightarrow> iceServer list \<Rightarrow> string option" where
  "turnServerFromIce urlParse [] = None"
| "turnServerFromIce urlParse (s # ice) =
     (case turnServerFromURLs urlParse (ice_URLs s) of
        None \<Rightarrow> turnServerFromIce urlParse ice
      | Some server \<Rightarrow> Some server)"

section \<open>The reflexive candidate\<close>

fun stunNetwork :: "networkFamily \<Rightarrow> string option" where
  "stunNetwork FamilyIPv4 = Some ''udp4''"
| "stunNetwork FamilyIPv6 = Some ''udp6''"
| "stunNetwork FamilyDual = None"

datatype reflex_error =
    ReflexFamily
  | ReflexNoSocket string
  | ReflexNoServer
  | ReflexNoAAAA string
  | ReflexResolve
  | ReflexDeadline
  | ReflexWrite
  | ReflexRead

text \<open>
  What the discovery meets: name resolution (an error, with whether it is a DNS error for a
  name that does not exist), the socket's answers, the clock and the transaction.
\<close>

record reflex_os =
  ro_resolve :: "string \<Rightarrow> string \<Rightarrow> bool + udp_addr"
  ro_deadlineOk :: bool
  ro_writeOk :: "udp_addr \<Rightarrow> bool"
  ro_now :: instant
  ro_tx :: "byte list"

text \<open>What arrives at the socket, with the time: a datagram, or an error of the read.\<close>

datatype stun_read = StunReadError instant | StunReadPacket instant "byte list" udp_addr

fun read_time :: "stun_read \<Rightarrow> instant" where
  "read_time (StunReadError t) = t"
| "read_time (StunReadPacket t data from) = t"

text \<open>
  The loop of reads, with the time when it ends. A read fails when the deadline of the socket comes
  before the next arrival; \<open>None\<close>: nothing arrives any more and no deadline is set, so that it reads
  for ever. The buffer has 1500 bytes.
\<close>

fun reflex_reads ::
  "'m stun_lib \<Rightarrow> udp_addr \<Rightarrow> instant option \<Rightarrow> stun_read list \<Rightarrow> (instant \<times> (reflex_error + candidate)) option" where
  "reflex_reads lib addr deadline [] = map_option (\<lambda>d. (d, Inl ReflexRead)) deadline"
| "reflex_reads lib addr deadline (r # rs) =
     (if deadline \<noteq> None \<and> the deadline \<le> read_time r then Some (the deadline, Inl ReflexRead)
      else case r of
        StunReadError t \<Rightarrow> Some (t, Inl ReflexRead)
      | StunReadPacket t data from \<Rightarrow>
          (if udpAddr_String from \<noteq> udpAddr_String addr then reflex_reads lib addr deadline rs
           else case parseXorMapped lib (take 1500 data) of
             None \<Rightarrow> reflex_reads lib addr deadline rs
           | Some mapped \<Rightarrow> Some (t, Inr \<lparr>cand_Type = ''reflex'', cand_Addr = mapped\<rparr>)))"

record reflex_run =
  rr_conn :: "udp_conn option" \<comment> \<open>the socket afterwards\<close>
  rr_sent :: "(byte list \<times> udp_addr) list"
  rr_readEnd :: "instant option" \<comment> \<open>when the reads ended, if there were any\<close>
  rr_result :: "reflex_error + candidate"

definition reflexiveCandidateFromConnWithTimeout ::
  "(string \<Rightarrow> url option) \<Rightarrow> 'm stun_lib \<Rightarrow> reflex_os \<Rightarrow> udp_conn option \<Rightarrow> iceServer list \<Rightarrow> networkFamily \<Rightarrow>
   duration \<Rightarrow> stun_read list \<Rightarrow> reflex_run option" where
  "reflexiveCandidateFromConnWithTimeout urlParse lib os conn ice family timeout reads =
     (let fail = (\<lambda>e. Some \<lparr>rr_conn = conn, rr_sent = [], rr_readEnd = None, rr_result = Inl e\<rparr>) in
      case stunNetwork family of
        None \<Rightarrow> fail ReflexFamily
      | Some network \<Rightarrow>
          (if conn = None then fail (ReflexNoSocket network)
           else case stunServerFromIce urlParse ice of
             None \<Rightarrow> fail ReflexNoServer
           | Some stunServer \<Rightarrow>
               (case ro_resolve os network stunServer of
                  Inl notFound \<Rightarrow>
                    fail (if family = FamilyIPv6 \<and> notFound then ReflexNoAAAA stunServer else ReflexResolve)
                | Inr addr \<Rightarrow>
                    (let req = fst (stunBindingProbe lib (ro_tx os) []) in
                     if \<not> ro_deadlineOk os then fail ReflexDeadline
                     else
                       let conn1 = conn_SetReadDeadline (Some (ro_now os + timeout)) conn;
                           conn2 = conn_SetReadDeadline None conn1 \<comment> \<open>deferred\<close>
                       in if \<not> ro_writeOk os addr
                          then Some \<lparr>rr_conn = conn2, rr_sent = [], rr_readEnd = None, rr_result = Inl ReflexWrite\<rparr>
                          else map_option (\<lambda>(t, r). \<lparr>rr_conn = conn2, rr_sent = [(req, addr)], rr_readEnd = Some t, rr_result = r\<rparr>)
                                 (reflex_reads lib addr (Option.bind conn1 uc_readDeadline) reads)))))"

definition reflexiveCandidateFromConn ::
  "(string \<Rightarrow> url option) \<Rightarrow> 'm stun_lib \<Rightarrow> reflex_os \<Rightarrow> udp_conn option \<Rightarrow> iceServer list \<Rightarrow> networkFamily \<Rightarrow>
   stun_read list \<Rightarrow> reflex_run option" where
  "reflexiveCandidateFromConn urlParse lib os conn ice family reads =
     reflexiveCandidateFromConnWithTimeout urlParse lib os conn ice family (5 * second) reads"

section \<open>Lemmas\<close>

text \<open>The first usable URL of all servers, in order.\<close>

definition stun_url :: "(string \<Rightarrow> url option) \<Rightarrow> string \<Rightarrow> string option" where
  "stun_url urlParse raw =
     Option.bind (parseConsoleICEURL urlParse raw)
       (\<lambda>u. if u_Scheme u = ''stun'' \<and> u_Hostname u \<noteq> [] then Some (ice_server_addr u) else None)"

definition turn_url :: "(string \<Rightarrow> url option) \<Rightarrow> string \<Rightarrow> string option" where
  "turn_url urlParse raw =
     Option.bind (parseConsoleICEURL urlParse raw)
       (\<lambda>u. if u_Scheme u = ''turn'' \<and> u_Hostname u \<noteq> [] \<and> u_QueryGet u ''transport'' = ''udp''
            then Some (ice_server_addr u) else None)"

definition first_some :: "'a option list \<Rightarrow> 'a option" where
  "first_some xs = Option.bind (find (\<lambda>x. x \<noteq> None) xs) id"

lemma first_some_simps [simp]:
  "first_some [] = None"
  "first_some (x # xs) = (case x of None \<Rightarrow> first_some xs | Some y \<Rightarrow> Some y)"
  by (auto simp: first_some_def split: option.split)

lemma first_some_append: "first_some (xs @ ys) = (case first_some xs of None \<Rightarrow> first_some ys | Some y \<Rightarrow> Some y)"
  by (induction xs) (auto split: option.split)

lemma stunServerFromURLs_eq: "stunServerFromURLs urlParse urls = first_some (map (stun_url urlParse) urls)"
  by (induction urls) (auto simp: stun_url_def split: option.split)

lemma turnServerFromURLs_eq: "turnServerFromURLs urlParse urls = first_some (map (turn_url urlParse) urls)"
  by (induction urls) (auto simp: turn_url_def split: option.split)

lemma stunServerFromIce_eq:
  "stunServerFromIce urlParse ice = first_some (map (stun_url urlParse) (concat (map ice_URLs ice)))"
  by (induction ice) (auto simp: stunServerFromURLs_eq first_some_append split: option.split)

lemma turnServerFromIce_eq:
  "turnServerFromIce urlParse ice = first_some (map (turn_url urlParse) (concat (map ice_URLs ice)))"
  by (induction ice) (auto simp: turnServerFromURLs_eq first_some_append split: option.split)

text \<open>A packet the discovery accepts: from the server, with a mapped address.\<close>

definition reflex_answer :: "'m stun_lib \<Rightarrow> udp_addr \<Rightarrow> stun_read \<Rightarrow> string option" where
  "reflex_answer lib addr r =
     (case r of
        StunReadError t \<Rightarrow> None
      | StunReadPacket t data from \<Rightarrow>
          (if udpAddr_String from = udpAddr_String addr then parseXorMapped lib (take 1500 data) else None))"

text \<open>What the reads should give: the first that ends them among the arrivals before the deadline.\<close>

definition reflex_spec :: "'m stun_lib \<Rightarrow> udp_addr \<Rightarrow> instant \<Rightarrow> stun_read list \<Rightarrow> reflex_error + candidate" where
  "reflex_spec lib addr d reads =
     (case find (\<lambda>r. reflex_answer lib addr r \<noteq> None \<or> (\<exists>t. r = StunReadError t))
             (takeWhile (\<lambda>r. read_time r < d) reads) of
        Some (StunReadPacket t data from) \<Rightarrow>
          Inr \<lparr>cand_Type = ''reflex'', cand_Addr = the (parseXorMapped lib (take 1500 data))\<rparr>
      | _ \<Rightarrow> Inl ReflexRead)"

lemma reflex_reads_deadline:
  "\<exists>t \<le> d. reflex_reads lib addr (Some d) reads = Some (t, reflex_spec lib addr d reads)"
proof (induction reads)
  case (Cons r rs)
  consider "d \<le> read_time r" | t where "r = StunReadError t" "t < d"
    | t data "from" where "r = StunReadPacket t data from" "t < d"
    by (cases r; cases "d \<le> read_time r") (auto simp: not_le)
  then show ?case
    by cases (use Cons in \<open>auto simp: reflex_spec_def reflex_answer_def split: option.split\<close>)
qed (simp add: reflex_spec_def)

section \<open>Properties of the discovery\<close>

text \<open>
  C38. The discovery of a server-reflexive candidate always returns, whatever arrives and when, even
  if nothing does: its reads end five seconds after they began at the latest. It leaves no read
  deadline on the socket it shares with WireGuard, and sends at most one probe, to the first STUN
  server of the configuration. A candidate it returns is the mapped address of the first packet that
  came in time, from that very server, and has one; packets from elsewhere before it do not disturb
  it.
\<close>

theorem reflexiveCandidate_correct:
  assumes "\<forall>c. conn = Some c \<longrightarrow> uc_readDeadline c = None"
  shows "\<exists>run. reflexiveCandidateFromConn urlParse lib os conn ice family reads = Some run \<and>
    rr_conn run = conn \<and>
    (rr_sent run = [] \<and> rr_readEnd run = None \<and> (\<exists>e. rr_result run = Inl e) \<or>
     (\<exists>network server addr t.
        stunNetwork family = Some network \<and>
        first_some (map (stun_url urlParse) (concat (map ice_URLs ice))) = Some server \<and>
        ro_resolve os network server = Inr addr \<and>
        rr_sent run = [(fst (stunBindingProbe lib (ro_tx os) []), addr)] \<and>
        rr_readEnd run = Some t \<and> t \<le> ro_now os + 5 * second \<and>
        rr_result run = reflex_spec lib addr (ro_now os + 5 * second) reads))"
proof -
  have c: "conn_SetReadDeadline None (conn_SetReadDeadline t conn) = conn" for t
    using assms by (cases conn) (auto simp: conn_SetReadDeadline_def)
  have d: "Option.bind (conn_SetReadDeadline (Some t) conn) uc_readDeadline = Some t" if "conn \<noteq> None" for t
    using that by (auto simp: conn_SetReadDeadline_def)
  have "\<exists>t \<le> ro_now os + 5 * second. reflex_reads lib addr (Some (ro_now os + 5 * second)) reads =
      Some (t, reflex_spec lib addr (ro_now os + 5 * second) reads)" for addr
    by (rule reflex_reads_deadline)
  then show ?thesis
    unfolding reflexiveCandidateFromConn_def reflexiveCandidateFromConnWithTimeout_def Let_def
      stunServerFromIce_eq [symmetric]
    using c d by (fastforce split: option.splits sum.splits)
qed

definition ex_ice_url :: "string \<Rightarrow> url option" where
  "ex_ice_url s =
     (if s = ''stun://stun.example'' then
        Some \<lparr>u_Scheme = ''stun'', u_Hostname = ''stun.example'', u_Port = [], u_EscapedPath = [], u_RawQuery = [],
              u_Fragment = [], u_QueryGet = (\<lambda>_. [])\<rparr>
      else None)"

definition ex_ice :: "iceServer list" where
  "ex_ice = [\<lparr>ice_URLs = [''turns:x'', ''stun:stun.example''], ice_Username = [], ice_Credential = []\<rparr>]"

definition ex_reflex_os :: reflex_os where
  "ex_reflex_os =
     \<lparr>ro_resolve = (\<lambda>_ _. Inr \<lparr>ua_IP = [192, 0, 2, 1], ua_Port = 3478, ua_Zone = []\<rparr>), ro_deadlineOk = True,
      ro_writeOk = (\<lambda>_. True), ro_now = 0, ro_tx = []\<rparr>"

theorem reflexiveCandidate_correct_witness:
  "\<exists>run. reflexiveCandidateFromConn ex_ice_url ex_stun ex_reflex_os
       (Some \<lparr>uc_readDeadline = None, uc_closed = False\<rparr>) ex_ice FamilyIPv4 [] = Some run \<and>
     rr_conn run = Some \<lparr>uc_readDeadline = None, uc_closed = False\<rparr> \<and> length (rr_sent run) = 1 \<and>
     (\<exists>t. rr_readEnd run = Some t \<and> t \<le> 5 * second)"
proof -
  have u: "first_some (map (stun_url ex_ice_url) (concat (map ice_URLs ex_ice))) = Some (joinHostPort ''stun.example'' ''3478'')"
    by (simp add: ex_ice_def ex_ice_url_def stun_url_def parseConsoleICEURL_def replace_first_char_def ice_server_addr_def)
  have "\<forall>c. Some \<lparr>uc_readDeadline = None, uc_closed = False\<rparr> = Some c \<longrightarrow> uc_readDeadline c = None"
    by auto
  from reflexiveCandidate_correct [OF this, of ex_ice_url ex_stun ex_reflex_os ex_ice FamilyIPv4 "[]"] show ?thesis
    by (auto simp: reflexiveCandidateFromConn_def reflexiveCandidateFromConnWithTimeout_def stunServerFromIce_eq u
        ex_reflex_os_def Let_def conn_SetReadDeadline_def)
qed

end
