(* ===== verification/Negotiation.thy ===== *)
theory Negotiation
  imports Ice
begin

text \<open>
  The choice of the endpoint (\<^verbatim>\<open>negotiateEndpoint\<close> and \<^verbatim>\<open>resolveNominatedEndpoint\<close> of \<^verbatim>\<open>main.go\<close>): the
  override, the nominated tuple, the first observed Binding Request, or the fallback probe.

  The early listener runs while the negotiation waits: the datagrams it reads until the wait
  ends are an argument, as are the order of the tracker's map, the event that ends the wait and
  what the fallback probe receives. The listener and the client share the tracker, which is the
  one inside the listener's state.
\<close>

section \<open>The context\<close>

definition ctx_Err :: "api_world \<Rightarrow> api_world \<times> bool" where
  "ctx_Err w = (w\<lparr>aw_looks := aw_looks w + 1\<rparr>, \<not> aw_alive w (aw_looks w))"

section \<open>Resolving the endpoint\<close>

datatype negotiate_error = NegCanceled | NegNoEndpoint | NegPanic

record negotiate_env =
  ng_order :: "string list"
  ng_pkts :: "(byte list \<times> udp_addr) list"
  ng_wait :: wait_event
  ng_probe :: "probe_event list"
  ng_os :: "nat \<Rightarrow> probe_os"
  ng_tx :: "nat \<Rightarrow> nat \<Rightarrow> byte list"
  ng_ticks :: "probe_tick list"
  ng_probeTx :: "nat \<Rightarrow> byte list"
  ng_stops :: "instant \<times> instant \<times> instant" \<comment> \<open>of the listener, of the fallback probe, of the listener again\<close>

text \<open>The loop over the log of the early listener.\<close>

record observed =
  ob_seen :: "string set"
  ob_queue :: "string list"
  ob_endpoint :: string
  ob_mode :: string
  ob_sent :: "sent_probe list" \<comment> \<open>by the fallback probe\<close>

definition observe_packet :: "observed \<Rightarrow> packetLog \<Rightarrow> observed" where
  "observe_packet ob p =
     (if pl_Direction p = ''in'' \<and> pl_STUN p \<and> pl_STUNType p = ''Binding request'' then
        let ob1 = (if pl_Addr p \<notin> ob_seen ob
                   then ob\<lparr>ob_seen := insert (pl_Addr p) (ob_seen ob), ob_queue := ob_queue ob @ [pl_Addr p]\<rparr> else ob)
        in if ob_endpoint ob1 = [] then ob1\<lparr>ob_endpoint := pl_Addr p, ob_mode := ''inbound_binding_request''\<rparr> else ob1
      else ob)"

text \<open>
  \<open>None\<close>: the fallback probe has not returned. The sockets are those of the listener, which is stopped
  before the probe reads them.
\<close>

definition resolveNominatedEndpoint ::
  "'m stun_lib \<Rightarrow> negotiate_env \<Rightarrow> api_world \<Rightarrow> candidate list \<Rightarrow> string \<Rightarrow> earlyNominationListener \<Rightarrow> candidate list \<Rightarrow>
   (api_world \<times> (negotiate_error + observed \<times> earlyNominationListener)) option" where
  "resolveNominatedEndpoint lib env w peerCandidates stunSecret early local =
     (case tracker_activate (ng_order env) (en_nomination early) of
        Inl _ \<Rightarrow> Some (w, Inl NegPanic)
      | Inr t1 \<Rightarrow>
     (case listener_readLoop lib (early\<lparr>en_nomination := t1\<rparr>) (ng_pkts env) of
        Inl _ \<Rightarrow> Some (w, Inl NegPanic)
      | Inr l1 \<Rightarrow>
     (let endpoint = waitForSelection t1 (ng_wait env) (en_nomination l1) in
      case ctx_Err w of
        (w1, True) \<Rightarrow> Some (w1, Inl NegCanceled)
      | (w1, False) \<Rightarrow>
     (let mode = (if endpoint \<noteq> [] then ''per_tuple_nomination'' else []);
          ob = foldl observe_packet \<lparr>ob_seen = {}, ob_queue = [], ob_endpoint = endpoint, ob_mode = mode, ob_sent = []\<rparr>
                 (listener_Logs l1)
      in if ob_endpoint ob \<noteq> [] then Some (w1, Inr (ob, l1))
         else
           let (stopEarly, stopProbe, _) = ng_stops env;
               l2 = listener_Stop stopEarly l1
           in case probeCandidates lib (ng_probeTx env) stopProbe (Some (rs_sockets (en_stop l2))) peerCandidates stunSecret local
                     (ng_probe env) of
                None \<Rightarrow> None
              | Some (sent, sockets', probed) \<Rightarrow>
                  let l3 = l2\<lparr>en_stop := (en_stop l2)\<lparr>rs_sockets := the sockets'\<rparr>\<rparr>
                  in (case ctx_Err w1 of
                        (w2, True) \<Rightarrow> Some (w2, Inl NegCanceled)
                      | (w2, False) \<Rightarrow>
                          Some (w2, Inr (ob\<lparr>ob_endpoint := probed, ob_mode := ''fallback_probe'', ob_sent := sent\<rparr>, l3)))))))"

record negotiation =
  ne_endpoint :: string
  ne_mode :: string
  ne_candidateQueue :: "string list"
  ne_candidateTypes :: "string \<rightharpoonup> string"
  ne_listener :: earlyNominationListener
  ne_probes :: probe_state \<comment> \<open>the goroutine that keeps the tuples alive\<close>
  ne_sent :: "sent_probe list" \<comment> \<open>by the fallback probe\<close>

definition peer_candidates :: "bool \<Rightarrow> udpSockets \<Rightarrow> apiResponse \<Rightarrow> candidate list \<Rightarrow> candidate list" where
  "peer_candidates forceTurn sockets connResp local =
     (let cs = pd_Candidates (si_PeerDesc (ar_ServerInfo connResp))
      in if forceTurn then compatibleCandidates (Some sockets) (candidatesOfType cs ''turn'') local else cs)"

definition negotiateEndpoint ::
  "'m stun_lib \<Rightarrow> negotiate_env \<Rightarrow> api_world \<Rightarrow> string \<Rightarrow> bool \<Rightarrow> udpSockets \<Rightarrow> apiResponse \<Rightarrow> string \<Rightarrow>
   earlyNominationListener \<Rightarrow> candidate list \<Rightarrow> (api_world \<times> (negotiate_error + negotiation)) option" where
  "negotiateEndpoint lib env w endpointOverride forceTurn sockets connResp stunSecret early local =
     (let peerCandidates = peer_candidates forceTurn sockets connResp local;
          probes = startPeerCandidateProbes lib (ng_os env) (Some sockets) peerCandidates stunSecret (ng_tx env)
            (ng_ticks env @ [TickDone]) \<comment> \<open>\<^verbatim>\<open>stopCandidateProbes\<close>\<close>
      in case (if endpointOverride \<noteq> []
               then Some (w, Inr (\<lparr>ob_seen = {}, ob_queue = [], ob_endpoint = endpointOverride, ob_mode = ''override'', ob_sent = []\<rparr>, early))
               else resolveNominatedEndpoint lib env w peerCandidates stunSecret early local) of
           None \<Rightarrow> None
         | Some (w1, Inl e) \<Rightarrow> Some (w1, Inl e)
         | Some (w1, Inr (ob, early1)) \<Rightarrow>
             (if ob_endpoint ob = [] then Some (w1, Inl NegNoEndpoint)
              else Some (w1, Inr
                \<lparr>ne_endpoint = ob_endpoint ob, ne_mode = ob_mode ob,
                 ne_candidateQueue =
                   buildCandidateRetryQueue (ob_endpoint ob) (ob_queue ob)
                     (compatibleCandidates (Some sockets) peerCandidates local),
                 ne_candidateTypes = candidateTypeMap peerCandidates, 
                 ne_listener = listener_Stop (snd (snd (ng_stops env))) early1, ne_probes = probes, ne_sent = ob_sent ob\<rparr>)))"

section \<open>Lemmas\<close>

text \<open>
  A listener whose tuples and logged addresses all lie in a set \<open>A\<close> stays so, as long as what it
  lets through comes from \<open>A\<close>.
\<close>

definition listener_within :: "string set \<Rightarrow> earlyNominationListener \<Rightarrow> bool" where
  "listener_within A l =
     (tracker_inv (en_nomination l) \<and> dom (nt_pairs (en_nomination l)) \<subseteq> A \<and> pl_Addr ` set (en_logs l) \<subseteq> A)"

definition admitted_from :: "string set \<Rightarrow> earlyNominationListener \<Rightarrow> byte list \<times> udp_addr \<Rightarrow> bool" where
  "admitted_from A l p =
     (received_addr (snd p) \<and> (listener_allows l (udpAddr_String (snd p)) \<longrightarrow> udpAddr_String (snd p) \<in> A))"

lemma set_appendLog: "set (appendLog logs p) \<subseteq> insert p (set logs)"
  by (cases logs) (auto simp: appendLog_def)

lemma logPacket_addr [simp]: "pl_Addr (logPacket lib d (Some a) data) = udpAddr_String a"
  by (simp add: logPacket_def Let_def)

lemma listener_packet_logs:
  assumes "listener_packet lib l (data, addr) = Inr l'"
  shows "pl_Addr ` set (en_logs l') \<subseteq>
    pl_Addr ` set (en_logs l) \<union> (if listener_allows l (udpAddr_String addr) then {udpAddr_String addr} else {})"
proof (cases "listener_allows l (udpAddr_String addr)")
  case False
  with assms show ?thesis by (simp add: listener_packet_def)
next
  case True
  let ?in = "appendLog (en_logs l) (logPacket lib ''in'' (Some addr) data)"
  have i: "pl_Addr ` set ?in \<subseteq> insert (udpAddr_String addr) (pl_Addr ` set (en_logs l))"
    using set_appendLog [of "en_logs l" "logPacket lib ''in'' (Some addr) data"] by force
  have o: "pl_Addr ` set (appendLog ?in (logPacket lib ''out'' (Some addr) resp)) \<subseteq> insert (udpAddr_String addr) (pl_Addr ` set (en_logs l))"
    for resp using i set_appendLog [of ?in "logPacket lib ''out'' (Some addr) resp"] by force
  from assms True have "en_logs l' = ?in \<or> (\<exists>resp. en_logs l' = appendLog ?in (logPacket lib ''out'' (Some addr) resp))"
    by (auto simp: listener_packet_def Let_def split: option.splits if_splits sum.splits)
  with i o have "pl_Addr ` set (en_logs l') \<subseteq> insert (udpAddr_String addr) (pl_Addr ` set (en_logs l))" by metis
  with True show ?thesis by simp
qed

lemma listener_packet_within:
  assumes "listener_within A l" "admitted_from A l p"
  shows "\<exists>l'. listener_packet lib l p = Inr l' \<and> listener_within A l' \<and> en_allowed l' = en_allowed l"
proof -
  obtain data addr where p: "p = (data, addr)" by force
  from assms have inv: "tracker_inv (en_nomination l)" and r: "received_addr addr"
    by (simp_all add: listener_within_def admitted_from_def p)
  from listener_packet_effect [OF inv, of lib data addr] obtain l' where l': "listener_packet lib l (data, addr) = Inr l'"
    "en_allowed l' = en_allowed l" "tracker_inv (en_nomination l')"
    "dom (nt_pairs (en_nomination l')) \<subseteq> dom (nt_pairs (en_nomination l)) \<union>
      (if listener_allows l (udpAddr_String addr) then {udpAddr_String addr} else {})"
    unfolding received_addr_String [OF r, symmetric] by blast
  let ?new = "if listener_allows l (udpAddr_String addr) then {udpAddr_String addr} else {}"
  have new: "?new \<subseteq> A" using assms(2) by (simp add: admitted_from_def p)
  with listener_packet_logs [OF l'(1)] assms(1) have "pl_Addr ` set (en_logs l') \<subseteq> A"
    unfolding listener_within_def by (meson Un_least order_trans)
  moreover from new l'(4) assms(1) have "dom (nt_pairs (en_nomination l')) \<subseteq> A"
    unfolding listener_within_def by (meson Un_least order_trans)
  ultimately show ?thesis using l' by (simp add: p listener_within_def)
qed

lemma listener_readLoop_within:
  assumes "listener_within A l" "list_all (admitted_from A l) pkts"
  shows "\<exists>l'. listener_readLoop lib l pkts = Inr l' \<and> listener_within A l'"
  using assms
proof (induction pkts arbitrary: l)
  case (Cons p ps)
  from Cons.prems(2) have "admitted_from A l p" by simp
  from listener_packet_within [OF Cons.prems(1) this] obtain l1 where
    l1: "listener_packet lib l p = Inr l1" "listener_within A l1" "en_allowed l1 = en_allowed l" by blast
  then have "admitted_from A l1 = admitted_from A l" by (simp add: admitted_from_def listener_allows_def fun_eq_iff)
  with Cons.prems Cons.IH [OF l1(2)] l1(1) show ?case by (simp add: readUDPPacket_def)
qed simp

lemma listener_packet_allowed: "listener_packet lib l p = Inr l' \<Longrightarrow> en_allowed l' = en_allowed l"
  by (auto simp: listener_packet_def Let_def split: prod.splits option.splits if_splits sum.splits)

lemma listener_readLoop_allowed: "listener_readLoop lib l pkts = Inr l' \<Longrightarrow> en_allowed l' = en_allowed l"
  by (induction pkts arbitrary: l) (auto split: sum.splits option.splits dest: listener_packet_allowed)

lemma listener_packet_stop: "listener_packet lib l p = Inr l' \<Longrightarrow> en_stop l' = en_stop l"
  by (auto simp: listener_packet_def Let_def split: prod.splits option.splits if_splits sum.splits)

lemma listener_readLoop_stop: "listener_readLoop lib l pkts = Inr l' \<Longrightarrow> en_stop l' = en_stop l"
  by (induction pkts arbitrary: l) (auto split: sum.splits option.splits dest: listener_packet_stop)

lemma stopped_sockets: "rs_sockets (stopper_Stop now u) \<in> {rs_sockets u, setUDPReadDeadline (rs_sockets u) None}"
  by (simp add: stopper_Stop_def Let_def)

lemma compatible_stopped [simp]:
  "compatibleCandidates (Some (rs_sockets (stopper_Stop now u))) = compatibleCandidates (Some (rs_sockets u))"
  using stopped_sockets [of now u] by auto

lemma listener_Start_simps [simp]:
  "en_nomination (listener_Start l) = en_nomination l" "en_logs (listener_Start l) = en_logs l"
  "en_allowed (listener_Start l) = en_allowed l" "en_stunSecret (listener_Start l) = en_stunSecret l"
  "rs_sockets (en_stop (listener_Start l)) = rs_sockets (en_stop l)" "rs_stopped (en_stop (listener_Start l)) = rs_stopped (en_stop l)"
  by (simp_all add: listener_Start_def Let_def)

lemma listener_within_Start [simp]: "listener_within A (listener_Start l) = listener_within A l"
  by (simp add: listener_within_def)

lemma foldl_observe_within:
  assumes "pl_Addr ` set ps \<subseteq> A" "set (ob_queue ob) \<subseteq> A" "ob_endpoint ob \<in> insert [] A"
  shows "set (ob_queue (foldl observe_packet ob ps)) \<subseteq> A \<and> ob_endpoint (foldl observe_packet ob ps) \<in> insert [] A"
  using assms
proof (induction ps arbitrary: ob)
  case (Cons p ps)
  have "set (ob_queue (observe_packet ob p)) \<subseteq> A" "ob_endpoint (observe_packet ob p) \<in> insert [] A"
    using Cons.prems by (auto simp: observe_packet_def Let_def)
  with Cons.IH [of "observe_packet ob p"] Cons.prems(1) show ?case by simp
qed simp

lemma probeCandidates_within:
  assumes "probeCandidates lib tx now (Some s) cands secret local es = Some (sent, s', a)" "PrTimer \<in> set es"
  shows "a \<in> insert [] (cand_Addr ` set (compatibleCandidates (Some s) cands local))"
proof -
  let ?o = "compatibleCandidates (Some s) cands local"
  have g: "guessCandidate ?o \<in> insert [] (cand_Addr ` set ?o)"
    using guessCandidate_in [of ?o] by (cases "?o = []") (auto simp: guessCandidate_def)
  with assms probe_loop_result [of es None "probe_targets s ?o" ?o] probe_targets_addr [of _ s ?o]
  show ?thesis by (auto simp: probeCandidates_def Let_def split: if_splits option.splits)
qed

lemma probeCandidates_sockets:
  "probeCandidates lib tx now (Some s) cands secret local es = Some (sent, s', a) \<Longrightarrow> s' \<in> {Some s, Some (setUDPReadDeadline s None)}"
  by (auto simp: probeCandidates_def Let_def split: if_splits option.splits)

lemma selection_within:
  assumes "tracker_inv t" "dom (nt_pairs t) \<subseteq> A"
  shows "nt_selected t \<in> insert [] A"
  using assms by (cases "nt_selected t = []") (auto simp: tracker_inv_def completed_def)

lemma resolve_within:
  assumes "resolveNominatedEndpoint lib env w peers secret l local = Some (w', Inr (ob, l'))"
    and l: "listener_within A l" and ord: "set (ng_order env) = dom (nt_pairs (en_nomination l))"
    and pkts: "list_all (admitted_from A l) (ng_pkts env)" and timer: "PrTimer \<in> set (ng_probe env)"
    and cands: "cand_Addr ` set (compatibleCandidates (Some (rs_sockets (en_stop l))) peers local) \<subseteq> A"
  shows "set (ob_queue ob) \<subseteq> A \<and> ob_endpoint ob \<in> insert [] A \<and> listener_within A l'"
proof -
  from l have inv: "tracker_inv (en_nomination l)" by (simp add: listener_within_def)
  from tracker_activate_cases [OF inv ord] obtain t1 where
    t1: "tracker_activate (ng_order env) (en_nomination l) = Inr t1" "nt_pairs t1 = nt_pairs (en_nomination l)" by blast
  have inv1: "tracker_inv t1" by (rule tracker_activate_inv [OF inv ord t1(1)])
  with l t1(2) have l1: "listener_within A (l\<lparr>en_nomination := t1\<rparr>)" by (simp add: listener_within_def)
  moreover have "list_all (admitted_from A (l\<lparr>en_nomination := t1\<rparr>)) (ng_pkts env)"
    using pkts by (simp add: admitted_from_def listener_allows_def list_all_iff)
  ultimately obtain l2 where l2: "listener_readLoop lib (l\<lparr>en_nomination := t1\<rparr>) (ng_pkts env) = Inr l2" "listener_within A l2"
    using listener_readLoop_within [of A "l\<lparr>en_nomination := t1\<rparr>" "ng_pkts env" lib] by blast
  let ?e = "waitForSelection t1 (ng_wait env) (en_nomination l2)"
  have "nt_selected t1 \<in> insert [] A" "nt_selected (en_nomination l2) \<in> insert [] A"
    using selection_within [OF inv1] selection_within [of "en_nomination l2"] l1 l2(2) by (simp_all add: listener_within_def)
  then have e: "?e \<in> insert [] A" by (auto simp: waitForSelection_def split: wait_event.splits)
  define ob0 where "ob0 = foldl observe_packet
    \<lparr>ob_seen = {}, ob_queue = [], ob_endpoint = ?e, ob_mode = (if ?e \<noteq> [] then ''per_tuple_nomination'' else []), ob_sent = []\<rparr>
    (listener_Logs l2)"
  have ob0: "set (ob_queue ob0) \<subseteq> A" "ob_endpoint ob0 \<in> insert [] A"
    using foldl_observe_within [of "en_logs l2" A] e l2(2) by (simp_all add: ob0_def listener_within_def)
  have stop: "en_stop l2 = en_stop l" using listener_readLoop_stop [OF l2(1)] by simp
  from assms(1) consider "ob = ob0" "l' = l2"
    | now tx now' sent s' p where
      "probeCandidates lib tx now' (Some (rs_sockets (en_stop (listener_Stop now l2)))) peers secret local (ng_probe env) = Some (sent, s', p)"
      "ob = ob0\<lparr>ob_endpoint := p, ob_mode := ''fallback_probe'', ob_sent := sent\<rparr>" "en_nomination l' = en_nomination l2" "en_logs l' = en_logs l2"
    unfolding resolveNominatedEndpoint_def t1(1) l2(1) sum.case Let_def ob0_def [symmetric]
    by (auto simp: listener_Stop_def split: prod.splits bool.splits if_splits option.splits)
  then show ?thesis
  proof cases
    case 1
    with ob0 l2 show ?thesis by simp
  next
    case (2 now tx now' sent s' p)
    from probeCandidates_within [OF 2(1) timer] cands have "p \<in> insert [] A"
      by (auto simp: listener_Stop_def stop)
    with 2(2-) ob0 l2 show ?thesis by (simp add: listener_within_def)
  qed
qed

text \<open>The stopper of the listener during a negotiation: still running, or stopped with nothing left behind.\<close>

definition stop_held :: "udpSockets \<Rightarrow> udpReadStopper \<Rightarrow> bool" where
  "stop_held s u =
     (if rs_stopped u then rs_readers u = 0 \<and> rs_done u \<and> rs_sockets u = setUDPReadDeadline s None else rs_sockets u = s)"

lemma stop_held_Stop:
  "stop_held s u \<Longrightarrow> rs_readers (stopper_Stop now u) = 0 \<and> rs_done (stopper_Stop now u) \<and> rs_stopped (stopper_Stop now u) \<and>
     rs_sockets (stopper_Stop now u) = setUDPReadDeadline s None"
  by (auto simp: stop_held_def stopper_Stop_def Let_def split: if_splits)

lemma resolve_stop:
  assumes "resolveNominatedEndpoint lib env w peers secret l local = Some (w', Inr (ob, l'))"
    and "stop_held s (en_stop l)"
  shows "stop_held s (en_stop l')"
proof -
  from assms(1) obtain t1 l2 where t1: "tracker_activate (ng_order env) (en_nomination l) = Inr t1"
    and l2: "listener_readLoop lib (l\<lparr>en_nomination := t1\<rparr>) (ng_pkts env) = Inr l2"
    by (auto simp: resolveNominatedEndpoint_def split: sum.splits)
  have held: "stop_held s (en_stop l2)" using listener_readLoop_stop [OF l2] assms(2) by simp
  from assms(1) consider "l' = l2"
    | now tx now' sent s' p where
      "probeCandidates lib tx now' (Some (rs_sockets (en_stop (listener_Stop now l2)))) peers secret local (ng_probe env) = Some (sent, s', p)"
      "en_stop l' = (en_stop (listener_Stop now l2))\<lparr>rs_sockets := the s'\<rparr>"
    unfolding resolveNominatedEndpoint_def t1 l2 sum.case Let_def
    by (auto split: prod.splits bool.splits if_splits option.splits)
  then show ?thesis
  proof cases
    case 1
    with held show ?thesis by simp
  next
    case (2 now tx now' sent s' p)
    with probeCandidates_sockets [OF 2(1)] stop_held_Stop [OF held, of now] show ?thesis
      by (auto simp: stop_held_def listener_Stop_def)
  qed
qed

lemma retry_queue_within:
  "set observed \<subseteq> A \<Longrightarrow> cand_Addr ` set cands \<subseteq> A \<Longrightarrow> set (buildCandidateRetryQueue endpoint observed cands) \<subseteq> A"
  unfolding buildCandidateRetryQueue_eq by (auto simp: set_keep_first public_addrs_def private_addrs_def)

text \<open>Without an override, everything a negotiation yields stays within a set that the listener and the peer
  candidates respect.\<close>

lemma negotiate_within:
  assumes "negotiateEndpoint lib env w [] forceTurn sockets resp secret l local = Some (w', Inr n)"
    and "listener_within A l" "set (ng_order env) = dom (nt_pairs (en_nomination l))"
    and "list_all (admitted_from A l) (ng_pkts env)" "PrTimer \<in> set (ng_probe env)"
    and cands: "cand_Addr ` set (compatibleCandidates (Some sockets) (peer_candidates forceTurn sockets resp local) local) \<subseteq> A"
    and sockets: "rs_sockets (en_stop l) = sockets"
  shows "ne_endpoint n \<in> A \<and> set (ne_candidateQueue n) \<subseteq> A \<and> listener_within A (ne_listener n)"
proof -
  let ?peers = "peer_candidates forceTurn sockets resp local"
  from assms(1) obtain ob l' where
    r: "resolveNominatedEndpoint lib env w ?peers secret l local = Some (w', Inr (ob, l'))"
    and n: "ob_endpoint ob \<noteq> []" "ne_endpoint n = ob_endpoint ob" "ne_listener n = listener_Stop (snd (snd (ng_stops env))) l'"
      "ne_candidateQueue n = buildCandidateRetryQueue (ob_endpoint ob) (ob_queue ob) (compatibleCandidates (Some sockets) ?peers local)"
    by (auto simp: negotiateEndpoint_def Let_def split: option.splits sum.splits if_splits prod.splits)
  have "set (ob_queue ob) \<subseteq> A" "ob_endpoint ob \<in> insert [] A" "listener_within A l'"
    using resolve_within [OF r assms(2-5)] cands sockets by simp_all
  with n retry_queue_within [OF _ cands, of "ob_queue ob"] show ?thesis by (auto simp: listener_within_def listener_Stop_def)
qed

lemma new_listener_within: "listener_within A (newEarlyNominationListener sockets secret newNominationTracker)"
  using tracker_inv_new by (simp add: listener_within_def newEarlyNominationListener_def newNominationTracker_def)

text \<open>The relays a response advertises, and the listener for those that the sockets can reach.\<close>

definition relay_addrs :: "apiResponse \<Rightarrow> string set" where
  "relay_addrs resp = {cand_Addr c | c. c \<in> set (pd_Candidates (si_PeerDesc (ar_ServerInfo resp))) \<and> cand_Type c = ''turn''}"

definition turn_listener :: "udpSockets \<Rightarrow> string \<Rightarrow> candidate list \<Rightarrow> earlyNominationListener" where
  "turn_listener sockets secret cs = listener_Start (restrictToCandidates (newEarlyNominationListener sockets secret newNominationTracker) cs)"

lemma turn_listener_within:
  "listener_within (cand_Addr ` set cs) (turn_listener sockets secret cs)"
  "received_addr (snd p) \<Longrightarrow> admitted_from (cand_Addr ` set cs) (turn_listener sockets secret cs) p"
  using new_listener_within [of "cand_Addr ` set cs" sockets secret]
  by (simp_all add: turn_listener_def restrictToCandidates_def listener_within_def admitted_from_def listener_allows_def)

definition ipv4_text :: "string \<Rightarrow> bool" where
  "ipv4_text a =
     (case splitHostPort a of
        None \<Rightarrow> False
      | Some (host, port) \<Rightarrow> (case parseIP (trim_set ''[]'' host) of None \<Rightarrow> False | Some ip \<Rightarrow> is_v4 ip))"

lemma trim_set_absent:
  assumes "set s \<inter> set cs = {}"
  shows "trim_set cs s = s"
proof -
  have "dropWhile (\<lambda>c. c \<in> set cs) xs = xs" if "set xs \<subseteq> set s" for xs
    using assms that by (cases xs) auto
  then show ?thesis by (simp add: trim_set_def)
qed

lemma ipv4_text_received:
  assumes "length (ua_IP a) = 4" "ua_Zone a = []" "0 \<le> ua_Port a"
  shows "ipv4_text (udpAddr_String a)"
proof -
  let ?h = "ipv4_str (ua_IP a)"
  have "ua_IP a \<noteq> []" "to4 (ua_IP a) = ua_IP a" using assms(1) by (auto simp: to4_def)
  then have s: "udpAddr_String a = joinHostPort ?h (nat_str (nat (ua_Port a)))"
    using assms by (simp add: udpAddr_String_def ip_String_def is_v4_def zone_str_def int_str_def)
  have "trim_set ''[]'' ?h = ?h"
  proof (rule trim_set_absent)
    show "set ?h \<inter> set ''[]'' = {}" using plain_host_ipv4_str [of "ua_IP a"] by (auto simp: plain_host_def)
  qed
  then show ?thesis
    using parseIP_ipv4_str [OF assms(1)] assms(1)
    by (simp add: ipv4_text_def s splitHostPort_ipv4 is_v4_def to4_def v4InV6Prefix_def) auto
qed

lemma ipv4_admitted:
  assumes "received_addr (snd p)" "length (ua_IP (snd p)) = 4"
  shows "admitted_from (Collect ipv4_text) l p"
proof -
  from assms have "ua_Zone (snd p) = []" "0 \<le> ua_Port (snd p)" by (simp_all add: received_addr_def)
  with assms ipv4_text_received show ?thesis by (simp add: admitted_from_def)
qed

lemma compatible_ipv4_text:
  assumes "us_V6 s = None" "c \<in> set (compatibleCandidates (Some s) cands local)"
  shows "ipv4_text (cand_Addr c)"
proof -
  from assms(2) have "compatible s (localCandidateFamilies local) c" by (simp add: set_compatibleCandidates)
  then obtain host port ip where "splitHostPort (cand_Addr c) = Some (host, port)" "parseIP (trim_set ''[]'' host) = Some ip"
    "if is_v4 ip then us_V4 s \<noteq> None \<and> fst (localCandidateFamilies local) else us_V6 s \<noteq> None \<and> snd (localCandidateFamilies local)"
    by (rule compatible_family)
  with assms(1) show ?thesis by (simp add: ipv4_text_def split: if_splits)
qed

section \<open>Properties of the negotiation\<close>

text \<open>
  C3. Under \<^verbatim>\<open>--turn\<close> the endpoint the negotiation selects, and every endpoint it queues for a
  retry, is a relay candidate that the console advertised: whatever datagrams arrive before
  and during the wait, authenticated or not, from whatever address, and however the wait ends.
\<close>

theorem turn_only_endpoint:
  assumes "listener_readLoop lib (turn_listener sockets secret (peer_candidates True sockets resp local)) pkts = Inr l"
    and "list_all (\<lambda>p. received_addr (snd p)) (pkts @ ng_pkts env)"
    and "set (ng_order env) = dom (nt_pairs (en_nomination l))" and "PrTimer \<in> set (ng_probe env)"
    and "negotiateEndpoint lib env w [] True sockets resp secret l local = Some (w', Inr n)"
  shows "ne_endpoint n \<in> relay_addrs resp \<and> set (ne_candidateQueue n) \<subseteq> relay_addrs resp"
proof -
  let ?cs = "peer_candidates True sockets resp local"
  let ?A = "cand_Addr ` set ?cs" and ?l0 = "turn_listener sockets secret ?cs"
  have "list_all (admitted_from ?A ?l0) pkts"
    using assms(2) turn_listener_within(2) by (simp add: list_all_iff)
  from listener_readLoop_within [OF turn_listener_within(1) this, of lib] assms(1) have l: "listener_within ?A l" by auto
  have "en_allowed l = Some ?A"
    using listener_readLoop_allowed [OF assms(1)] by (simp add: turn_listener_def restrictToCandidates_def)
  with assms(2) have p: "list_all (admitted_from ?A l) (ng_pkts env)"
    by (simp add: list_all_iff admitted_from_def listener_allows_def)
  have "cand_Addr ` set (compatibleCandidates (Some sockets) ?cs local) \<subseteq> ?A"
    by (auto simp: set_compatibleCandidates)
  from negotiate_within [OF assms(5) l assms(3) p assms(4) this] listener_readLoop_stop [OF assms(1)]
  have "ne_endpoint n \<in> ?A" "set (ne_candidateQueue n) \<subseteq> ?A"
    by (simp_all add: turn_listener_def restrictToCandidates_def newEarlyNominationListener_def)
  moreover have "?A \<subseteq> relay_addrs resp"
    by (auto simp: peer_candidates_def set_compatibleCandidates candidatesOfType_def relay_addrs_def)
  ultimately show ?thesis by blast
qed

text \<open>
  C12. With no IPv6 socket (\<^verbatim>\<open>-4\<close>), with and without \<^verbatim>\<open>--turn\<close>, the endpoint is an IPv4 address unless
  it is the one given by \<^verbatim>\<open>--endpoint\<close>, which is taken as it is, and every endpoint queued for a retry
  is an IPv4 address: IPv6 candidates of the console are never used.
\<close>

theorem ipv4_only_endpoint:
  assumes "us_V6 sockets = None"
    and "listener_readLoop lib (listener_Start (if forceTurn
        then restrictToCandidates (newEarlyNominationListener sockets secret newNominationTracker) cs
        else newEarlyNominationListener sockets secret newNominationTracker)) pkts = Inr l"
    and "list_all (\<lambda>p. received_addr (snd p) \<and> length (ua_IP (snd p)) = 4) (pkts @ ng_pkts env)"
    and "set (ng_order env) = dom (nt_pairs (en_nomination l))" and "PrTimer \<in> set (ng_probe env)"
    and "negotiateEndpoint lib env w endpointOverride forceTurn sockets resp secret l local = Some (w', Inr n)"
  shows "(if endpointOverride = [] then ipv4_text (ne_endpoint n) else ne_endpoint n = endpointOverride) \<and>
    (\<forall>a \<in> set (ne_candidateQueue n). ipv4_text a)"
proof -
  let ?A = "Collect ipv4_text"
  have cands: "cand_Addr ` set (compatibleCandidates (Some sockets) (peer_candidates forceTurn sockets resp local) local) \<subseteq> ?A"
    using compatible_ipv4_text [OF assms(1)] by auto
  show ?thesis
  proof (cases "endpointOverride = []")
    case False
    with assms(6) have "ne_endpoint n = endpointOverride" "ne_candidateQueue n = buildCandidateRetryQueue endpointOverride []
        (compatibleCandidates (Some sockets) (peer_candidates forceTurn sockets resp local) local)"
      by (auto simp: negotiateEndpoint_def Let_def)
    with False retry_queue_within [OF _ cands, of "[]"] show ?thesis by auto
  next
    case True
    let ?l0 = "listener_Start (if forceTurn
        then restrictToCandidates (newEarlyNominationListener sockets secret newNominationTracker) cs
        else newEarlyNominationListener sockets secret newNominationTracker)"
    have adm: "list_all (admitted_from ?A l') (pkts @ ng_pkts env)" for l'
      using assms(3) ipv4_admitted by (auto simp: list_all_iff)
    then have "list_all (admitted_from ?A ?l0) pkts" by simp
    moreover have "listener_within ?A ?l0"
      using new_listener_within [of ?A sockets secret] by (simp add: restrictToCandidates_def listener_within_def)
    ultimately have l: "listener_within ?A l" using listener_readLoop_within [of ?A ?l0 pkts lib] assms(2) by auto
    have "rs_sockets (en_stop l) = sockets"
      using listener_readLoop_stop [OF assms(2)] by (simp add: restrictToCandidates_def newEarlyNominationListener_def)
    with True cands show ?thesis using negotiate_within [OF assms(6) [unfolded True] l assms(4) _ assms(5)] adm by auto
  qed
qed

text \<open>
  C13. A negotiation that succeeds leaves the outer sockets to WireGuard: no reader of the listener
  is left and none of its loops takes another datagram, no read deadline is set on a socket, and
  the goroutine that keeps the tuples alive has ended, whichever way the endpoint was found.
\<close>

theorem negotiation_frees_sockets:
  assumes "listener_readLoop lib (listener_Start (if forceTurn
        then restrictToCandidates (newEarlyNominationListener sockets secret newNominationTracker) cs
        else newEarlyNominationListener sockets secret newNominationTracker)) pkts = Inr l"
    and "negotiateEndpoint lib env w endpointOverride forceTurn sockets resp secret l local = Some (w', Inr n)"
  shows "rs_readers (en_stop (ne_listener n)) = 0 \<and> listener_readLoop lib (ne_listener n) pkts' = Inr (ne_listener n) \<and>
    rs_sockets (en_stop (ne_listener n)) = setUDPReadDeadline sockets None \<and> fst (ne_probes n) = ProbesStopped"
proof -
  have l: "rs_sockets (en_stop l) = sockets" "\<not> rs_stopped (en_stop l)"
    using listener_readLoop_stop [OF assms(1)]
    by (simp_all add: restrictToCandidates_def newEarlyNominationListener_def split: if_splits)
  from assms(2) obtain ob l' where
    r: "if endpointOverride = [] then resolveNominatedEndpoint lib env w (peer_candidates forceTurn sockets resp local) secret l local =
          Some (w', Inr (ob, l')) else l' = l"
    and l': "ne_listener n = listener_Stop (snd (snd (ng_stops env))) l'" "fst (ne_probes n) = ProbesStopped"
    by (cases "endpointOverride = []")
      (auto simp: negotiateEndpoint_def Let_def split: option.splits sum.splits if_splits prod.splits)
  from l have "stop_held sockets (en_stop l)" by (simp add: stop_held_def)
  with r have "stop_held sockets (en_stop l')"
    using resolve_stop [of lib env w _ secret l local w' ob l' sockets] by (simp split: if_splits)
  then show ?thesis using stop_held_Stop [of sockets "en_stop l'"] l'
    by (cases pkts') (auto simp: listener_Stop_def readUDPPacket_def)
qed

definition ex_relay :: candidate where
  "ex_relay = ex_v4\<lparr>cand_Type := ''turn''\<rparr>"

definition ex_resp :: "candidate \<Rightarrow> apiResponse" where
  "ex_resp c = zero_apiResponse\<lparr>ar_ServerInfo := (ar_ServerInfo zero_apiResponse)
     \<lparr>si_PeerDesc := \<lparr>pd_Candidates = [ex_v6, c], pd_IceConfig = [], pd_IsMaster = True\<rparr>\<rparr>\<rparr>"

definition ex_neg :: negotiate_env where
  "ex_neg = \<lparr>ng_order = [], ng_pkts = [], ng_wait = TimerFired, ng_probe = [PrTimer],
     ng_os = (\<lambda>_. \<lparr>po_resolve = (\<lambda>_ _. None), po_writeOk = (\<lambda>_ _. True)\<rparr>), ng_tx = (\<lambda>_ _. []), ng_ticks = [],
     ng_probeTx = (\<lambda>_. []), ng_stops = (0, 0, 0)\<rparr>"

definition ex_world :: api_world where
  "ex_world = \<lparr>aw_http = (\<lambda>_. HttpInvalid []), aw_alive = (\<lambda>_. True), aw_num = (\<lambda>_. None), aw_logger = \<lparr>al_debug = False\<rparr>,
     aw_calls = 0, aw_sent = [], aw_looks = 0, aw_logs = []\<rparr>"

lemma ex_relay_compatible:
  "compatibleCandidates (Some ex_v4_sockets) [ex_relay] [ex_v4] = [ex_relay]"
  by (simp add: compatibleCandidates_def compatible_def localCandidateFamilies_def localCandidateFamilies_step_def
      rankCandidates_def ex_relay_def ex_v4_def ex_v4_sockets_def addr_eval)

lemma ex_peers:
  "peer_candidates True ex_v4_sockets (ex_resp ex_relay) [ex_v4] = [ex_relay]"
  "peer_candidates False ex_v4_sockets (ex_resp ex_v4) [ex_v4] = [ex_v6, ex_v4]"
proof -
  have "candidatesOfType [ex_v6, ex_relay] ''turn'' = [ex_relay]"
    by (simp add: candidatesOfType_def ex_v6_def ex_relay_def)
  then show "peer_candidates True ex_v4_sockets (ex_resp ex_relay) [ex_v4] = [ex_relay]"
    by (simp add: peer_candidates_def ex_resp_def ex_relay_compatible)
  show "peer_candidates False ex_v4_sockets (ex_resp ex_v4) [ex_v4] = [ex_v6, ex_v4]"
    by (simp add: peer_candidates_def ex_resp_def)
qed

text \<open>A negotiation in which nothing arrives ends with the guess of the fallback probe.\<close>

lemma ex_neg_run:
  assumes "compatibleCandidates (Some ex_v4_sockets) (peer_candidates turn ex_v4_sockets resp local) local = [c]" "cand_Addr c \<noteq> []"
    "en_nomination l = newNominationTracker" "en_logs l = []" "rs_sockets (en_stop l) = ex_v4_sockets"
  shows "\<exists>w' n. negotiateEndpoint lib ex_neg ex_world [] turn ex_v4_sockets resp s l local = Some (w', Inr n) \<and>
    ne_endpoint n = cand_Addr c"
proof -
  let ?s = "rs_sockets (stopper_Stop 0 (en_stop l))"
  have g: "guessCandidate [c] = cand_Addr c" by (simp add: guessCandidate_def)
  have c: "compatibleCandidates (Some (rs_sockets (en_stop l))) (peer_candidates turn ex_v4_sockets resp local) local = [c]"
    by (simp add: assms)
  obtain sent s' where
    "probeCandidates lib (\<lambda>_. []) 0 (Some ?s) (peer_candidates turn ex_v4_sockets resp local) s local [PrTimer] = Some (sent, s', cand_Addr c)"
    by (cases "probe_targets ?s [c] = []") (auto simp: probeCandidates_def c g Let_def)
  with assms show ?thesis
    by (simp add: negotiateEndpoint_def resolveNominatedEndpoint_def ex_neg_def ex_world_def Let_def ctx_Err_def
        tracker_activate_def newNominationTracker_def waitForSelection_def listener_Stop_def)
qed

theorem turn_only_endpoint_witness:
  "\<exists>w' n. negotiateEndpoint ex_stun ex_neg ex_world [] True ex_v4_sockets (ex_resp ex_relay) ''s'' (turn_listener ex_v4_sockets ''s'' [ex_relay]) [ex_v4] =
     Some (w', Inr n) \<and> ne_endpoint n \<in> relay_addrs (ex_resp ex_relay)"
proof -
  let ?l = "turn_listener ex_v4_sockets ''s'' [ex_relay]"
  have l: "en_nomination ?l = newNominationTracker" "en_logs ?l = []" "rs_sockets (en_stop ?l) = ex_v4_sockets"
    by (simp_all add: turn_listener_def restrictToCandidates_def newEarlyNominationListener_def)
  have "cand_Addr ex_relay \<noteq> []" by (simp add: ex_relay_def ex_v4_def)
  with ex_neg_run [of True "ex_resp ex_relay" "[ex_v4]" ex_relay ?l ex_stun "''s''"] ex_peers(1) ex_relay_compatible l
  obtain w' n where n: "negotiateEndpoint ex_stun ex_neg ex_world [] True ex_v4_sockets (ex_resp ex_relay) ''s'' ?l [ex_v4] = Some (w', Inr n)"
    by auto
  have "ne_endpoint n \<in> relay_addrs (ex_resp ex_relay) \<and> set (ne_candidateQueue n) \<subseteq> relay_addrs (ex_resp ex_relay)"
    by (rule turn_only_endpoint [OF _ _ _ _ n, where pkts = "[]"])
      (simp_all add: ex_peers(1) ex_neg_def l newNominationTracker_def)
  with n show ?thesis by blast
qed

lemma ex_listener:
  "en_nomination (listener_Start (newEarlyNominationListener ex_v4_sockets ''s'' newNominationTracker)) = newNominationTracker"
  "en_logs (listener_Start (newEarlyNominationListener ex_v4_sockets ''s'' newNominationTracker)) = []"
  "rs_sockets (en_stop (listener_Start (newEarlyNominationListener ex_v4_sockets ''s'' newNominationTracker))) = ex_v4_sockets"
  by (simp_all add: newEarlyNominationListener_def)

lemma ex_v4_negotiated:
  "\<exists>w' n. negotiateEndpoint ex_stun ex_neg ex_world [] False ex_v4_sockets (ex_resp ex_v4) ''s''
     (listener_Start (newEarlyNominationListener ex_v4_sockets ''s'' newNominationTracker)) [ex_v4] = Some (w', Inr n)"
proof -
  have "cand_Addr ex_v4 \<noteq> []" by (simp add: ex_v4_def)
  with ex_neg_run [OF _ _ ex_listener, of False "ex_resp ex_v4" "[ex_v4]" ex_v4 ex_stun "''s''"] ex_peers(2) ex_v4_compatible
  show ?thesis by auto
qed

theorem ipv4_only_endpoint_witness:
  "\<exists>w' n. negotiateEndpoint ex_stun ex_neg ex_world [] False ex_v4_sockets (ex_resp ex_v4) ''s''
       (listener_Start (newEarlyNominationListener ex_v4_sockets ''s'' newNominationTracker)) [ex_v4] = Some (w', Inr n) \<and> ipv4_text (ne_endpoint n)"
proof -
  let ?l = "listener_Start (newEarlyNominationListener ex_v4_sockets ''s'' newNominationTracker)"
  obtain w' n where n: "negotiateEndpoint ex_stun ex_neg ex_world [] False ex_v4_sockets (ex_resp ex_v4) ''s'' ?l [ex_v4] = Some (w', Inr n)"
    using ex_v4_negotiated by blast
  have "us_V6 ex_v4_sockets = None" by (simp add: ex_v4_sockets_def)
  from ipv4_only_endpoint [OF this _ _ _ _ n, where pkts = "[]"]
  have "ipv4_text (ne_endpoint n)" by (simp add: ex_neg_def newEarlyNominationListener_def newNominationTracker_def)
  with n show ?thesis by blast
qed

theorem negotiation_frees_sockets_witness:
  "\<exists>l w' n. l = listener_Start (newEarlyNominationListener ex_v4_sockets ''s'' newNominationTracker) \<and> rs_readers (en_stop l) = 1 \<and>
     negotiateEndpoint ex_stun ex_neg ex_world [] False ex_v4_sockets (ex_resp ex_v4) ''s'' l [ex_v4] = Some (w', Inr n) \<and>
     rs_readers (en_stop (ne_listener n)) = 0"
proof -
  let ?l = "listener_Start (newEarlyNominationListener ex_v4_sockets ''s'' newNominationTracker)"
  obtain w' n where n: "negotiateEndpoint ex_stun ex_neg ex_world [] False ex_v4_sockets (ex_resp ex_v4) ''s'' ?l [ex_v4] = Some (w', Inr n)"
    using ex_v4_negotiated by blast
  from negotiation_frees_sockets [OF _ n, where pkts = "[]"] have "rs_readers (en_stop (ne_listener n)) = 0" by simp
  moreover have "rs_readers (en_stop ?l) = 1"
    by (simp add: listener_Start_def newEarlyNominationListener_def newUDPReadStopper_def stopper_start_def ex_v4_sockets_def)
  ultimately show ?thesis using n by blast
qed

text \<open>
  C40. A datagram that looks like a Binding Request becomes the endpoint although its
  MESSAGE-INTEGRITY is not valid: the listener logs it before it checks it, and when the wait
  for a nomination ends without one, the first logged request decides, from wherever it came.
\<close>

theorem unauthenticated_request_selected:
  assumes "sl_Decode lib data = Some msg" and "sl_TypeString lib msg = ''Binding request''"
    and "\<not> validStunIntegrity lib msg secret" and "udpAddr_String addr \<noteq> []"
    and "aw_alive w (aw_looks w)" and "ng_wait env = TimerFired" and "ng_order env = []" and "ng_pkts env = [(data, addr)]"
  shows "\<exists>w' n. negotiateEndpoint lib env w [] False sockets resp secret
      (listener_Start (newEarlyNominationListener sockets secret newNominationTracker)) local = Some (w', Inr n) \<and>
    ne_endpoint n = udpAddr_String addr \<and> ne_mode n = ''inbound_binding_request''"
proof -
  let ?l = "listener_Start (newEarlyNominationListener sockets secret (newNominationTracker\<lparr>nt_active := True\<rparr>))"
  have t: "tracker_activate [] newNominationTracker = Inr (newNominationTracker\<lparr>nt_active := True\<rparr>)"
    by (simp add: tracker_activate_def newNominationTracker_def)
  have p: "listener_packet lib ?l (data, addr) = Inr (?l\<lparr>en_logs := [logPacket lib ''in'' (Some addr) data]\<rparr>)"
    using assms(1,3)
    by (simp add: listener_packet_def listener_Start_def newEarlyNominationListener_def listener_allows_def parseStunMessage_def appendLog_def
        maxEarlyNominationLogs_def respondToStunBindingRequest_def respondToStunBindingRequestAddrPort_def Let_def)
  have o: "foldl observe_packet \<lparr>ob_seen = {}, ob_queue = [], ob_endpoint = [], ob_mode = [], ob_sent = []\<rparr> [logPacket lib ''in'' (Some addr) data] =
      \<lparr>ob_seen = {udpAddr_String addr}, ob_queue = [udpAddr_String addr], ob_endpoint = udpAddr_String addr, ob_mode = ''inbound_binding_request'', ob_sent = []\<rparr>"
    using assms(1,2) by (simp add: observe_packet_def logPacket_def parseStunMessage_def Let_def)
  have n: "(listener_Start (newEarlyNominationListener sockets secret newNominationTracker))
      \<lparr>en_nomination := newNominationTracker\<lparr>nt_active := True\<rparr>\<rparr> = ?l"
    "en_nomination (newEarlyNominationListener sockets secret newNominationTracker) = newNominationTracker"
    "\<not> rs_done (en_stop ?l)"
    by (simp_all add: newEarlyNominationListener_def listener_Start_def)
  have s: "nt_selected newNominationTracker = []" by (simp add: newNominationTracker_def)
  show ?thesis
    using assms o by (simp add: negotiateEndpoint_def resolveNominatedEndpoint_def readUDPPacket_def n t p s waitForSelection_def ctx_Err_def Let_def)
qed

theorem unauthenticated_request_selected_witness:
  "\<exists>w' n. negotiateEndpoint (ex_stun\<lparr>sl_TypeString := \<lambda>_. ''Binding request''\<rparr>) (ex_neg\<lparr>ng_pkts := [(ex_datagram, ex_remote)]\<rparr>) ex_world []
       False ex_v4_sockets (ex_resp ex_v4) ''s'' (listener_Start (newEarlyNominationListener ex_v4_sockets ''s'' newNominationTracker)) [ex_v4] = Some (w', Inr n) \<and>
     ne_endpoint n = udpAddr_String ex_remote"
proof -
  let ?lib = "ex_stun\<lparr>sl_TypeString := \<lambda>_. ''Binding request''\<rparr>"
  have "isSTUN ex_datagram" by (simp add: isSTUN_def ex_datagram_def be_uint32_def word_rcat_def)
  then have "sl_Decode ?lib ex_datagram = Some ex_datagram" "\<not> validStunIntegrity ?lib ex_datagram ''s''"
    by (simp_all add: ex_stun_def validStunIntegrity_def ex_datagram_def)
  moreover have "udpAddr_String ex_remote \<noteq> []" by (simp add: udpAddr_String_def joinHostPort_def)
  ultimately show ?thesis
    using unauthenticated_request_selected [of ?lib ex_datagram ex_datagram "''s''" ex_remote ex_world
        "ex_neg\<lparr>ng_pkts := [(ex_datagram, ex_remote)]\<rparr>" ex_v4_sockets "ex_resp ex_v4" "[ex_v4]"]
    by (auto simp: ex_neg_def ex_world_def)
qed

end
