(* ===== verification/PeerMtu.thy ===== *)
theory PeerMtu
  imports Go_Json
begin

text \<open>
  Datagram path MTU discovery (\<^verbatim>\<open>peermtu.go\<close>): the RFC 8899 prober, its operations under the
  prober's mutex, and the padded echo request that is its probe packet.

  Go's \<^verbatim>\<open>int\<close> is 64 bits wide; every value here is an MTU, an index or a length far below
  that, so the model uses \<^typ>\<open>int\<close> and \<^typ>\<open>nat\<close>.
\<close>

section \<open>The prober\<close>

datatype dplpmtudState =
    DplpmtudStateBase
  | DplpmtudStateSearching
  | DplpmtudStateSearchComplete
  | DplpmtudStateDisabled

text \<open>The constants are an \<^verbatim>\<open>iota\<close> enumeration, ordered by their value.\<close>

fun dplpmtudState_iota :: "dplpmtudState \<Rightarrow> nat" where
  "dplpmtudState_iota DplpmtudStateBase = 0"
| "dplpmtudState_iota DplpmtudStateSearching = 1"
| "dplpmtudState_iota DplpmtudStateSearchComplete = 2"
| "dplpmtudState_iota DplpmtudStateDisabled = 3"

lemma dplpmtudState_iota_inj: "dplpmtudState_iota s = dplpmtudState_iota t \<Longrightarrow> s = t"
  by (cases s; cases t) auto

instantiation dplpmtudState :: linorder
begin

definition less_eq_dplpmtudState :: "dplpmtudState \<Rightarrow> dplpmtudState \<Rightarrow> bool" where
  "less_eq_dplpmtudState s t = (dplpmtudState_iota s \<le> dplpmtudState_iota t)"

definition less_dplpmtudState :: "dplpmtudState \<Rightarrow> dplpmtudState \<Rightarrow> bool" where
  "less_dplpmtudState s t = (dplpmtudState_iota s < dplpmtudState_iota t)"

instance
  by standard
    (auto simp: less_eq_dplpmtudState_def less_dplpmtudState_def intro: dplpmtudState_iota_inj)

end

fun dplpmtudState_String :: "dplpmtudState \<Rightarrow> string" where
  "dplpmtudState_String DplpmtudStateBase = ''BASE''"
| "dplpmtudState_String DplpmtudStateSearching = ''SEARCHING''"
| "dplpmtudState_String DplpmtudStateSearchComplete = ''SEARCH_COMPLETE''"
| "dplpmtudState_String DplpmtudStateDisabled = ''DISABLED''"

definition defaultProbeMilestones :: "int list" where
  "defaultProbeMilestones = [1360, 1400, 1420, 1440]"

definition maxDPLPMTUDProbesPerMilestone :: nat where
  "maxDPLPMTUDProbesPerMilestone = 2"

definition minTunnelMTU :: int where
  "minTunnelMTU = 1280"

definition baseTunnelMTU :: int where
  "baseTunnelMTU = minTunnelMTU"

record peerMTUProber =
  pp_state :: dplpmtudState
  pp_milestones :: "int list"
  pp_currentIndex :: nat
  pp_confirmedMTU :: int
  pp_maxTargetMTU :: int
  pp_failedAttempts :: nat
  pp_manualOverride :: bool
  pp_armed :: bool

text \<open>The loop that finds the starting index: one past the last milestone not above \<open>confirmed\<close>.\<close>

definition prober_startIdx :: "int list \<Rightarrow> int \<Rightarrow> nat" where
  "prober_startIdx candidates confirmed =
     foldl (\<lambda>idx (i, m). if m \<le> confirmed then i + 1 else idx) 0 (enumerate 0 candidates)"

definition newPeerMTUProber :: "int \<Rightarrow> int \<Rightarrow> int \<Rightarrow> peerMTUProber" where
  "newPeerMTUProber initialMTU maxTargetMTU manualMTU =
     (if manualMTU > 0 then
        \<lparr>pp_state = DplpmtudStateDisabled, pp_milestones = [], pp_currentIndex = 0,
         pp_confirmedMTU = manualMTU, pp_maxTargetMTU = manualMTU, pp_failedAttempts = 0,
         pp_manualOverride = True, pp_armed = False\<rparr>
      else
        let maxT = (if maxTargetMTU < baseTunnelMTU then baseTunnelMTU else maxTargetMTU);
            candidates = filter (\<lambda>m. m \<le> maxT) defaultProbeMilestones;
            confirmed = (if initialMTU < baseTunnelMTU then baseTunnelMTU else initialMTU);
            startIdx = prober_startIdx candidates confirmed
        in \<lparr>pp_state = (if startIdx \<ge> length candidates then DplpmtudStateSearchComplete
                        else DplpmtudStateSearching),
            pp_milestones = candidates, pp_currentIndex = startIdx,
            pp_confirmedMTU = confirmed, pp_maxTargetMTU = maxT, pp_failedAttempts = 0,
            pp_manualOverride = False, pp_armed = True\<rparr>)"

definition prober_Arm :: "peerMTUProber \<Rightarrow> peerMTUProber" where
  "prober_Arm p = p\<lparr>pp_armed := True\<rparr>"

definition prober_NextProbeMTU :: "peerMTUProber \<Rightarrow> int option" where
  "prober_NextProbeMTU p =
     (if \<not> pp_armed p \<or> pp_state p \<noteq> DplpmtudStateSearching \<or>
         pp_currentIndex p \<ge> length (pp_milestones p) then None
      else Some (pp_milestones p ! pp_currentIndex p))"

text \<open>The result is the prober and \<^verbatim>\<open>(mtuChanged, newMTU, searchDone)\<close>.\<close>

definition prober_RecordProbeResult ::
  "peerMTUProber \<Rightarrow> int \<Rightarrow> bool \<Rightarrow> peerMTUProber \<times> (bool \<times> int \<times> bool)" where
  "prober_RecordProbeResult p targetMTU success =
     (if pp_state p \<noteq> DplpmtudStateSearching then (p, (False, pp_confirmedMTU p, True))
      else if pp_currentIndex p \<ge> length (pp_milestones p) \<or>
              pp_milestones p ! pp_currentIndex p \<noteq> targetMTU then
        (p, (False, pp_confirmedMTU p, False))
      else if success then
        let mtuChanged = (targetMTU > pp_confirmedMTU p);
            p1 = p\<lparr>pp_failedAttempts := 0, pp_confirmedMTU := targetMTU,
                   pp_currentIndex := pp_currentIndex p + 1\<rparr>
        in if pp_currentIndex p1 \<ge> length (pp_milestones p1) then
             (p1\<lparr>pp_state := DplpmtudStateSearchComplete\<rparr>, (mtuChanged, pp_confirmedMTU p1, True))
           else (p1, (mtuChanged, pp_confirmedMTU p1, False))
      else
        let p1 = p\<lparr>pp_failedAttempts := pp_failedAttempts p + 1\<rparr>
        in if pp_failedAttempts p1 \<ge> maxDPLPMTUDProbesPerMilestone then
             (p1\<lparr>pp_state := DplpmtudStateSearchComplete\<rparr>, (False, pp_confirmedMTU p1, True))
           else (p1, (False, pp_confirmedMTU p1, False)))"

definition prober_ConfirmedMTU :: "peerMTUProber \<Rightarrow> int" where
  "prober_ConfirmedMTU p = pp_confirmedMTU p"

definition prober_State :: "peerMTUProber \<Rightarrow> dplpmtudState" where
  "prober_State p = pp_state p"

definition prober_Reset :: "peerMTUProber \<Rightarrow> peerMTUProber" where
  "prober_Reset p =
     (if pp_manualOverride p then p
      else p\<lparr>pp_state := DplpmtudStateSearching, pp_confirmedMTU := baseTunnelMTU,
             pp_currentIndex := 0, pp_failedAttempts := 0, pp_armed := False\<rparr>)"

section \<open>The probe packet\<close>

record echoProbePayload =
  ep_SessionSecretHash :: string
  ep_RequestID :: string
  ep_Timeout :: int
  ep_Padding :: string

text \<open>\<^verbatim>\<open>json.Marshal\<close> of the struct: fields in order, \<^verbatim>\<open>pad\<close> omitted when empty.\<close>

definition echoProbePayload_marshal :: "echoProbePayload \<Rightarrow> string" where
  "echoProbePayload_marshal r =
     CHR 0x7B # json_member ''session_secret_hash'' (json_quote (ep_SessionSecretHash r)) @
     CHR '','' # json_member ''req_id'' (json_quote (ep_RequestID r)) @
     CHR '','' # json_member ''timeout'' (int_str (ep_Timeout r)) @
     (if ep_Padding r = [] then [] else CHR '','' # json_member ''pad'' (json_quote (ep_Padding r))) @
     [CHR 0x7D]"

text \<open>The request with \<open>n\<close> bytes of padding, all of them \<^verbatim>\<open>A\<close>.\<close>

definition with_padding :: "echoProbePayload \<Rightarrow> nat \<Rightarrow> echoProbePayload" where
  "with_padding r n = r\<lparr>ep_Padding := replicate n (CHR ''A'')\<rparr>"

definition padded_length :: "echoProbePayload \<Rightarrow> nat \<Rightarrow> nat" where
  "padded_length r n = length (echoProbePayload_marshal (with_padding r n))"

lemma json_escape_replicate_A: "json_escape (replicate n (CHR ''A'')) = replicate n (CHR ''A'')"
  by (rule json_escape_plain) (simp add: list_all_iff json_plain_def char_in_def)

lemma json_quote_pad: "length (json_quote ''pad'') = 5"
  by (simp add: json_quote_def json_escape_plain json_plain_def char_in_def)

lemma padded_length_eq:
  "padded_length r n =
     length (echoProbePayload_marshal (r\<lparr>ep_Padding := []\<rparr>)) + (if n = 0 then 0 else n + 9)"
  using json_quote_pad
  by (auto simp: padded_length_def echoProbePayload_marshal_def with_padding_def json_member_def json_quote_def
      json_escape_replicate_A)

text \<open>The two loops: one byte of padding more while too short, one less while too long.\<close>

function pad_grow :: "echoProbePayload \<Rightarrow> int \<Rightarrow> nat \<Rightarrow> nat" where
  "pad_grow r target n = (if int (padded_length r n) < target then pad_grow r target (n + 1) else n)"
  by pat_completeness auto
termination
  by (relation "measure (\<lambda>(r, target, n). nat (target - int (padded_length r n)))")
    (auto simp: padded_length_eq)

declare pad_grow.simps [simp del]

fun pad_shrink :: "echoProbePayload \<Rightarrow> int \<Rightarrow> nat \<Rightarrow> nat" where
  "pad_shrink r target 0 = 0"
| "pad_shrink r target (Suc n) =
     (if int (padded_length r (Suc n)) > target then pad_shrink r target n else Suc n)"

definition buildPaddedEchoPayload :: "string \<Rightarrow> string \<Rightarrow> int \<Rightarrow> int \<Rightarrow> int \<Rightarrow> string" where
  "buildPaddedEchoPayload secretHash reqID timeoutMs targetPacketSize ipHeaderLen =
     (let t0 = targetPacketSize - ipHeaderLen - 8;
          targetPayloadLen = (if t0 < 64 then 64 else t0);
          req = \<lparr>ep_SessionSecretHash = secretHash, ep_RequestID = reqID, ep_Timeout = timeoutMs,
                 ep_Padding = []\<rparr>;
          base = echoProbePayload_marshal req
      in if int (length base) \<ge> targetPayloadLen then base
         else
           let neededPad = targetPayloadLen - int (length base) - 9
           in if neededPad < 0 then base
              else echoProbePayload_marshal
                     (with_padding req (pad_shrink req targetPayloadLen
                        (pad_grow req targetPayloadLen (nat neededPad)))))"

section \<open>Runs of the prober\<close>

text \<open>The operations that change the prober, in any order the pinger may call them.\<close>

datatype prober_op = OpArm | OpRecord int bool | OpReset

fun prober_step :: "peerMTUProber \<Rightarrow> prober_op \<Rightarrow> peerMTUProber" where
  "prober_step p OpArm = prober_Arm p"
| "prober_step p (OpRecord target success) = fst (prober_RecordProbeResult p target success)"
| "prober_step p OpReset = prober_Reset p"

lemmas prober_defs = prober_Arm_def prober_RecordProbeResult_def prober_Reset_def prober_NextProbeMTU_def
  baseTunnelMTU_def minTunnelMTU_def maxDPLPMTUDProbesPerMilestone_def

definition prober_inv :: "peerMTUProber \<Rightarrow> bool" where
  "prober_inv p =
     (if pp_manualOverride p then pp_state p = DplpmtudStateDisabled
      else pp_state p \<in> {DplpmtudStateSearching, DplpmtudStateSearchComplete} \<and>
        1280 \<le> pp_confirmedMTU p \<and> 1280 \<le> pp_maxTargetMTU p \<and>
        pp_milestones p = filter (\<lambda>m. m \<le> pp_maxTargetMTU p) defaultProbeMilestones \<and>
        (pp_state p = DplpmtudStateSearching \<longrightarrow>
           pp_failedAttempts p < 2 \<and>
           (\<forall>m \<in> set (drop (pp_currentIndex p) (pp_milestones p)). pp_confirmedMTU p < m)))"

text \<open>What every operation keeps: the mode, the limit, and the confirmed MTU below the limit.\<close>

definition prober_keeps :: "peerMTUProber \<Rightarrow> peerMTUProber \<Rightarrow> bool" where
  "prober_keeps p q =
     (pp_manualOverride q = pp_manualOverride p \<and> pp_maxTargetMTU q = pp_maxTargetMTU p \<and>
      (if pp_manualOverride p then pp_confirmedMTU q = pp_confirmedMTU p
       else 1280 \<le> pp_confirmedMTU p \<longrightarrow>
         1280 \<le> pp_confirmedMTU q \<and> pp_confirmedMTU q \<le> max (pp_confirmedMTU p) (pp_maxTargetMTU p)))"

lemma milestones_strict: "sorted_wrt (<) (filter P defaultProbeMilestones)"
  by (rule sorted_wrt_filter) (simp add: defaultProbeMilestones_def)

lemma sorted_milestones: "sorted (filter P defaultProbeMilestones)"
  using milestones_strict by (rule strict_sorted_imp_sorted)

lemma milestones_gt_base: "m \<in> set defaultProbeMilestones \<Longrightarrow> 1280 < m"
  by (auto simp: defaultProbeMilestones_def)

lemma length_milestones: "length (filter P defaultProbeMilestones) \<le> 4"
  using length_filter_le [of P defaultProbeMilestones] by (simp add: defaultProbeMilestones_def)

lemma prober_startIdx_takeWhile:
  "sorted ms \<Longrightarrow> prober_startIdx ms c = length (takeWhile (\<lambda>m. m \<le> c) ms)"
proof (induction ms rule: rev_induct)
  case Nil
  then show ?case by (simp add: prober_startIdx_def)
next
  case (snoc m ms)
  then have "prober_startIdx (ms @ [m]) c = (if m \<le> c then length ms + 1 else length (takeWhile (\<lambda>m. m \<le> c) ms))"
    by (simp add: prober_startIdx_def enumerate_append_eq sorted_append)
  moreover have "\<forall>x \<in> set ms. x \<le> m" using snoc.prems by (simp add: sorted_append)
  then have "takeWhile (\<lambda>m. m \<le> c) ms = ms" if "m \<le> c"
    using that by (auto simp: takeWhile_eq_all_conv)
  ultimately show ?case
    by (cases "m \<le> c") (auto simp: takeWhile_append takeWhile_eq_all_conv [THEN iffD2])
qed

lemma dropWhile_gt: "sorted ms \<Longrightarrow> m \<in> set (dropWhile (\<lambda>m. m \<le> c) ms) \<Longrightarrow> c < (m::int)"
  by (induction ms) (auto split: if_splits)

lemma drop_startIdx: "sorted ms \<Longrightarrow> drop (prober_startIdx ms c) ms = dropWhile (\<lambda>m. m \<le> c) ms"
  by (simp add: prober_startIdx_takeWhile dropWhile_eq_drop)

lemma prober_inv_new [go_inv]: "prober_inv (newPeerMTUProber initialMTU maxTargetMTU manualMTU)"
proof -
  have "c < m" if "m \<in> set (drop (prober_startIdx (filter P defaultProbeMilestones) c) (filter P defaultProbeMilestones))"
    for c m :: int and P
    using that dropWhile_gt [OF sorted_milestones] by (simp add: drop_startIdx sorted_milestones)
  then show ?thesis
    by (auto simp: prober_inv_def newPeerMTUProber_def Let_def baseTunnelMTU_def minTunnelMTU_def)
qed

text \<open>A success moves past a milestone above the confirmed MTU.\<close>

lemma prober_inv_Record [go_inv]:
  assumes inv: "prober_inv p"
  shows "prober_inv (fst (prober_RecordProbeResult p target success))"
proof (cases "success \<and> pp_state p = DplpmtudStateSearching \<and> pp_currentIndex p < length (pp_milestones p) \<and>
    pp_milestones p ! pp_currentIndex p = target")
  case False
  with inv show ?thesis by (auto simp: prober_inv_def prober_defs Let_def)
next
  case True
  let ?ms = "pp_milestones p" and ?i = "pp_currentIndex p"
  from True inv have man: "\<not> pp_manualOverride p" by (auto simp: prober_inv_def)
  with inv have "sorted_wrt (<) ?ms" by (simp add: prober_inv_def milestones_strict)
  moreover have split: "drop ?i ?ms = target # drop (Suc ?i) ?ms" using True by (auto simp: Cons_nth_drop_Suc)
  ultimately have "\<forall>m \<in> set (drop (Suc ?i) ?ms). target < m"
    by (metis sorted_wrt.simps(2) sorted_wrt_drop)
  moreover have "1280 < target"
    using True man inv nth_mem [of ?i ?ms] by (auto simp: prober_inv_def intro: milestones_gt_base)
  ultimately show ?thesis using True man inv
    by (auto simp: prober_inv_def prober_defs Let_def)
qed

lemma prober_inv_step [go_inv]: "prober_inv p \<Longrightarrow> prober_inv (prober_step p e)"
proof (cases e)
  case OpArm
  then show "prober_inv p \<Longrightarrow> ?thesis" by (auto simp: prober_inv_def prober_Arm_def)
next
  case (OpRecord target success)
  then show "prober_inv p \<Longrightarrow> ?thesis" by (simp add: prober_inv_Record)
next
  case OpReset
  then show "prober_inv p \<Longrightarrow> ?thesis"
    by (auto simp: prober_inv_def prober_Reset_def baseTunnelMTU_def minTunnelMTU_def intro: milestones_gt_base)
qed

lemma prober_keeps_step: "prober_inv p \<Longrightarrow> prober_keeps p (prober_step p e)"
proof (cases e)
  case (OpRecord target success)
  assume inv: "prober_inv p"
  have "target \<le> pp_maxTargetMTU p \<and> 1280 < target"
    if "\<not> pp_manualOverride p" "pp_currentIndex p < length (pp_milestones p)"
      "pp_milestones p ! pp_currentIndex p = target"
    using that inv nth_mem [of "pp_currentIndex p" "pp_milestones p"]
    by (auto simp: prober_inv_def intro: milestones_gt_base)
  with inv OpRecord show ?thesis
    by (auto simp: prober_keeps_def prober_defs Let_def prober_inv_def)
qed (auto simp: prober_keeps_def prober_defs prober_inv_def)

interpretation prober: preserving_machine prober_step prober_inv "\<lambda>_. True" prober_keeps
proof unfold_locales
  show "prober_inv s \<Longrightarrow> True \<Longrightarrow> prober_inv (prober_step s e)" for s e by (rule prober_inv_step)
  show "prober_keeps s s" for s by (simp add: prober_keeps_def)
  show "prober_keeps s t \<Longrightarrow> prober_keeps t u \<Longrightarrow> prober_keeps s u" for s t u
    by (auto simp: prober_keeps_def split: if_splits)
  show "prober_inv s \<Longrightarrow> True \<Longrightarrow> prober_keeps s (prober_step s e)" for s e by (rule prober_keeps_step)
qed

lemma prober_next_bounds:
  assumes "prober_inv p" "prober_NextProbeMTU p = Some m"
  shows "pp_confirmedMTU p < m \<and> m \<le> pp_maxTargetMTU p \<and> \<not> pp_manualOverride p"
proof -
  from assms(2) have i: "pp_currentIndex p < length (pp_milestones p)" "m = pp_milestones p ! pp_currentIndex p"
    "pp_state p = DplpmtudStateSearching"
    by (auto simp: prober_NextProbeMTU_def split: if_splits)
  with assms(1) have man: "\<not> pp_manualOverride p" by (auto simp: prober_inv_def)
  from i have "m \<in> set (drop (pp_currentIndex p) (pp_milestones p))" by (metis Cons_nth_drop_Suc list.set_intros(1))
  with i man assms(1) set_drop_subset [of "pp_currentIndex p" "pp_milestones p"] show ?thesis
    by (auto simp: prober_inv_def)
qed

subsection \<open>The search\<close>

text \<open>One probe of the search, answered or not.\<close>

definition prober_probe :: "peerMTUProber \<Rightarrow> bool \<Rightarrow> peerMTUProber" where
  "prober_probe p success =
     (case prober_NextProbeMTU p of
        None \<Rightarrow> p
      | Some m \<Rightarrow> fst (prober_RecordProbeResult p m success))"

definition searching :: "peerMTUProber \<Rightarrow> bool" where
  "searching p = (prober_NextProbeMTU p \<noteq> None)"

text \<open>The probes that may still be sent: two for each milestone left, less those that failed.\<close>

definition probes_left :: "peerMTUProber \<Rightarrow> nat" where
  "probes_left p =
     (if searching p then 2 * (length (pp_milestones p) - pp_currentIndex p) - pp_failedAttempts p else 0)"

lemma searchingD:
  "searching p \<Longrightarrow> pp_armed p \<and> pp_state p = DplpmtudStateSearching \<and>
     pp_currentIndex p < length (pp_milestones p) \<and>
     prober_NextProbeMTU p = Some (pp_milestones p ! pp_currentIndex p)"
  by (auto simp: searching_def prober_NextProbeMTU_def split: if_splits)

lemma searching_failed: "prober_inv p \<Longrightarrow> searching p \<Longrightarrow> pp_failedAttempts p < 2"
  by (auto simp: prober_inv_def dest: searchingD split: if_splits)

lemma prober_probe_rest: "\<not> searching p \<Longrightarrow> prober_probe p b = p"
  by (simp add: prober_probe_def searching_def)

lemma prober_inv_probe [go_inv]: "prober_inv p \<Longrightarrow> prober_inv (prober_probe p b)"
  by (auto simp: prober_probe_def prober_inv_Record split: option.splits)

text \<open>The four outcomes of a probe that is sent.\<close>

lemma prober_probe_searching:
  assumes "searching p"
  shows "prober_probe p b =
    (let i = pp_currentIndex p; ms = pp_milestones p in
     if b then p\<lparr>pp_failedAttempts := 0, pp_confirmedMTU := ms ! i, pp_currentIndex := i + 1,
                 pp_state := if i + 1 \<ge> length ms then DplpmtudStateSearchComplete else DplpmtudStateSearching\<rparr>
     else p\<lparr>pp_failedAttempts := pp_failedAttempts p + 1,
            pp_state := if pp_failedAttempts p + 1 \<ge> 2 then DplpmtudStateSearchComplete
                        else DplpmtudStateSearching\<rparr>)"
  using searchingD [OF assms]
  by (auto simp: prober_probe_def prober_RecordProbeResult_def maxDPLPMTUDProbesPerMilestone_def Let_def)

lemma probes_left_step:
  assumes inv: "prober_inv p" and busy: "searching p"
  shows "probes_left (prober_probe p b) < probes_left p"
proof -
  note s = searchingD [OF busy] and f = searching_failed [OF inv busy]
  have left: "probes_left p = 2 * (length (pp_milestones p) - pp_currentIndex p) - pp_failedAttempts p"
    using busy by (simp add: probes_left_def)
  show ?thesis
    unfolding prober_probe_searching [OF busy] left
    using s f by (cases b) (auto simp: probes_left_def searching_def prober_NextProbeMTU_def Let_def)
qed

interpretation search: resting_machine prober_probe prober_inv "\<lambda>_. True" searching probes_left
proof unfold_locales
  show "prober_inv s \<Longrightarrow> True \<Longrightarrow> prober_inv (prober_probe s e)" for s e by (rule prober_inv_probe)
  show "prober_inv s \<Longrightarrow> searching s \<Longrightarrow> 0 < probes_left s" for s
    using probes_left_step [of s] by fastforce
  show "prober_inv s \<Longrightarrow> \<not> searching s \<Longrightarrow> prober_probe s e = s" for s e by (rule prober_probe_rest)
  show "prober_inv s \<Longrightarrow> searching s \<Longrightarrow> True \<Longrightarrow> probes_left (prober_probe s e) < probes_left s" for s e
    by (rule probes_left_step)
qed

lemma probes_left_le: "prober_inv p \<Longrightarrow> probes_left p \<le> 8"
proof (cases "searching p")
  case True
  assume inv: "prober_inv p"
  with True have "pp_milestones p = filter (\<lambda>m. m \<le> pp_maxTargetMTU p) defaultProbeMilestones"
    by (auto simp: prober_inv_def dest: searchingD split: if_splits)
  then have "length (pp_milestones p) \<le> 4" by (metis length_milestones)
  with True show ?thesis unfolding probes_left_def by simp
qed (simp add: probes_left_def)

subsection \<open>The search on a path with a limit\<close>

text \<open>On a path that carries packets up to \<open>X\<close> bytes, a probe is answered iff it is that small.\<close>

definition path_probe :: "int \<Rightarrow> peerMTUProber \<Rightarrow> peerMTUProber" where
  "path_probe X p = prober_probe p (case prober_NextProbeMTU p of None \<Rightarrow> False | Some m \<Rightarrow> m \<le> X)"

text \<open>Where the search ends: the largest milestone left that the path carries.\<close>

definition search_goal :: "int \<Rightarrow> peerMTUProber \<Rightarrow> int" where
  "search_goal X p =
     (if searching p
      then Max (insert (pp_confirmedMTU p) {m \<in> set (drop (pp_currentIndex p) (pp_milestones p)). m \<le> X})
      else pp_confirmedMTU p)"

lemma search_goal_step:
  assumes inv: "prober_inv p"
  shows "search_goal X (path_probe X p) = search_goal X p"
proof (cases "searching p")
  case False
  then show ?thesis by (simp add: path_probe_def prober_probe_rest)
next
  case True
  let ?ms = "pp_milestones p" and ?i = "pp_currentIndex p"
  note s = searchingD [OF True] and f = searching_failed [OF inv True]
  from s inv have man: "\<not> pp_manualOverride p" by (auto simp: prober_inv_def)
  with inv have "sorted_wrt (<) ?ms" by (simp add: prober_inv_def milestones_strict)
  moreover have split: "drop ?i ?ms = (?ms ! ?i) # drop (Suc ?i) ?ms" using s by (simp add: Cons_nth_drop_Suc)
  ultimately have above: "\<forall>m \<in> set (drop (Suc ?i) ?ms). ?ms ! ?i < m"
    by (metis sorted_wrt.simps(2) sorted_wrt_drop)
  have conf: "pp_confirmedMTU p < ?ms ! ?i" using prober_next_bounds [OF inv] s by simp
  have probe: "path_probe X p = prober_probe p (?ms ! ?i \<le> X)" using s by (simp add: path_probe_def)
  show ?thesis
  proof (cases "?ms ! ?i \<le> X")
    case True
    let ?A = "{m \<in> set (drop (Suc ?i) ?ms). m \<le> X}"
    have "{m \<in> set (drop ?i ?ms). m \<le> X} = insert (?ms ! ?i) ?A" using True split by auto
    moreover have "Max (insert (pp_confirmedMTU p) (insert (?ms ! ?i) ?A)) = Max (insert (?ms ! ?i) ?A)"
      by (rule Max_eq_if) (use conf in auto)
    ultimately have "search_goal X p = Max (insert (?ms ! ?i) ?A)"
      using \<open>searching p\<close> by (simp add: search_goal_def)
    then show ?thesis
      unfolding probe prober_probe_searching [OF \<open>searching p\<close>]
      using True s by (simp add: search_goal_def searching_def prober_NextProbeMTU_def Let_def)
  next
    case False
    then have none: "{m \<in> set (drop ?i ?ms). m \<le> X} = {}" using above split by fastforce
    then have "search_goal X q = pp_confirmedMTU p"
      if "pp_milestones q = ?ms" "pp_currentIndex q = ?i" "pp_confirmedMTU q = pp_confirmedMTU p" for q
      using that unfolding search_goal_def by (simp only: none that) simp
    then show ?thesis
      unfolding probe prober_probe_searching [OF \<open>searching p\<close>] using False by (simp add: Let_def)
  qed
qed

interpretation path: resting_machine "\<lambda>p (_ :: unit). path_probe X p" prober_inv "\<lambda>_. True" searching probes_left
  for X
  by unfold_locales
    (auto simp: path_probe_def prober_inv_probe search.busy_work prober_probe_rest probes_left_step)

interpretation path_goal: preserving_machine "\<lambda>p (_ :: unit). path_probe X p" prober_inv "\<lambda>_. True"
    "\<lambda>p q. search_goal X q = search_goal X p"
  for X
  by unfold_locales (auto simp: search_goal_step)

lemma Max_insert_skip:
  fixes c :: "'a :: linorder"
  assumes "finite A" "B \<subseteq> A" "\<And>m. m \<in> A \<Longrightarrow> m \<le> c \<or> m \<in> B"
  shows "Max (insert c B) = Max (insert c A)"
  by (rule Max_eq_if) (use assms finite_subset in \<open>blast intro: order_refl\<close>)+

lemma new_prober_search_goal:
  "search_goal X (newPeerMTUProber initialMTU maxTargetMTU 0) =
     Max (insert (max 1280 initialMTU)
            {m \<in> set defaultProbeMilestones. m \<le> max 1280 maxTargetMTU \<and> m \<le> X})"
proof -
  let ?c = "max 1280 initialMTU" and ?t = "max 1280 maxTargetMTU"
  let ?ms = "filter (\<lambda>m. m \<le> ?t) defaultProbeMilestones"
  let ?i = "prober_startIdx ?ms ?c"
  have new: "newPeerMTUProber initialMTU maxTargetMTU 0 =
      \<lparr>pp_state = (if ?i \<ge> length ?ms then DplpmtudStateSearchComplete else DplpmtudStateSearching),
       pp_milestones = ?ms, pp_currentIndex = ?i, pp_confirmedMTU = ?c, pp_maxTargetMTU = ?t,
       pp_failedAttempts = 0, pp_manualOverride = False, pp_armed = True\<rparr>"
    by (simp add: newPeerMTUProber_def Let_def baseTunnelMTU_def minTunnelMTU_def max_def)
  have "drop ?i ?ms = [] \<longleftrightarrow> length ?ms \<le> ?i" by simp
  then have goal: "search_goal X (newPeerMTUProber initialMTU maxTargetMTU 0) =
      Max (insert ?c {m \<in> set (drop ?i ?ms). m \<le> X})"
    unfolding new by (simp add: search_goal_def searching_def prober_NextProbeMTU_def)
  have "set ?ms = set (takeWhile (\<lambda>m. m \<le> ?c) ?ms) \<union> set (dropWhile (\<lambda>m. m \<le> ?c) ?ms)"
    by (metis set_append takeWhile_dropWhile_id)
  then have "m \<le> ?c \<or> m \<in> set (dropWhile (\<lambda>m. m \<le> ?c) ?ms)" if "m \<in> set ?ms" for m
    using that by (auto dest: set_takeWhileD)
  then have "Max (insert ?c {m \<in> set (drop ?i ?ms). m \<le> X}) = Max (insert ?c {m \<in> set ?ms. m \<le> X})"
    unfolding drop_startIdx [OF sorted_milestones]
    by (intro Max_insert_skip) (simp, use set_dropWhileD [of _ "\<lambda>m. m \<le> ?c" ?ms] in blast, blast)
  then show ?thesis by (simp add: goal conj_assoc)
qed

subsection \<open>The probe packet\<close>

lemma pad_grow_stop: "target \<le> int (padded_length r n) \<Longrightarrow> pad_grow r target n = n"
  by (subst pad_grow.simps) simp

lemma pad_shrink_stop: "int (padded_length r n) \<le> target \<Longrightarrow> pad_shrink r target n = n"
  by (cases n) auto

text \<open>Every prober that its operations can produce.\<close>

lemma prober_run_bounds:
  "(let p = foldl prober_step (newPeerMTUProber initialMTU maxTargetMTU manualMTU) ops
    in if manualMTU > 0 then prober_ConfirmedMTU p = manualMTU \<and> prober_NextProbeMTU p = None
       else 1280 \<le> prober_ConfirmedMTU p \<and>
         prober_ConfirmedMTU p \<le> max 1280 (max initialMTU maxTargetMTU) \<and>
         (case prober_NextProbeMTU p of
            None \<Rightarrow> True
          | Some m \<Rightarrow> prober_ConfirmedMTU p < m \<and> m \<le> max 1280 maxTargetMTU))"
proof -
  let ?start = "newPeerMTUProber initialMTU maxTargetMTU manualMTU"
  let ?p = "foldl prober_step ?start ops"
  have all: "list_all (\<lambda>_. True) ops" by (simp add: list_all_iff)
  note inv = prober.run_inv [OF prober_inv_new all, of initialMTU maxTargetMTU manualMTU]
  note keeps = prober.run_rel [OF prober_inv_new all, of initialMTU maxTargetMTU manualMTU]
  have new: "pp_manualOverride ?start = (manualMTU > 0)"
    "pp_confirmedMTU ?start = (if manualMTU > 0 then manualMTU else max 1280 initialMTU)"
    "pp_maxTargetMTU ?start = (if manualMTU > 0 then manualMTU else max 1280 maxTargetMTU)"
    by (auto simp: newPeerMTUProber_def Let_def baseTunnelMTU_def minTunnelMTU_def)
  show ?thesis
  proof (cases "manualMTU > 0")
    case True
    with keeps new have "pp_manualOverride ?p" "pp_confirmedMTU ?p = manualMTU"
      by (auto simp: prober_keeps_def)
    moreover from this(1) inv have "prober_NextProbeMTU ?p = None"
      by (simp add: prober_NextProbeMTU_def prober_inv_def)
    ultimately show ?thesis using True by (simp only: Let_def prober_ConfirmedMTU_def if_True simp_thms)
  next
    case False
    with keeps new have "1280 \<le> pp_confirmedMTU ?p"
      "pp_confirmedMTU ?p \<le> max (max 1280 initialMTU) (max 1280 maxTargetMTU)"
      "pp_maxTargetMTU ?p = max 1280 maxTargetMTU"
      by (auto simp: prober_keeps_def)
    moreover have "case prober_NextProbeMTU ?p of None \<Rightarrow> True
        | Some m \<Rightarrow> pp_confirmedMTU ?p < m \<and> m \<le> pp_maxTargetMTU ?p"
      using prober_next_bounds [OF inv] by (simp split: option.split)
    moreover have "max (max 1280 initialMTU) (max 1280 maxTargetMTU) = max 1280 (max initialMTU maxTargetMTU)"
      by (simp add: max_def)
    ultimately show ?thesis
      using False by (simp only: Let_def prober_ConfirmedMTU_def if_False simp_thms)
  qed
qed

section \<open>Properties\<close>

text \<open>
  Whatever the pinger does with the prober, a manual MTU stays locked and is never probed;
  otherwise the confirmed MTU stays between the IPv6 minimum and the limit, and the next probe
  is always above the confirmed MTU and never above the limit.
\<close>

theorem prober_confirmed_bounds:
  "(let p = foldl prober_step (newPeerMTUProber initialMTU maxTargetMTU manualMTU) ops
    in if manualMTU > 0 then prober_ConfirmedMTU p = manualMTU \<and> prober_NextProbeMTU p = None
       else 1280 \<le> prober_ConfirmedMTU p \<and>
         prober_ConfirmedMTU p \<le> max 1280 (max initialMTU maxTargetMTU) \<and>
         (case prober_NextProbeMTU p of
            None \<Rightarrow> True
          | Some m \<Rightarrow> prober_ConfirmedMTU p < m \<and> m \<le> max 1280 maxTargetMTU))"
  by (rule prober_run_bounds)

text \<open>
  The search ends: from any state the prober can be in, after eight probes (two for each of
  the four milestones), whatever their results, there is no further probe to send.
\<close>

theorem prober_search_terminates:
  "prober_NextProbeMTU
     (foldl prober_probe
        (foldl prober_step (newPeerMTUProber initialMTU maxTargetMTU manualMTU) ops)
        (b1 # b2 # b3 # b4 # b5 # b6 # b7 # b8 # bs)) = None"
proof -
  let ?p = "foldl prober_step (newPeerMTUProber initialMTU maxTargetMTU manualMTU) ops"
  have inv: "prober_inv ?p"
    by (rule prober.run_inv) (auto simp: prober_inv_new list_all_iff)
  have "\<not> searching (foldl prober_probe ?p (b1 # b2 # b3 # b4 # b5 # b6 # b7 # b8 # bs))"
    by (rule search.run_rests [OF inv]) (use probes_left_le [OF inv] in \<open>auto simp: list_all_iff\<close>)
  then show ?thesis by (simp only: searching_def simp_thms)
qed

text \<open>
  C7. On a path that carries packets up to \<open>X\<close> bytes, the search confirms the largest milestone
  that is within both \<open>X\<close> and the limit, unless the MTU it starts from is larger; and it
  takes at most eight probes.
\<close>

theorem prober_finds_path_mtu:
  "prober_ConfirmedMTU ((path_probe X ^^ (8 + n)) (newPeerMTUProber initialMTU maxTargetMTU 0)) =
     Max (insert (max 1280 initialMTU)
            {m \<in> set defaultProbeMilestones. m \<le> max 1280 maxTargetMTU \<and> m \<le> X})"
proof -
  let ?p = "newPeerMTUProber initialMTU maxTargetMTU 0"
  have fold: "(path_probe X ^^ k) q = foldl (\<lambda>p (_ :: unit). path_probe X p) q (replicate k ())" for k q
    by (induction k arbitrary: q) (simp_all add: funpow_Suc_right del: funpow.simps(2))
  let ?q = "foldl (\<lambda>p (_ :: unit). path_probe X p) ?p (replicate (8 + n) ())"
  have "\<not> searching ?q"
    by (rule path.run_rests [OF prober_inv_new])
      (use probes_left_le [OF prober_inv_new, of initialMTU maxTargetMTU 0] in \<open>auto simp: list_all_iff\<close>)
  moreover have "search_goal X ?q = search_goal X ?p"
    by (rule path_goal.run_rel [OF prober_inv_new]) (simp add: list_all_iff)
  ultimately have "pp_confirmedMTU ?q = search_goal X ?p" by (simp only: search_goal_def if_False)
  then show ?thesis unfolding fold by (simp only: new_prober_search_goal prober_ConfirmedMTU_def)
qed

text \<open>
  The length of the probe payload: exactly what makes the packet the target size, when the
  unpadded request is at least ten bytes shorter; otherwise the unpadded request.
\<close>

theorem buildPaddedEchoPayload_length:
  "(let base = length (echoProbePayload_marshal
         \<lparr>ep_SessionSecretHash = h, ep_RequestID = rid, ep_Timeout = t, ep_Padding = []\<rparr>);
        target = max 64 (psize - hdr - 8)
    in int (length (buildPaddedEchoPayload h rid t psize hdr)) =
       (if int base + 10 \<le> target then target else int base))"
proof -
  let ?r = "\<lparr>ep_SessionSecretHash = h, ep_RequestID = rid, ep_Timeout = t, ep_Padding = []\<rparr>"
  define b where "b = length (echoProbePayload_marshal ?r)"
  define T where "T = max 64 (psize - hdr - 8)"
  have len: "padded_length ?r n = b + (if n = 0 then 0 else n + 9)" for n
    by (simp add: padded_length_eq b_def)
  have build: "int (length (buildPaddedEchoPayload h rid t psize hdr)) =
      (if T - int b - 9 < 0 then int b
       else int (padded_length ?r (pad_shrink ?r T (pad_grow ?r T (nat (T - int b - 9))))))"
    by (auto simp: buildPaddedEchoPayload_def Let_def padded_length_def T_def b_def max_def)
  consider "T < int b + 9" | "T = int b + 9" | "int b + 10 \<le> T" by linarith
  then have "int (length (buildPaddedEchoPayload h rid t psize hdr)) = (if int b + 10 \<le> T then T else int b)"
  proof cases
    case 1
    then show ?thesis by (simp add: build)
  next
    case 2
    then have "pad_grow ?r T 0 = 1" by (subst pad_grow.simps) (simp add: len pad_grow_stop)
    with 2 have "pad_shrink ?r T (pad_grow ?r T 0) = 0" by (simp add: len)
    with 2 show ?thesis by (simp add: build len)
  next
    case 3
    then have "int (padded_length ?r (nat (T - int b - 9))) = T" by (simp add: len)
    with 3 show ?thesis by (simp add: build pad_grow_stop pad_shrink_stop)
  qed
  then show ?thesis by (simp only: Let_def b_def T_def)
qed

end
