(* ===== verification/Tun_Device.thy ===== *)
theory Tun_Device
  imports Net_Addr
begin

text \<open>
  The userspace network device (\<^verbatim>\<open>internal/tunnet/config.go\<close> and the device half of
  \<^verbatim>\<open>internal/tunnet/tun.go\<close>): its options, its creation on a gVisor stack, the packets
  WireGuard writes into it, its MTU and its end.

  The gVisor stack is not part of the repository. What the client asks of it and may see
  refused is the record \<open>stack_lib\<close>, an argument of the definitions that use it.
\<close>

section \<open>Options\<close>

record buf_range =
  br_Min :: int
  br_Default :: int
  br_Max :: int

record tun_options =
  to_CongestionControl :: string
  to_SendBufferSize :: buf_range
  to_ReceiveBufferSize :: buf_range

text \<open>gVisor's own constants are arguments: \<^verbatim>\<open>tcp.MinBufferSize\<close> and the two defaults.\<close>

record tcp_consts =
  tc_MinBufferSize :: int
  tc_DefaultSendBufferSize :: int
  tc_DefaultReceiveBufferSize :: int

definition defaultTCPTXBufMaxSize :: int where
  "defaultTCPTXBufMaxSize = 6 * 2 ^ 20"

definition defaultTCPRXBufMaxSize :: int where
  "defaultTCPRXBufMaxSize = 8 * 2 ^ 20"

definition defaultOptions :: "tcp_consts \<Rightarrow> tun_options" where
  "defaultOptions tc =
     \<lparr>to_CongestionControl = ''cubic'',
      to_SendBufferSize = \<lparr>br_Min = tc_MinBufferSize tc, br_Default = tc_DefaultSendBufferSize tc,
                           br_Max = defaultTCPTXBufMaxSize\<rparr>,
      to_ReceiveBufferSize = \<lparr>br_Min = tc_MinBufferSize tc, br_Default = tc_DefaultReceiveBufferSize tc,
                              br_Max = defaultTCPRXBufMaxSize\<rparr>\<rparr>"

text \<open>An option is a function on the options; a nil option is \<open>None\<close>.\<close>

type_synonym tun_option = "(tun_options \<Rightarrow> tun_options) option"

definition withCongestionControl :: "string \<Rightarrow> tun_option" where
  "withCongestionControl cc = Some (\<lambda>opts. opts\<lparr>to_CongestionControl := cc\<rparr>)"

definition withBufferSizes :: "buf_range \<Rightarrow> buf_range \<Rightarrow> tun_option" where
  "withBufferSizes tx rx =
     Some (\<lambda>opts. let o1 = (if br_Max tx > 0 then opts\<lparr>to_SendBufferSize := tx\<rparr> else opts)
                  in if br_Max rx > 0 then o1\<lparr>to_ReceiveBufferSize := rx\<rparr> else o1)"

definition apply_option :: "tun_options \<Rightarrow> tun_option \<Rightarrow> tun_options" where
  "apply_option cfg opt = (case opt of None \<Rightarrow> cfg | Some f \<Rightarrow> f cfg)"

record stack_lib =
  sk_setSACK :: bool
  sk_setCC :: "string \<Rightarrow> bool"
  sk_setSendBuf :: "buf_range \<Rightarrow> bool"
  sk_setRecvBuf :: "buf_range \<Rightarrow> bool"
  sk_createNIC :: bool
  sk_addAddress :: "netip_addr \<Rightarrow> bool"
  sk_setNICMTU :: "32 word \<Rightarrow> bool"

datatype tun_error =
    CouldNotEnableSACK
  | SetCongestionControl string
  | SetSendBuffer
  | SetReceiveBuffer
  | CreateNIC
  | AddProtocolAddress netip_addr
  | SetNICMTU int
  | EAFNOSUPPORT
  | SliceOutOfRange
  | CloseOfClosedTun

text \<open>\<open>None\<close> is the nil error.\<close>

definition applyOptions :: "stack_lib \<Rightarrow> tun_options \<Rightarrow> tun_error option" where
  "applyOptions sk opts =
     (if to_CongestionControl opts \<noteq> [] \<and> \<not> sk_setCC sk (to_CongestionControl opts)
      then Some (SetCongestionControl (to_CongestionControl opts))
      else if br_Max (to_SendBufferSize opts) > 0 \<and> \<not> sk_setSendBuf sk (to_SendBufferSize opts)
      then Some SetSendBuffer
      else if br_Max (to_ReceiveBufferSize opts) > 0 \<and> \<not> sk_setRecvBuf sk (to_ReceiveBufferSize opts)
      then Some SetReceiveBuffer
      else None)"

section \<open>The device\<close>

datatype tun_event = EventUp | EventMTUUpdate

datatype net_proto = IPv4Proto | IPv6Proto

text \<open>
  \<open>nt_mtu\<close> is the atomic int32, \<open>nt_epMTU\<close> and \<open>nt_nicMTU\<close> are what the endpoint and the NIC
  were told; \<open>nt_injected\<close> collects the packets handed to the stack.
\<close>

record netTun =
  nt_mtu :: "32 word"
  nt_epMTU :: "32 word"
  nt_nicMTU :: "32 word"
  nt_events :: "tun_event list"
  nt_dnsServers :: "netip_addr list"
  nt_hasV4 :: bool
  nt_hasV6 :: bool
  nt_addresses :: "netip_addr list"
  nt_routes :: "net_proto list"
  nt_injected :: "(net_proto \<times> byte list) list"
  nt_closed :: bool

definition tun_events_cap :: nat where
  "tun_events_cap = 10"

text \<open>The loop over the local addresses: the first refusal ends it.\<close>

fun tun_add_addresses :: "stack_lib \<Rightarrow> netTun \<Rightarrow> netip_addr list \<Rightarrow> tun_error + netTun" where
  "tun_add_addresses sk dev [] = Inr dev"
| "tun_add_addresses sk dev (ip # ips) =
     (if \<not> sk_addAddress sk ip then Inl (AddProtocolAddress ip)
      else
        let dev1 = dev\<lparr>nt_addresses := nt_addresses dev @ [ip]\<rparr>;
            dev2 = (if addr_Is4 ip then dev1\<lparr>nt_hasV4 := True\<rparr>
                    else if addr_Is6 ip then dev1\<lparr>nt_hasV6 := True\<rparr> else dev1)
        in tun_add_addresses sk dev2 ips)"

text \<open>The second component says whether the deferred clean-up closed the stack.\<close>

definition createNetTUN ::
  "stack_lib \<Rightarrow> tcp_consts \<Rightarrow> netip_addr list \<Rightarrow> netip_addr list \<Rightarrow> int \<Rightarrow> tun_option list \<Rightarrow>
   (tun_error + netTun) \<times> bool" where
  "createNetTUN sk tc localAddresses dnsServers mtu opts =
     (let dev = \<lparr>nt_mtu = of_int mtu, nt_epMTU = of_int mtu, nt_nicMTU = of_int mtu, nt_events = [],
                 nt_dnsServers = dnsServers, nt_hasV4 = False, nt_hasV6 = False, nt_addresses = [],
                 nt_routes = [], nt_injected = [], nt_closed = False\<rparr>
      in if \<not> sk_setSACK sk then (Inl CouldNotEnableSACK, True)
         else
           let cfg = foldl apply_option (defaultOptions tc) opts
           in case applyOptions sk cfg of
                Some e \<Rightarrow> (Inl e, True)
              | None \<Rightarrow>
                  (if \<not> sk_createNIC sk then (Inl CreateNIC, True)
                   else case tun_add_addresses sk dev localAddresses of
                     Inl e \<Rightarrow> (Inl e, True)
                   | Inr dev1 \<Rightarrow>
                       (Inr (dev1\<lparr>nt_routes := (if nt_hasV4 dev1 then [IPv4Proto] else []) @
                                               (if nt_hasV6 dev1 then [IPv6Proto] else []),
                                  nt_events := [EventUp]\<rparr>), False)))"

text \<open>
  \<^verbatim>\<open>Write\<close>: the packets of a batch from \<open>offset\<close> on, dispatched on the IP version. A slice
  bound past the end of a buffer is a run-time panic.
\<close>

fun netTun_write_loop :: "netTun \<Rightarrow> byte list list \<Rightarrow> nat \<Rightarrow> netTun \<times> tun_error option" where
  "netTun_write_loop dev [] offset = (dev, None)"
| "netTun_write_loop dev (buf # bufs) offset =
     (if offset > length buf then (dev, Some SliceOutOfRange)
      else
        let packet = drop offset buf
        in if packet = [] then netTun_write_loop dev bufs offset
           else if drop_bit 4 (packet ! 0) = 4 then
             netTun_write_loop (dev\<lparr>nt_injected := nt_injected dev @ [(IPv4Proto, packet)]\<rparr>) bufs offset
           else if drop_bit 4 (packet ! 0) = 6 then
             netTun_write_loop (dev\<lparr>nt_injected := nt_injected dev @ [(IPv6Proto, packet)]\<rparr>) bufs offset
           else (dev, Some EAFNOSUPPORT))"

definition netTun_Write :: "netTun \<Rightarrow> byte list list \<Rightarrow> nat \<Rightarrow> netTun \<times> (tun_error + nat)" where
  "netTun_Write dev bufs offset =
     (case netTun_write_loop dev bufs offset of
        (dev', Some e) \<Rightarrow> (dev', Inl e)
      | (dev', None) \<Rightarrow> (dev', Inr (length bufs)))"

definition netTun_MTU :: "netTun \<Rightarrow> int" where
  "netTun_MTU dev = sint (nt_mtu dev)"

text \<open>
  \<^verbatim>\<open>SetMTU\<close>: the device and the endpoint are changed before the NIC may refuse. The event is
  dropped when the channel is full.
\<close>

definition netTun_SetMTU :: "stack_lib \<Rightarrow> netTun \<Rightarrow> int \<Rightarrow> netTun \<times> tun_error option" where
  "netTun_SetMTU sk dev mtu =
     (let dev1 = dev\<lparr>nt_mtu := of_int mtu, nt_epMTU := of_int mtu\<rparr>
      in if \<not> sk_setNICMTU sk (of_int mtu) then (dev1, Some (SetNICMTU mtu))
         else
           let dev2 = dev1\<lparr>nt_nicMTU := of_int mtu\<rparr>
           in (if length (nt_events dev2) < tun_events_cap
               then dev2\<lparr>nt_events := nt_events dev2 @ [EventMTUUpdate]\<rparr> else dev2, None))"

definition netTun_BatchSize :: nat where
  "netTun_BatchSize = 1"

text \<open>\<^verbatim>\<open>Close\<close> closes two channels; closing them again is a run-time panic.\<close>

definition netTun_Close :: "netTun \<Rightarrow> tun_error + netTun" where
  "netTun_Close dev = (if nt_closed dev then Inl CloseOfClosedTun else Inr (dev\<lparr>nt_closed := True\<rparr>))"

section \<open>Lemmas\<close>

text \<open>The packets of a batch that reach the stack.\<close>

definition packet_proto :: "byte list \<Rightarrow> net_proto option" where
  "packet_proto p =
     (if p = [] then None
      else if drop_bit 4 (p ! 0) = 4 then Some IPv4Proto
      else if drop_bit 4 (p ! 0) = 6 then Some IPv6Proto else None)"

definition writable :: "nat \<Rightarrow> byte list \<Rightarrow> bool" where
  "writable offset buf = (offset \<le> length buf \<and> (drop offset buf = [] \<or> packet_proto (drop offset buf) \<noteq> None))"

definition packets_of :: "nat \<Rightarrow> byte list list \<Rightarrow> (net_proto \<times> byte list) list" where
  "packets_of offset bufs =
     List.map_filter (\<lambda>buf. map_option (\<lambda>pr. (pr, drop offset buf)) (packet_proto (drop offset buf))) bufs"

lemma packets_of_simps [simp]:
  "packets_of offset [] = []"
  "packets_of offset (buf # bufs) =
     (case packet_proto (drop offset buf) of None \<Rightarrow> [] | Some pr \<Rightarrow> [(pr, drop offset buf)]) @
     packets_of offset bufs"
  by (simp_all add: packets_of_def List.map_filter_def split: option.splits)

lemma netTun_write_loop_eq:
  "netTun_write_loop dev bufs offset =
     (dev\<lparr>nt_injected := nt_injected dev @ packets_of offset (takeWhile (writable offset) bufs)\<rparr>,
      case dropWhile (writable offset) bufs of
        [] \<Rightarrow> None
      | b # _ \<Rightarrow> Some (if offset > length b then SliceOutOfRange else EAFNOSUPPORT))"
proof (induction dev bufs offset rule: netTun_write_loop.induct)
  case (1 dev offset)
  then show ?case by simp
next
  case (2 dev buf bufs offset)
  consider "length buf < offset" | "offset \<le> length buf" "drop offset buf = []"
    | "offset \<le> length buf" "drop offset buf \<noteq> []" "drop_bit 4 (drop offset buf ! 0) = 4"
    | "offset \<le> length buf" "drop offset buf \<noteq> []" "drop_bit 4 (drop offset buf ! 0) = 6"
    | "offset \<le> length buf" "drop offset buf \<noteq> []" "drop_bit 4 (drop offset buf ! 0) \<noteq> 4"
      "drop_bit 4 (drop offset buf ! 0) \<noteq> 6"
    by linarith
  then show ?case
    by cases (use 2 in \<open>simp_all add: writable_def packet_proto_def Let_def\<close>)
qed

lemma tun_add_addresses_eq:
  "tun_add_addresses sk dev ips =
     (case find (\<lambda>ip. \<not> sk_addAddress sk ip) ips of
        Some ip \<Rightarrow> Inl (AddProtocolAddress ip)
      | None \<Rightarrow> Inr (dev\<lparr>nt_addresses := nt_addresses dev @ ips,
                        nt_hasV4 := nt_hasV4 dev \<or> list_ex addr_Is4 ips,
                        nt_hasV6 := nt_hasV6 dev \<or> list_ex addr_Is6 ips\<rparr>))"
proof (induction ips arbitrary: dev)
  case (Cons ip ips)
  have "\<not> (addr_Is4 ip \<and> addr_Is6 ip)" by (cases ip) auto
  then show ?case by (auto simp: Cons Let_def split: option.splits)
qed simp

lemma sint_of_int_32: "0 \<le> i \<Longrightarrow> i < 2 ^ 31 \<Longrightarrow> sint (of_int i :: 32 word) = i"
  by (simp add: signed_of_int signed_take_bit_int_eq_self)

section \<open>Properties\<close>

text \<open>
  Writing a batch hands to the stack exactly the IPv4 and IPv6 packets that precede the
  first buffer that is neither, each under its own protocol and in order; the count is the
  whole batch exactly when there is no such buffer.
\<close>

theorem netTun_Write_correct:
  "netTun_Write dev bufs offset =
     (dev\<lparr>nt_injected := nt_injected dev @ packets_of offset (takeWhile (writable offset) bufs)\<rparr>,
      case dropWhile (writable offset) bufs of
        [] \<Rightarrow> Inr (length bufs)
      | b # _ \<Rightarrow> Inl (if offset > length b then SliceOutOfRange else EAFNOSUPPORT))"
  by (cases "dropWhile (writable offset) bufs")
    (simp_all add: netTun_Write_def netTun_write_loop_eq del: dropWhile_eq_Nil_conv)

text \<open>
  A device is created or an error is reported and the stack closed, never both; a created
  device carries exactly the given addresses, routes a family exactly when it has an address
  of it, and its three MTUs agree.
\<close>

theorem createNetTUN_correct:
  "(case createNetTUN sk tc ips dns mtu opts of
      (Inl e, closed) \<Rightarrow> closed
    | (Inr dev, closed) \<Rightarrow>
        \<not> closed \<and> nt_addresses dev = ips \<and> nt_dnsServers dev = dns \<and> nt_events dev = [EventUp] \<and>
        (IPv4Proto \<in> set (nt_routes dev) \<longleftrightarrow> (\<exists>ip. ip \<in> set ips \<and> addr_Is4 ip)) \<and>
        (IPv6Proto \<in> set (nt_routes dev) \<longleftrightarrow> (\<exists>ip. ip \<in> set ips \<and> addr_Is6 ip)) \<and>
        nt_mtu dev = nt_epMTU dev \<and> nt_mtu dev = nt_nicMTU dev)"
  by (auto simp: createNetTUN_def Let_def tun_add_addresses_eq list_ex_iff split: option.splits)

end
