(* ===== verification/UdpEcho.thy ===== *)
theory UdpEcho
  imports PeerMtu Tun_Device Api_Types
begin

text \<open>
  The UDP echo pinger (\<^verbatim>\<open>udpecho.go\<close>): the health of the tunnel, the round-trip statistics, the
  loop that waits for a response, and the pinger loop that also drives the path MTU search
  and keeps the MTU of the network stack in step with it.

  Time is an argument: each iteration of a loop is given what the clock, the socket and the
  context showed it. A wait that has not returned yet is \<open>None\<close>.
\<close>

section \<open>Health\<close>

definition maxConsecutiveEchoFailures :: nat where
  "maxConsecutiveEchoFailures = 12"

record udpEchoHealth =
  uh_ready :: bool
  uh_consecutiveFailures :: nat

datatype udpEchoHealthEvent = UdpEchoHealthy | UdpEchoStartupFailed | UdpEchoUnhealthy

text \<open>The event 0 is \<open>None\<close>; the second result is \<^verbatim>\<open>firstSuccess\<close>.\<close>

definition health_observe ::
  "udpEchoHealth \<Rightarrow> bool \<Rightarrow> udpEchoHealth \<times> udpEchoHealthEvent option \<times> bool" where
  "health_observe h matched =
     (if matched then
        (h\<lparr>uh_ready := True, uh_consecutiveFailures := 0\<rparr>, Some UdpEchoHealthy, \<not> uh_ready h)
      else if \<not> uh_ready h then (h, Some UdpEchoStartupFailed, False)
      else
        let h1 = h\<lparr>uh_consecutiveFailures := uh_consecutiveFailures h + 1\<rparr>
        in if uh_consecutiveFailures h1 \<ge> maxConsecutiveEchoFailures
           then (h1\<lparr>uh_consecutiveFailures := 0\<rparr>, Some UdpEchoUnhealthy, False)
           else (h1, None, False))"

definition newHealth :: udpEchoHealth where
  "newHealth = \<lparr>uh_ready = False, uh_consecutiveFailures = 0\<rparr>"

section \<open>Statistics\<close>

definition udpEchoSummaryInterval :: duration where
  "udpEchoSummaryInterval = 30 * second"

record udpEchoStats =
  us_windowStart :: "instant option"
  us_count :: int
  us_total :: duration
  us_min :: duration
  us_max :: duration

definition newStats :: "instant option \<Rightarrow> udpEchoStats" where
  "newStats w = \<lparr>us_windowStart = w, us_count = 0, us_total = 0, us_min = 0, us_max = 0\<rparr>"

definition stats_observe :: "udpEchoStats \<Rightarrow> instant \<Rightarrow> duration \<Rightarrow> udpEchoStats \<times> bool" where
  "stats_observe s now rtt =
     (let w = (case us_windowStart s of None \<Rightarrow> now | Some w \<Rightarrow> w);
          s1 = \<lparr>us_windowStart = Some w, us_count = us_count s + 1, us_total = us_total s + rtt,
                us_min = (if us_min s = 0 \<or> rtt < us_min s then rtt else us_min s),
                us_max = (if rtt > us_max s then rtt else us_max s)\<rparr>
      in (s1, now - w \<ge> udpEchoSummaryInterval))"

text \<open>\<^verbatim>\<open>Duration.Round\<close> for a positive unit, halves away from zero.\<close>

definition duration_Round :: "duration \<Rightarrow> duration \<Rightarrow> duration" where
  "duration_Round d m =
     (let r = \<bar>d\<bar> mod m; q = (if r + r < m then \<bar>d\<bar> - r else \<bar>d\<bar> + m - r)
      in if d < 0 then - q else q)"

record echo_summary =
  sum_samples :: int
  sum_average :: duration
  sum_minimum :: duration
  sum_maximum :: duration

text \<open>\<open>None\<close> is the run-time panic of a division by zero samples.\<close>

definition stats_logAndReset :: "udpEchoStats \<Rightarrow> instant \<Rightarrow> (echo_summary \<times> udpEchoStats) option" where
  "stats_logAndReset s now =
     (if us_count s = 0 then None
      else Some (\<lparr>sum_samples = us_count s,
                  sum_average = duration_Round (us_total s div us_count s) millisecond,
                  sum_minimum = duration_Round (us_min s) millisecond,
                  sum_maximum = duration_Round (us_max s) millisecond\<rparr>,
                 newStats (Some now)))"

section \<open>Waiting for a response\<close>

text \<open>
  \<^verbatim>\<open>parseUDPEchoResponse\<close>: the raw \<^verbatim>\<open>req_id\<close> is the last member with that key, \<^verbatim>\<open>null\<close> included. The
  value of a string, or the literal of a number; \<open>None\<close> is an error.
\<close>

definition parseUDPEchoResponse :: "string \<Rightarrow> string option" where
  "parseUDPEchoResponse data =
     (case json_unmarshal data of
        Some (JObj ms) \<Rightarrow>
          (case filter (\<lambda>(k, v). equalFold k ''req_id'') ms of
             [] \<Rightarrow> None
           | m # rest \<Rightarrow>
               (case snd (last (m # rest)) of
                  JStr s \<Rightarrow> Some s
                | JNum x \<Rightarrow> Some x
                | _ \<Rightarrow> None))
      | _ \<Rightarrow> None)"

definition steadyStateEchoDeadline :: duration where
  "steadyStateEchoDeadline = 3 * second"

definition startupRetryInterval :: duration where
  "startupRetryInterval = 3 * second"

definition startupCeiling :: duration where
  "startupCeiling = 95 * second"

datatype echo_read = EchoData string | EchoTimeout | EchoReadError

text \<open>
  One iteration: the clock at its top, whether the context is done before the read, the
  read, whether the context is done after it, and whether a resend succeeds.
\<close>

record echo_iter =
  ei_now :: instant
  ei_ctxErr :: bool
  ei_read :: echo_read
  ei_ctxErrAfter :: bool
  ei_resendOk :: bool

text \<open>The read deadlines that were set, and the number of resends.\<close>

record wait_trace =
  wt_deadlines :: "instant list"
  wt_resends :: nat

fun waitForEchoResponse_loop ::
  "instant \<Rightarrow> duration \<Rightarrow> string \<Rightarrow> bool \<Rightarrow> bool \<Rightarrow> wait_trace \<Rightarrow> echo_iter list \<Rightarrow> (bool \<times> wait_trace) option" where
  "waitForEchoResponse_loop ceiling retryInterval wantID resend isStartup tr [] = None"
| "waitForEchoResponse_loop ceiling retryInterval wantID resend isStartup tr (i # iters) =
     (if \<not> ei_now i < ceiling then Some (False, tr)
      else
        let deadline = (if ei_now i + retryInterval > ceiling then ceiling else ei_now i + retryInterval);
            tr1 = tr\<lparr>wt_deadlines := wt_deadlines tr @ [deadline]\<rparr>
        in if ei_ctxErr i then Some (False, tr1)
           else case ei_read i of
               EchoReadError \<Rightarrow> Some (False, tr1)
             | EchoTimeout \<Rightarrow>
                 (if ei_ctxErrAfter i \<or> \<not> isStartup then Some (False, tr1)
                  else if resend then
                    (if \<not> ei_resendOk i then Some (False, tr1)
                     else waitForEchoResponse_loop ceiling retryInterval wantID resend isStartup
                            (tr1\<lparr>wt_resends := wt_resends tr1 + 1\<rparr>) iters)
                  else waitForEchoResponse_loop ceiling retryInterval wantID resend isStartup tr1 iters)
             | EchoData data \<Rightarrow>
                 (case parseUDPEchoResponse data of
                    None \<Rightarrow> waitForEchoResponse_loop ceiling retryInterval wantID resend isStartup tr1 iters
                  | Some responseID \<Rightarrow>
                      (if responseID \<noteq> wantID
                       then waitForEchoResponse_loop ceiling retryInterval wantID resend isStartup tr1 iters
                       else Some (True, tr1))))"

definition no_trace :: wait_trace where
  "no_trace = \<lparr>wt_deadlines = [], wt_resends = 0\<rparr>"

definition waitForEchoResponse ::
  "instant \<Rightarrow> string \<Rightarrow> duration \<Rightarrow> duration \<Rightarrow> bool \<Rightarrow> bool \<Rightarrow> echo_iter list \<Rightarrow> (bool \<times> wait_trace) option" where
  "waitForEchoResponse started wantID timeout retryInterval resend isStartup iters =
     waitForEchoResponse_loop (started + timeout) retryInterval wantID resend isStartup no_trace iters"

definition waitForSteadyStateResponse :: "instant \<Rightarrow> string \<Rightarrow> echo_iter list \<Rightarrow> (bool \<times> wait_trace) option" where
  "waitForSteadyStateResponse now wantID iters =
     waitForEchoResponse now wantID steadyStateEchoDeadline steadyStateEchoDeadline False False iters"

text \<open>\<open>now\<close> is the clock of \<^verbatim>\<open>time.Since(started)\<close>.\<close>

definition waitForStartupResponse ::
  "instant \<Rightarrow> instant \<Rightarrow> string \<Rightarrow> echo_iter list \<Rightarrow> (bool \<times> wait_trace) option" where
  "waitForStartupResponse started now wantID iters =
     (let timeout = startupCeiling - (now - started)
      in if timeout \<le> 0 then Some (False, no_trace)
         else waitForEchoResponse now wantID timeout startupRetryInterval True True iters)"

section \<open>The pinger\<close>

record pinger =
  pg_prober :: "peerMTUProber option"
  pg_dev :: netTun
  pg_health :: udpEchoHealth
  pg_stats :: udpEchoStats
  pg_healthEvents :: "udpEchoHealthEvent list"
  pg_sent :: "string list"

datatype pinger_exit = PingerNil | PingerInvalidEndpoint | PingerDial | PingerWrite nat | PingerPanic

text \<open>What one iteration meets: context, socket and clock.\<close>

record ping_env =
  pe_ctxDone :: bool
  pe_started :: instant
  pe_writeOk :: bool
  pe_ctxDoneInPause :: bool
  pe_waitNow :: instant
  pe_iters :: "echo_iter list"
  pe_ctxErr :: bool
  pe_ctxDoneAtEvent :: bool
  pe_now :: instant
  pe_ctxDoneAtEnd :: bool

datatype ping_result = PingNext pinger | PingExit pinger_exit pinger | PingWaiting pinger

definition pinger_request :: "string \<Rightarrow> nat \<Rightarrow> string" where
  "pinger_request secretHash requestID =
     echoProbePayload_marshal
       \<lparr>ep_SessionSecretHash = secretHash, ep_RequestID = nat_str requestID, ep_Timeout = 3000, ep_Padding = []\<rparr>"

text \<open>\<^verbatim>\<open>_ = tunnelNet.SetMTU(mtu)\<close>\<close>

definition pinger_SetMTU :: "stack_lib \<Rightarrow> int \<Rightarrow> pinger \<Rightarrow> pinger" where
  "pinger_SetMTU sk mtu st = st\<lparr>pg_dev := fst (netTun_SetMTU sk (pg_dev st) mtu)\<rparr>"

text \<open>\<^verbatim>\<open>prober.RecordProbeResult(targetMTU, success)\<close> and \<^verbatim>\<open>tunnelNet.SetMTU(confirmedMTU)\<close>.\<close>

definition pinger_record :: "stack_lib \<Rightarrow> int \<Rightarrow> bool \<Rightarrow> pinger \<Rightarrow> pinger" where
  "pinger_record sk target success st =
     (case pg_prober st of
        None \<Rightarrow> st
      | Some p \<Rightarrow>
          (case prober_RecordProbeResult p target success of
             (p', _, confirmed, _) \<Rightarrow> pinger_SetMTU sk confirmed (st\<lparr>pg_prober := Some p'\<rparr>)))"

text \<open>The payload of an iteration and the MTU it probes, if it does.\<close>

definition pinger_prepare ::
  "stack_lib \<Rightarrow> string \<Rightarrow> net_ip \<Rightarrow> nat \<Rightarrow> pinger \<Rightarrow> pinger \<times> string \<times> int option" where
  "pinger_prepare sk secretHash remoteIP requestID st =
     (let plain = (st, pinger_request secretHash requestID, None)
      in if requestID > 0 \<and> uh_ready (pg_health st) then
           (case pg_prober st of
              None \<Rightarrow> plain
            | Some p \<Rightarrow>
                (case prober_NextProbeMTU p of
                   None \<Rightarrow> plain
                 | Some target \<Rightarrow>
                     (let ipHeaderLen = (if is_v4 remoteIP then 20 else 40);
                          payload = buildPaddedEchoPayload secretHash (nat_str requestID) 3000 target ipHeaderLen;
                          (dev, err) = netTun_SetMTU sk (pg_dev st) target;
                          st1 = st\<lparr>pg_dev := dev\<rparr>
                      in if err = None then (st1, payload, Some target)
                         else (st1\<lparr>pg_prober := Some (fst (prober_RecordProbeResult p target False))\<rparr>,
                               pinger_request secretHash requestID, None))))
         else plain)"

text \<open>The health of the tunnel, and the fall-back to the base MTU on sustained loss.\<close>

definition pinger_health :: "stack_lib \<Rightarrow> bool \<Rightarrow> pinger \<Rightarrow> pinger \<times> udpEchoHealthEvent option" where
  "pinger_health sk matched st =
     (case health_observe (pg_health st) matched of
        (h, event, firstSuccess) \<Rightarrow>
          (let st1 = st\<lparr>pg_health := h\<rparr>
           in (if event = Some UdpEchoUnhealthy then
                 (case pg_prober st1 of
                    None \<Rightarrow> st1
                  | Some p \<Rightarrow>
                      (if prober_State p \<noteq> DplpmtudStateDisabled
                       then pinger_SetMTU sk baseTunnelMTU (st1\<lparr>pg_prober := Some (prober_Reset p)\<rparr>)
                       else st1))
               else st1, event)))"

text \<open>After the event: arming the prober, the statistics, and the pause.\<close>

definition pinger_finish :: "int option \<Rightarrow> bool \<Rightarrow> ping_env \<Rightarrow> pinger \<Rightarrow> ping_result" where
  "pinger_finish target matched env st =
     (let st1 = (if matched \<and> target = None
                 then st\<lparr>pg_prober := map_option prober_Arm (pg_prober st)\<rparr> else st);
          (stats, summarise) = (if matched then stats_observe (pg_stats st1) (pe_now env) (pe_now env - pe_started env)
                                else (pg_stats st1, False))
      in case (if summarise then map_option snd (stats_logAndReset stats (pe_now env)) else Some stats) of
           None \<Rightarrow> PingExit PingerPanic st1
         | Some stats' \<Rightarrow>
             (let st2 = st1\<lparr>pg_stats := stats'\<rparr>
              in if pe_ctxDoneAtEnd env then PingExit PingerNil st2 else PingNext st2))"

text \<open>After the wait: the MTU search, the health, the event and the rest.\<close>

definition pinger_account :: "stack_lib \<Rightarrow> int option \<Rightarrow> bool \<Rightarrow> ping_env \<Rightarrow> pinger \<Rightarrow> ping_result" where
  "pinger_account sk target matched env st =
     (let st1 = (case target of None \<Rightarrow> st | Some m \<Rightarrow> pinger_record sk m matched st);
          (st2, event) = pinger_health sk matched st1
      in case event of
           None \<Rightarrow> pinger_finish target matched env st2
         | Some e \<Rightarrow>
             (if pe_ctxDoneAtEvent env then PingExit PingerNil st2
              else pinger_finish target matched env (st2\<lparr>pg_healthEvents := pg_healthEvents st2 @ [e]\<rparr>)))"

definition pinger_iter ::
  "stack_lib \<Rightarrow> string \<Rightarrow> net_ip \<Rightarrow> nat \<Rightarrow> ping_env \<Rightarrow> pinger \<Rightarrow> ping_result" where
  "pinger_iter sk secretHash remoteIP requestID env st =
     (if pe_ctxDone env then PingExit PingerNil st
      else case pinger_prepare sk secretHash remoteIP requestID st of
        (st1, payload, target) \<Rightarrow>
          (if \<not> pe_writeOk env then
             (case target of
                Some m \<Rightarrow>
                  (let st2 = pinger_record sk m False st1
                   in if pe_ctxDoneInPause env then PingExit PingerNil st2 else PingNext st2)
              | None \<Rightarrow> PingExit (PingerWrite requestID) st1)
           else
             let st2 = st1\<lparr>pg_sent := pg_sent st1 @ [payload]\<rparr>
             in case (if requestID = 0
                      then waitForStartupResponse (pe_started env) (pe_waitNow env) (nat_str requestID) (pe_iters env)
                      else waitForSteadyStateResponse (pe_waitNow env) (nat_str requestID) (pe_iters env)) of
                  None \<Rightarrow> PingWaiting st2
                | Some (matched, tr) \<Rightarrow>
                    (let st3 = st2\<lparr>pg_sent := pg_sent st2 @ replicate (wt_resends tr) payload\<rparr>
                     in if pe_ctxErr env then PingExit PingerNil st3
                        else pinger_account sk target matched env st3)))"

fun pinger_loop ::
  "stack_lib \<Rightarrow> string \<Rightarrow> net_ip \<Rightarrow> nat \<Rightarrow> ping_env list \<Rightarrow> pinger \<Rightarrow> ping_result" where
  "pinger_loop sk secretHash remoteIP requestID [] st = PingNext st"
| "pinger_loop sk secretHash remoteIP requestID (env # envs) st =
     (case pinger_iter sk secretHash remoteIP requestID env st of
        PingNext st' \<Rightarrow> pinger_loop sk secretHash remoteIP (requestID + 1) envs st'
      | r \<Rightarrow> r)"

definition runUDPEchoPinger ::
  "stack_lib \<Rightarrow> (udp_addr \<Rightarrow> bool) \<Rightarrow> string \<Rightarrow> serverInfo \<Rightarrow> netTun option \<Rightarrow> peerMTUProber option \<Rightarrow>
   ping_env list \<Rightarrow> ping_result + pinger_exit" where
  "runUDPEchoPinger sk dialUDP secretHash info tunnelNet prober envs =
     (case tunnelNet of
        None \<Rightarrow> Inr PingerNil
      | Some dev \<Rightarrow>
          (if si_UDPEchoAddr info = [] \<or> si_UDPEchoPort info = 0 then Inr PingerNil
           else case parseIP (si_UDPEchoAddr info) of
             None \<Rightarrow> Inr PingerInvalidEndpoint
           | Some ip \<Rightarrow>
               (if \<not> dialUDP \<lparr>ua_IP = ip, ua_Port = si_UDPEchoPort info, ua_Zone = []\<rparr> then Inr PingerDial
                else Inl (pinger_loop sk secretHash ip 0 envs
                       \<lparr>pg_prober = prober, pg_dev = dev, pg_health = newHealth, pg_stats = newStats None,
                        pg_healthEvents = [], pg_sent = []\<rparr>))))"

section \<open>Health: lemmas\<close>

text \<open>The failures since the last success.\<close>

definition trailing_failures :: "bool list \<Rightarrow> nat" where
  "trailing_failures ms = length (takeWhile Not (rev ms))"

lemma trailing_failures_simps [simp]:
  "trailing_failures [] = 0"
  "trailing_failures (ms @ [m]) = (if m then 0 else Suc (trailing_failures ms))"
  by (simp_all add: trailing_failures_def)

definition health_run :: "bool list \<Rightarrow> udpEchoHealth" where
  "health_run ms = foldl (\<lambda>h m. fst (health_observe h m)) newHealth ms"

lemma health_run_eq:
  "health_run ms =
     \<lparr>uh_ready = (True \<in> set ms),
      uh_consecutiveFailures = (if True \<in> set ms then trailing_failures ms mod 12 else 0)\<rparr>"
proof (induction ms rule: rev_induct)
  case Nil
  then show ?case by (simp add: health_run_def newHealth_def)
next
  case (snoc m ms)
  then show ?case
    by (auto simp: health_run_def health_observe_def maxConsecutiveEchoFailures_def Let_def mod_Suc)
qed

section \<open>Statistics: lemmas\<close>

definition stats_run :: "instant option \<Rightarrow> (instant \<times> duration) list \<Rightarrow> udpEchoStats" where
  "stats_run w obs = foldl (\<lambda>s (now, rtt). fst (stats_observe s now rtt)) (newStats w) obs"

lemma stats_run_snoc: "stats_run w (obs @ [(now, rtt)]) = fst (stats_observe (stats_run w obs) now rtt)"
  by (simp add: stats_run_def)

lemma stats_run_eq:
  assumes "obs \<noteq> []" "\<forall>x \<in> set obs. 0 < snd x"
  shows "us_count (stats_run w obs) = int (length obs) \<and> us_total (stats_run w obs) = sum_list (map snd obs) \<and>
    us_min (stats_run w obs) = Min (snd ` set obs) \<and> us_max (stats_run w obs) = Max (snd ` set obs) \<and>
    0 < us_min (stats_run w obs)"
  using assms
proof (induction obs rule: rev_induct)
  case (snoc x obs)
  obtain now rtt where x: "x = (now, rtt)" by (cases x)
  show ?case
  proof (cases "obs = []")
    case True
    with x snoc.prems show ?thesis by (simp add: stats_run_def stats_observe_def newStats_def Let_def)
  next
    case False
    with snoc have "us_count (stats_run w obs) = int (length obs)"
      "us_total (stats_run w obs) = sum_list (map snd obs)"
      "us_min (stats_run w obs) = Min (snd ` set obs)" "us_max (stats_run w obs) = Max (snd ` set obs)"
      "0 < us_min (stats_run w obs)"
      by simp_all
    moreover have "Min (snd ` set (obs @ [x])) = min rtt (Min (snd ` set obs))"
      "Max (snd ` set (obs @ [x])) = max rtt (Max (snd ` set obs))"
      using False x by simp_all
    moreover have "0 < rtt" using x snoc.prems by simp
    ultimately show ?thesis
      using x by (simp only: stats_run_snoc) (simp add: stats_observe_def Let_def min_def max_def)
  qed
qed simp

lemma sum_list_bounds:
  fixes xs :: "int list"
  assumes "\<forall>x \<in> set xs. lo \<le> x \<and> x \<le> hi"
  shows "int (length xs) * lo \<le> sum_list xs \<and> sum_list xs \<le> int (length xs) * hi"
  using assms by (induction xs) (auto simp: algebra_simps)

section \<open>Waiting: lemmas\<close>

text \<open>A clock that a read with a deadline obeys: a timeout lasts until the deadline.\<close>

fun timely :: "instant \<Rightarrow> duration \<Rightarrow> instant \<Rightarrow> echo_iter list \<Rightarrow> bool" where
  "timely ceiling retry t [] = True"
| "timely ceiling retry t (i # is) =
     (t \<le> ei_now i \<and>
      timely ceiling retry
        (if ei_read i = EchoTimeout then min ceiling (ei_now i + retry) else ei_now i) is)"

text \<open>Every resend costs a full retry interval.\<close>

lemma wait_resends:
  assumes "waitForEchoResponse_loop ceiling retry want resend isStartup tr is = Some (b, tr')"
    and "timely ceiling retry t is" and "0 < retry"
    and "start + int (wt_resends tr) * retry \<le> t \<or> ceiling \<le> t"
    and "wt_resends tr = 0 \<or> start + (int (wt_resends tr) - 1) * retry < ceiling"
  shows "wt_resends tr' = 0 \<or> start + (int (wt_resends tr') - 1) * retry < ceiling"
  using assms
proof (induction ceiling retry want resend isStartup tr "is" arbitrary: t rule: waitForEchoResponse_loop.induct)
  case (2 ceiling retryInterval wantID resend isStartup tr i iters)
  show ?case
  proof (cases "ei_now i < ceiling")
    case False
    with "2.prems" show ?thesis by simp
  next
    case True
    with "2.prems" have at: "start + int (wt_resends tr) * retryInterval \<le> ei_now i" by auto
    show ?thesis
      using 2 True at
      by (auto simp: Let_def algebra_simps split: echo_read.splits if_splits option.splits)
  qed
qed simp

lemma wait_returns:
  "\<exists>i \<in> set is. ceiling \<le> ei_now i \<Longrightarrow>
   waitForEchoResponse_loop ceiling retry want resend isStartup tr is \<noteq> None"
proof (induction "is" arbitrary: tr)
  case (Cons i iters)
  show ?case
  proof (cases "ei_now i < ceiling")
    case False
    then show ?thesis by auto
  next
    case True
    with Cons.prems have "\<exists>i \<in> set iters. ceiling \<le> ei_now i" by auto
    then have "waitForEchoResponse_loop ceiling retry want resend isStartup tr1 iters \<noteq> None" for tr1
      by (rule Cons.IH)
    then show ?thesis
      by (cases "ei_read i"; cases resend; cases isStartup)
        (simp_all add: Let_def split: option.split del: not_None_eq)
  qed
qed simp

lemma wait_matched:
  "waitForEchoResponse_loop ceiling retry want resend isStartup tr is = Some (True, tr') \<Longrightarrow>
   \<exists>i \<in> set is. \<exists>d. ei_read i = EchoData d \<and> parseUDPEchoResponse d = Some want"
proof (induction "is" arbitrary: tr)
  case (Cons i iters)
  have later: "\<exists>i \<in> set (i # iters). \<exists>d. ei_read i = EchoData d \<and> parseUDPEchoResponse d = Some want"
    if "waitForEchoResponse_loop ceiling retry want resend isStartup tr1 iters = Some (True, tr')" for tr1
    using Cons.IH [OF that] by auto
  show ?case
  proof (cases "\<exists>d. ei_read i = EchoData d \<and> parseUDPEchoResponse d = Some want")
    case True
    then show ?thesis by auto
  next
    case False
    then have "\<exists>tr1. waitForEchoResponse_loop ceiling retry want resend isStartup tr1 iters = Some (True, tr')"
      using Cons.prems by (auto simp: Let_def split: echo_read.splits option.splits if_splits)
    with later show ?thesis by blast
  qed
qed simp

section \<open>The wire format of requests and responses\<close>

lemma plain_keys:
  "ascii ''session_secret_hash''" "ascii ''req_id''" "ascii ''timeout''"
  by (simp_all add: ascii_def)

lemma marshal_members:
  assumes "ascii h" "ascii i" "0 \<le> t"
  shows "json_members (Suc (Suc (Suc (Suc n))))
      (json_member ''session_secret_hash'' (json_quote h) @
       CHR '','' # json_member ''req_id'' (json_quote i) @
       CHR '','' # json_member ''timeout'' (int_str t) @ [CHR 0x7D]) =
    Some ([(''session_secret_hash'', JStr h), (''req_id'', JStr i), (''timeout'', JNum (int_str t))], [])"
  using assms delims
  by (simp add: json_members_more plain_keys json_members_last json_value_quote json_value_nat_str int_str_nonneg
      prepend_def)

lemma unmarshal_request:
  assumes "ascii h" "ascii i" "0 \<le> t"
  shows "json_unmarshal (echoProbePayload_marshal
      \<lparr>ep_SessionSecretHash = h, ep_RequestID = i, ep_Timeout = t, ep_Padding = []\<rparr>) =
    Some (JObj [(''session_secret_hash'', JStr h), (''req_id'', JStr i), (''timeout'', JNum (int_str t))])"
    (is "json_unmarshal ?s = _")
proof -
  have "json_value (Suc (Suc (Suc (Suc (Suc (2 * length ?s)))))) ?s =
      Some (JObj [(''session_secret_hash'', JStr h), (''req_id'', JStr i), (''timeout'', JNum (int_str t))], [])"
    unfolding echoProbePayload_marshal_def
    using json_object_value [OF marshal_members [OF assms]] by simp
  then show ?thesis by (rule json_unmarshalI) simp
qed

lemma unmarshal_numeric_id:
  "json_unmarshal (CHR 0x7B # json_member ''req_id'' (nat_str n) @ [CHR 0x7D]) = Some (JObj [(''req_id'', JNum (nat_str n))])"
    (is "json_unmarshal ?s = _")
proof -
  have "json_members (Suc (Suc (2 * length ?s))) (json_member ''req_id'' (nat_str n) @ [CHR 0x7D]) =
      Some ([(''req_id'', JNum (nat_str n))], [])"
    using delims by (simp add: json_members_last plain_keys json_value_nat_str)
  from json_object_value [OF this] show ?thesis by (rule json_unmarshalI) simp
qed

lemma fold_keys:
  "\<not> equalFold ''session_secret_hash'' ''req_id''" "equalFold ''req_id'' ''req_id''"
  "\<not> equalFold ''timeout'' ''req_id''"
  by (simp_all add: equalFold_ascii to_lower_char_def is_upper_def char_in_def)

lemma parse_request:
  "ascii h \<Longrightarrow> parseUDPEchoResponse (pinger_request h n) = Some (nat_str n)"
  by (simp add: parseUDPEchoResponse_def pinger_request_def unmarshal_request ascii_nat_str fold_keys)

lemma parse_numeric_id:
  "parseUDPEchoResponse (CHR 0x7B # json_member ''req_id'' (nat_str n) @ [CHR 0x7D]) = Some (nat_str n)"
  using unmarshal_numeric_id [of n] by (simp add: parseUDPEchoResponse_def fold_keys)

section \<open>The MTU of the stack\<close>

text \<open>
  The three MTUs of the device equal the confirmed MTU of the prober, which is one that its
  operations can produce from \<open>start\<close>.
\<close>

definition mtu_synced :: "peerMTUProber \<Rightarrow> pinger \<Rightarrow> bool" where
  "mtu_synced start st =
     (\<exists>ops p. pg_prober st = Some p \<and> p = foldl prober_step start ops \<and>
        nt_mtu (pg_dev st) = of_int (pp_confirmedMTU p) \<and> nt_epMTU (pg_dev st) = of_int (pp_confirmedMTU p) \<and>
        nt_nicMTU (pg_dev st) = of_int (pp_confirmedMTU p))"

text \<open>The same without the device: between a probe and its result.\<close>

definition probing :: "peerMTUProber \<Rightarrow> pinger \<Rightarrow> bool" where
  "probing start st = (\<exists>ops. pg_prober st = Some (foldl prober_step start ops))"

lemma run_snoc: "foldl prober_step start (ops @ [e]) = prober_step (foldl prober_step start ops) e"
  by simp

lemma Record_confirmed:
  "prober_RecordProbeResult p target b = (p', changed, confirmed, done) \<Longrightarrow> confirmed = pp_confirmedMTU p'"
  by (auto simp: prober_RecordProbeResult_def Let_def split: if_splits)

lemma SetMTU_synced:
  assumes "\<And>m. sk_setNICMTU sk m" and "pg_prober st = Some p" "p = foldl prober_step start ops"
    "mtu = pp_confirmedMTU p"
  shows "mtu_synced start (pinger_SetMTU sk mtu st)"
  using assms by (auto simp: mtu_synced_def pinger_SetMTU_def netTun_SetMTU_def Let_def)

lemma record_synced:
  assumes nic: "\<And>m. sk_setNICMTU sk m" and "probing start st"
  shows "mtu_synced start (pinger_record sk target b st)"
proof -
  from assms(2) obtain ops where ops: "pg_prober st = Some (foldl prober_step start ops)"
    by (auto simp: probing_def)
  obtain p' ch c d where r: "prober_RecordProbeResult (foldl prober_step start ops) target b = (p', ch, c, d)"
    by (cases "prober_RecordProbeResult (foldl prober_step start ops) target b")
  then have "p' = foldl prober_step start (ops @ [OpRecord target b])" by simp
  then have "mtu_synced start (pinger_SetMTU sk c (st\<lparr>pg_prober := Some p'\<rparr>))"
    by (intro SetMTU_synced [OF nic, where ops = "ops @ [OpRecord target b]"])
      (simp_all add: Record_confirmed [OF r])
  with ops r show ?thesis by (simp add: pinger_record_def)
qed

lemma reset_synced:
  assumes nic: "\<And>m. sk_setNICMTU sk m" and sync: "mtu_synced start st"
    and p: "pg_prober st = Some p" and inv: "prober_inv p" and "prober_State p \<noteq> DplpmtudStateDisabled"
  shows "mtu_synced start (pinger_SetMTU sk baseTunnelMTU (st\<lparr>pg_prober := Some (prober_Reset p)\<rparr>))"
proof -
  from sync p obtain ops where "p = foldl prober_step start ops" by (auto simp: mtu_synced_def)
  then have "prober_Reset p = foldl prober_step start (ops @ [OpReset])" by simp
  moreover have "baseTunnelMTU = pp_confirmedMTU (prober_Reset p)"
    using inv assms(5) by (auto simp: prober_Reset_def prober_inv_def prober_State_def)
  ultimately show ?thesis by (intro SetMTU_synced [OF nic, where ops = "ops @ [OpReset]"]) simp_all
qed

lemma arm_synced:
  "mtu_synced start st \<Longrightarrow> mtu_synced start (st\<lparr>pg_prober := map_option prober_Arm (pg_prober st)\<rparr>)"
proof -
  assume "mtu_synced start st"
  then obtain ops p where p: "pg_prober st = Some p" "p = foldl prober_step start ops"
    "nt_mtu (pg_dev st) = of_int (pp_confirmedMTU p)" "nt_epMTU (pg_dev st) = of_int (pp_confirmedMTU p)"
    "nt_nicMTU (pg_dev st) = of_int (pp_confirmedMTU p)"
    by (auto simp: mtu_synced_def)
  then have "prober_Arm p = foldl prober_step start (ops @ [OpArm])"
    "pp_confirmedMTU (prober_Arm p) = pp_confirmedMTU p"
    by (simp_all add: prober_Arm_def)
  with p show ?thesis by (auto simp: mtu_synced_def intro!: exI [of _ "ops @ [OpArm]"])
qed

lemma synced_other_fields [simp]:
  "mtu_synced start (st\<lparr>pg_health := h\<rparr>) = mtu_synced start st"
  "mtu_synced start (st\<lparr>pg_stats := s\<rparr>) = mtu_synced start st"
  "mtu_synced start (st\<lparr>pg_healthEvents := ev\<rparr>) = mtu_synced start st"
  "mtu_synced start (st\<lparr>pg_sent := out\<rparr>) = mtu_synced start st"
  "probing start (st\<lparr>pg_sent := out\<rparr>) = probing start st"
  by (simp_all add: mtu_synced_def probing_def)

lemma prepare_synced:
  assumes nic: "\<And>m. sk_setNICMTU sk m" and sync: "mtu_synced start st"
    and "pinger_prepare sk h ip n st = (st1, payload, target)"
  shows "if target = None then mtu_synced start st1 else probing start st1"
  using assms
  by (auto simp: pinger_prepare_def Let_def netTun_SetMTU_def probing_def mtu_synced_def
      split: option.splits if_splits)

lemma health_synced:
  assumes nic: "\<And>m. sk_setNICMTU sk m" and inv: "prober_inv start" and sync: "mtu_synced start st"
    and he: "pinger_health sk matched st = (st', event)"
  shows "mtu_synced start st'"
proof -
  obtain h ev first where ob: "health_observe (pg_health st) matched = (h, ev, first)"
    by (cases "health_observe (pg_health st) matched")
  have "prober_inv p" if "pg_prober st = Some p" for p
    using that sync prober.run_inv [OF inv] by (auto simp: mtu_synced_def list_all_iff)
  with reset_synced [OF nic, of start "st\<lparr>pg_health := h\<rparr>"] sync he ob show ?thesis
    by (auto simp: pinger_health_def Let_def split: option.splits if_splits)
qed

lemma finish_synced:
  assumes sync: "mtu_synced start st" and fin: "pinger_finish target matched env st = PingNext st'"
  shows "mtu_synced start st'"
proof -
  define st1 where "st1 = (if matched \<and> target = None
      then st\<lparr>pg_prober := map_option prober_Arm (pg_prober st)\<rparr> else st)"
  have "mtu_synced start st1" using sync arm_synced by (simp add: st1_def)
  moreover have "st' = st1\<lparr>pg_stats := pg_stats st'\<rparr>"
    using fin unfolding pinger_finish_def Let_def st1_def [symmetric]
    by (auto split: if_splits option.splits prod.splits)
  ultimately show ?thesis by (metis synced_other_fields(2))
qed

lemma account_synced:
  assumes nic: "\<And>m. sk_setNICMTU sk m" and inv: "prober_inv start"
    and st: "if target = None then mtu_synced start st else probing start st"
    and acc: "pinger_account sk target matched env st = PingNext st'"
  shows "mtu_synced start st'"
proof -
  define st1 where "st1 = (case target of None \<Rightarrow> st | Some m \<Rightarrow> pinger_record sk m matched st)"
  have s1: "mtu_synced start st1"
    using st record_synced [OF nic] by (auto simp: st1_def split: option.split)
  obtain st2 event where he: "pinger_health sk matched st1 = (st2, event)" by (cases "pinger_health sk matched st1")
  have "mtu_synced start st2" by (rule health_synced [OF nic inv s1 he])
  with acc show ?thesis
    unfolding pinger_account_def Let_def st1_def [symmetric] he
    by (auto split: option.splits if_splits dest: finish_synced [rotated, where start = start])
qed

lemma iter_synced:
  assumes nic: "\<And>m. sk_setNICMTU sk m" and inv: "prober_inv start" and sync: "mtu_synced start st"
    and it: "pinger_iter sk h ip n env st = PingNext st'"
  shows "mtu_synced start st'"
proof -
  obtain st1 payload target where pr: "pinger_prepare sk h ip n st = (st1, payload, target)"
    by (cases "pinger_prepare sk h ip n st")
  note s1 = prepare_synced [OF nic sync pr]
  show ?thesis
  proof (cases "pe_writeOk env")
    case False
    with it pr show ?thesis
      using s1 record_synced [OF nic] by (auto simp: pinger_iter_def Let_def split: if_splits option.splits)
  next
    case True
    with it pr have "\<exists>matched (tr :: wait_trace). pinger_account sk target matched env
        (st1\<lparr>pg_sent := pg_sent st1 @ payload # replicate (wt_resends tr) payload\<rparr>) = PingNext st'"
      by (auto simp: pinger_iter_def Let_def split: if_splits option.splits prod.splits)
    then obtain matched and tr :: wait_trace where "pinger_account sk target matched env
        (st1\<lparr>pg_sent := pg_sent st1 @ payload # replicate (wt_resends tr) payload\<rparr>) = PingNext st'"
      by blast
    then show ?thesis by (rule account_synced [OF nic inv, rotated]) (use s1 in simp)
  qed
qed

lemma loop_synced:
  assumes nic: "\<And>m. sk_setNICMTU sk m" and inv: "prober_inv start" and sync: "mtu_synced start st"
    and run: "pinger_loop sk h ip n envs st = PingNext st'"
  shows "mtu_synced start st'"
  using sync run
proof (induction envs arbitrary: n st)
  case (Cons env envs)
  then obtain u where "pinger_iter sk h ip n env st = PingNext u" "pinger_loop sk h ip (n + 1) envs u = PingNext st'"
    by (auto split: ping_result.splits)
  with Cons iter_synced [OF nic inv] show ?case by blast
qed simp

text \<open>The pinger keeps the device and the search together.\<close>

lemma pinger_keeps_mtu:
  assumes "\<forall>m. sk_setNICMTU sk m"
    and "runUDPEchoPinger sk dial h info (Some dev) (Some (newPeerMTUProber initialMTU maxMTU manualMTU)) envs =
      Inl (PingNext st)"
    and "c = prober_ConfirmedMTU (newPeerMTUProber initialMTU maxMTU manualMTU)"
    and "nt_mtu dev = of_int c" and "nt_epMTU dev = of_int c" and "nt_nicMTU dev = of_int c"
  shows "\<exists>p. pg_prober st = Some p \<and> nt_mtu (pg_dev st) = of_int (prober_ConfirmedMTU p) \<and>
    nt_nicMTU (pg_dev st) = of_int (prober_ConfirmedMTU p) \<and>
    (if manualMTU > 0 then prober_ConfirmedMTU p = manualMTU
     else 1280 \<le> prober_ConfirmedMTU p \<and> prober_ConfirmedMTU p \<le> max 1280 (max initialMTU maxMTU))"
proof -
  let ?start = "newPeerMTUProber initialMTU maxMTU manualMTU"
  let ?st = "\<lparr>pg_prober = Some ?start, pg_dev = dev, pg_health = newHealth, pg_stats = newStats None,
    pg_healthEvents = [], pg_sent = []\<rparr>"
  from assms(2) obtain ip where run: "pinger_loop sk h ip 0 envs ?st = PingNext st"
    by (auto simp: runUDPEchoPinger_def split: if_splits option.splits)
  have "mtu_synced ?start ?st"
    using assms(3-6) by (auto simp: mtu_synced_def prober_ConfirmedMTU_def intro!: exI [of _ "[]"])
  from loop_synced [OF spec [OF assms(1)] prober_inv_new this run] obtain ops where
    "pg_prober st = Some (foldl prober_step ?start ops)"
    "nt_mtu (pg_dev st) = of_int (pp_confirmedMTU (foldl prober_step ?start ops))"
    "nt_nicMTU (pg_dev st) = of_int (pp_confirmedMTU (foldl prober_step ?start ops))"
    by (auto simp: mtu_synced_def)
  with prober_run_bounds [of initialMTU maxMTU manualMTU ops] show ?thesis
    by (auto simp: Let_def prober_ConfirmedMTU_def split: if_splits)
qed

section \<open>Properties\<close>

text \<open>
  C28. The health reports of the pinger, from the results of all requests so far: a success is
  healthy, a failure before the first success is a failed start, and afterwards the tunnel is
  reported unhealthy at every twelfth consecutive failure and never earlier.
\<close>

theorem udpEchoHealth_correct:
  "snd (health_observe (foldl (\<lambda>h m. fst (health_observe h m)) newHealth ms) m) =
     (if m then Some UdpEchoHealthy
      else if True \<notin> set ms then Some UdpEchoStartupFailed
      else if 12 dvd Suc (trailing_failures ms) then Some UdpEchoUnhealthy else None,
      m \<and> True \<notin> set ms)"
  using health_run_eq [of ms]
  by (auto simp: health_run_def health_observe_def maxConsecutiveEchoFailures_def Let_def dvd_eq_mod_eq_0 mod_Suc)

text \<open>
  The summary of a window of round trips, all of them positive, counts every sample, never
  divides by zero, and its minimum, average and maximum (before rounding) are in this order
  and are those of the samples.
\<close>

theorem udpEchoStats_correct:
  assumes "obs \<noteq> []" and "\<forall>x \<in> set obs. 0 < snd x"
    and "s = foldl (\<lambda>s (now, rtt). fst (stats_observe s now rtt)) (newStats w) obs"
  shows "stats_logAndReset s now \<noteq> None \<and> us_count s = int (length obs) \<and>
    us_min s = Min (snd ` set obs) \<and> us_max s = Max (snd ` set obs) \<and>
    us_min s \<le> us_total s div us_count s \<and> us_total s div us_count s \<le> us_max s"
proof -
  have s: "s = stats_run w obs" using assms(3) by (simp add: stats_run_def)
  note eq = stats_run_eq [OF assms(1,2), of w]
  have "\<forall>x \<in> set (map snd obs). Min (snd ` set obs) \<le> x \<and> x \<le> Max (snd ` set obs)" by simp
  from sum_list_bounds [OF this]
  have b: "int (length obs) * us_min s \<le> us_total s" "us_total s \<le> int (length obs) * us_max s"
    using eq s by simp_all
  have n: "0 < int (length obs)" using assms(1) by simp
  have "us_min s \<le> us_total s div us_count s"
    using zdiv_mono1 [OF b(1) n] n eq s by simp
  moreover have "us_total s div us_count s \<le> us_max s"
    using zdiv_mono1 [OF b(2) n] n eq s by simp
  ultimately show ?thesis using eq s assms(1) by (simp add: stats_logAndReset_def)
qed

theorem udpEchoStats_correct_witness:
  "\<exists>s. s = foldl (\<lambda>s (now, rtt). fst (stats_observe s now rtt)) (newStats None) [(10, 3), (20, 5)] \<and>
     us_count s = 2 \<and> us_min s \<le> us_total s div us_count s \<and> us_total s div us_count s \<le> us_max s"
  using udpEchoStats_correct [OF _ _ refl, of "[(10, 3), (20, 5)]" None 20] by auto

text \<open>
  C27. The start-up wait, on a clock that a read timeout respects: it returns once the clock
  reaches the ceiling of 95 seconds, resends the request at most 32 times, and succeeds only
  on a response that carries the identifier of the request.
\<close>

theorem waitForStartupResponse_correct:
  assumes "started \<le> now" and "timely (started + startupCeiling) startupRetryInterval now iters"
    and "\<exists>i \<in> set iters. started + startupCeiling \<le> ei_now i"
  shows "\<exists>b tr. waitForStartupResponse started now wantID iters = Some (b, tr) \<and> wt_resends tr \<le> 32 \<and>
    (b \<longrightarrow> (\<exists>i \<in> set iters. \<exists>d. ei_read i = EchoData d \<and> parseUDPEchoResponse d = Some wantID))"
proof (cases "startupCeiling - (now - started) \<le> 0")
  case True
  then show ?thesis by (auto simp: waitForStartupResponse_def no_trace_def)
next
  case False
  have ceil: "now + (startupCeiling - (now - started)) = started + startupCeiling" by simp
  let ?w = "waitForEchoResponse_loop (started + startupCeiling) startupRetryInterval wantID True True no_trace iters"
  obtain b tr where w: "?w = Some (b, tr)" using wait_returns [OF assms(3)] by fastforce
  have "wt_resends tr = 0 \<or> now + (int (wt_resends tr) - 1) * startupRetryInterval < started + startupCeiling"
    by (rule wait_resends [OF w assms(2)]) (simp_all add: startupRetryInterval_def no_trace_def)
  then have "wt_resends tr \<le> 32"
    using assms(1) by (auto simp: startupRetryInterval_def startupCeiling_def)
  moreover have "b \<longrightarrow> (\<exists>i \<in> set iters. \<exists>d. ei_read i = EchoData d \<and> parseUDPEchoResponse d = Some wantID)"
    using wait_matched w by (cases b) auto
  ultimately show ?thesis using False w by (simp add: waitForStartupResponse_def waitForEchoResponse_def ceil)
qed

definition ex_iter :: "instant \<Rightarrow> echo_read \<Rightarrow> echo_iter" where
  "ex_iter now r = \<lparr>ei_now = now, ei_ctxErr = False, ei_read = r, ei_ctxErrAfter = False, ei_resendOk = True\<rparr>"

theorem waitForStartupResponse_correct_witness:
  "\<exists>b tr. waitForStartupResponse 0 0 ''0''
      [ex_iter 0 EchoTimeout, ex_iter (3 * second) (EchoData ''x''), ex_iter (95 * second) EchoTimeout] = Some (b, tr) \<and>
    wt_resends tr \<le> 32"
  using waitForStartupResponse_correct
    [of 0 0 "[ex_iter 0 EchoTimeout, ex_iter (3 * second) (EchoData ''x''), ex_iter (95 * second) EchoTimeout]" "''0''"]
  by (auto simp: ex_iter_def startupCeiling_def startupRetryInterval_def)

text \<open>
  The identifier of a request is read back from a response that echoes the request, and
  also from one that carries it as a JSON number.
\<close>

theorem parseUDPEchoResponse_roundtrip:
  assumes "ascii secretHash"
  shows "parseUDPEchoResponse (pinger_request secretHash n) = Some (nat_str n) \<and>
    parseUDPEchoResponse (CHR 0x7B # json_member ''req_id'' (nat_str n) @ [CHR 0x7D]) = Some (nat_str n)"
  using assms by (simp only: parse_request parse_numeric_id simp_thms)

theorem parseUDPEchoResponse_roundtrip_witness:
  "parseUDPEchoResponse (pinger_request ''aGFzaA=='' 7) = Some (nat_str 7)"
  using parseUDPEchoResponse_roundtrip [of "''aGFzaA==''" 7] by (simp add: ascii_def)

text \<open>
  As long as the NIC accepts the MTUs it is given, the network stack runs at the MTU the
  search has confirmed whenever an iteration of the pinger has ended, whatever was lost on the
  way: never at the size of a probe, never below 1280 and never above the limit; and at the
  manual MTU when there is one.
\<close>

theorem pinger_stack_mtu:
  assumes "\<forall>m. sk_setNICMTU sk m"
    and "runUDPEchoPinger sk dial h info (Some dev) (Some (newPeerMTUProber initialMTU maxMTU manualMTU)) envs =
      Inl (PingNext st)"
    and "c = prober_ConfirmedMTU (newPeerMTUProber initialMTU maxMTU manualMTU)"
    and "nt_mtu dev = of_int c" and "nt_epMTU dev = of_int c" and "nt_nicMTU dev = of_int c"
  shows "\<exists>p. pg_prober st = Some p \<and> nt_mtu (pg_dev st) = of_int (prober_ConfirmedMTU p) \<and>
    nt_nicMTU (pg_dev st) = of_int (prober_ConfirmedMTU p) \<and>
    (if manualMTU > 0 then prober_ConfirmedMTU p = manualMTU
     else 1280 \<le> prober_ConfirmedMTU p \<and> prober_ConfirmedMTU p \<le> max 1280 (max initialMTU maxMTU))"
  by (rule pinger_keeps_mtu [OF assms])

definition ex_stack :: "(32 word \<Rightarrow> bool) \<Rightarrow> stack_lib" where
  "ex_stack nic = \<lparr>sk_setSACK = True, sk_setCC = (\<lambda>_. True), sk_setSendBuf = (\<lambda>_. True),
     sk_setRecvBuf = (\<lambda>_. True), sk_createNIC = True, sk_addAddress = (\<lambda>_. True), sk_setNICMTU = nic\<rparr>"

definition ex_dev :: netTun where
  "ex_dev = \<lparr>nt_mtu = 1280, nt_epMTU = 1280, nt_nicMTU = 1280, nt_events = [], nt_dnsServers = [],
     nt_hasV4 = True, nt_hasV6 = False, nt_addresses = [], nt_routes = [IPv4Proto], nt_injected = [],
     nt_closed = False\<rparr>"

definition ex_env :: "echo_iter list \<Rightarrow> ping_env" where
  "ex_env iters = \<lparr>pe_ctxDone = False, pe_started = 0, pe_writeOk = True, pe_ctxDoneInPause = False,
     pe_waitNow = 0, pe_iters = iters, pe_ctxErr = False, pe_ctxDoneAtEvent = False, pe_now = 5,
     pe_ctxDoneAtEnd = False\<rparr>"

definition ex_info :: serverInfo where
  "ex_info = \<lparr>si_PeerDesc = \<lparr>pd_Candidates = [], pd_IceConfig = [], pd_IsMaster = True\<rparr>, si_WGPubKey = [],
     si_UDPEchoPort = 7, si_UDPEchoAddr = ''10.0.0.1'', si_TunnelMask = 24, si_TunnelAddr = ''10.0.0.2''\<rparr>"

lemma ex_echo_run:
  "\<exists>st. runUDPEchoPinger (ex_stack (\<lambda>_. True)) (\<lambda>_. True) ''h'' ex_info
      (Some dev) (Some p) [ex_env [ex_iter 0 (EchoData (pinger_request ''h'' 0))]] =
    Inl (PingNext st)"
proof -
  have "parseIP ''10.0.0.1'' \<noteq> None" by (simp add: addr_eval)
  then show ?thesis
    by (auto simp: runUDPEchoPinger_def ex_info_def pinger_iter_def pinger_prepare_def ex_env_def waitForStartupResponse_def
        waitForEchoResponse_def startupCeiling_def ex_iter_def Let_def parse_request ascii_def pinger_account_def
        pinger_health_def health_observe_def newHealth_def pinger_finish_def stats_observe_def newStats_def
        udpEchoSummaryInterval_def)
qed

theorem pinger_stack_mtu_witness:
  "\<exists>st p. runUDPEchoPinger (ex_stack (\<lambda>_. True)) (\<lambda>_. True) ''h'' ex_info
      (Some ex_dev) (Some (newPeerMTUProber 1280 1440 0)) [ex_env [ex_iter 0 (EchoData (pinger_request ''h'' 0))]] =
    Inl (PingNext st) \<and> pg_prober st = Some p \<and> nt_mtu (pg_dev st) = of_int (prober_ConfirmedMTU p) \<and>
    1280 \<le> prober_ConfirmedMTU p \<and> prober_ConfirmedMTU p \<le> 1440"
proof -
  have c: "prober_ConfirmedMTU (newPeerMTUProber 1280 1440 0) = 1280"
    by (simp add: newPeerMTUProber_def prober_ConfirmedMTU_def Let_def baseTunnelMTU_def minTunnelMTU_def)
  obtain st where st: "runUDPEchoPinger (ex_stack (\<lambda>_. True)) (\<lambda>_. True) ''h''
      ex_info (Some ex_dev) (Some (newPeerMTUProber 1280 1440 0))
      [ex_env [ex_iter 0 (EchoData (pinger_request ''h'' 0))]] = Inl (PingNext st)"
    using ex_echo_run by blast
  show ?thesis
    using pinger_stack_mtu [OF _ st refl] st by (auto simp: c ex_stack_def ex_dev_def)
qed

end
