(* ===== verification/WireGuard.thy ===== *)
theory WireGuard
  imports Nomination PeerMtu Go_Base64 Api_Types
begin

text \<open>
  The WireGuard side of the client (\<^verbatim>\<open>wireguard.go\<close>): key pairs, the outer UDP sockets, the bind
  that separates STUN from WireGuard traffic, the tunnel MTU, and the printed configuration.

  Not part of the repository, and therefore arguments: the Curve25519 function, the results of
  opening sockets and of external commands, and the STUN library of \<^verbatim>\<open>Nomination\<close>.
\<close>

unbundle bit_operations_syntax

section \<open>Keys\<close>

text \<open>\<open>priv\<close> are the 32 random bytes, \<open>x25519\<close> the scalar multiplication with the base point.\<close>

definition clamp_key :: "byte list \<Rightarrow> byte list" where
  "clamp_key priv =
     (let p1 = priv[0 := priv ! 0 AND 248];
          p2 = p1[31 := p1 ! 31 AND 127]
      in p2[31 := p2 ! 31 OR 64])"

definition wgKeypair :: "(byte list \<Rightarrow> byte list option) \<Rightarrow> byte list option \<Rightarrow> (string \<times> string) option" where
  "wgKeypair x25519 random =
     (case random of
        None \<Rightarrow> None
      | Some priv \<Rightarrow>
          (case x25519 (clamp_key priv) of
             None \<Rightarrow> None
           | Some pub \<Rightarrow> Some (b64_encode (clamp_key priv), b64_encode pub)))"

datatype key_error = CorruptBase64 | KeyLength nat

definition b64KeyToHex :: "string \<Rightarrow> key_error + string" where
  "b64KeyToHex key =
     (case b64_decode key of
        None \<Rightarrow> Inl CorruptBase64
      | Some decoded \<Rightarrow>
          (if length decoded \<noteq> 32 then Inl (KeyLength (length decoded)) else Inr (hex_encode decoded)))"

section \<open>Outer sockets\<close>

text \<open>
  \<open>listen4\<close> and \<open>listen6\<close> are what the operating system answers to the two \<^verbatim>\<open>ListenUDP\<close> calls.
\<close>

definition openUDPSockets :: "udp_conn option \<Rightarrow> udp_conn option \<Rightarrow> networkFamily \<Rightarrow> udpSockets option" where
  "openUDPSockets listen4 listen6 family =
     (let v4 = (if family \<noteq> FamilyIPv6 then listen4 else None)
      in if family = FamilyIPv4 \<and> v4 = None then None
         else
           let v6 = (if family \<noteq> FamilyIPv4 then listen6 else None)
           in if family = FamilyIPv6 \<and> v6 = None then None
              else if v4 = None \<and> v6 = None then None
              else Some \<lparr>us_V4 = v4, us_V6 = v6\<rparr>)"

definition udpSockets_Close :: "udpSockets option \<Rightarrow> udpSockets option" where
  "udpSockets_Close s =
     map_option (\<lambda>s. \<lparr>us_V4 = map_option (\<lambda>c. c\<lparr>uc_closed := True\<rparr>) (us_V4 s),
                     us_V6 = map_option (\<lambda>c. c\<lparr>uc_closed := True\<rparr>) (us_V6 s)\<rparr>) s"

section \<open>The bind\<close>

text \<open>
  \<open>sb_done\<close> is \<open>None\<close> for the nil channel, else whether it is closed. The counters \<^verbatim>\<open>stunCount\<close> and
  \<^verbatim>\<open>recvCount\<close> only number debug messages and are left out.
\<close>

record stunBind =
  sb_conn4 :: "udp_conn option"
  sb_conn6 :: "udp_conn option"
  sb_stunSecret :: string
  sb_done :: "bool option"
  sb_nomination :: "nominationTracker option"
  sb_sent :: "(byte list \<times> addr_port) list"

definition newStunBind :: "udpSockets \<Rightarrow> string \<Rightarrow> nominationTracker option \<Rightarrow> stunBind" where
  "newStunBind s secret nomination =
     \<lparr>sb_conn4 = us_V4 s, sb_conn6 = us_V6 s, sb_stunSecret = secret, sb_done = None,
      sb_nomination = nomination, sb_sent = []\<rparr>"

text \<open>The number is that of the receive functions.\<close>

definition bind_Open :: "stunBind \<Rightarrow> stunBind \<times> nat" where
  "bind_Open b =
     (b\<lparr>sb_done := Some False,
        sb_conn4 := conn_SetReadDeadline None (sb_conn4 b),
        sb_conn6 := conn_SetReadDeadline None (sb_conn6 b)\<rparr>,
      (if sb_conn4 b \<noteq> None then 1 else 0) + (if sb_conn6 b \<noteq> None then 1 else 0))"

definition bind_Close :: "instant \<Rightarrow> stunBind \<Rightarrow> stunBind" where
  "bind_Close now b =
     b\<lparr>sb_done := (case sb_done b of None \<Rightarrow> None | Some _ \<Rightarrow> Some True),
       sb_conn4 := conn_SetReadDeadline (Some now) (sb_conn4 b),
       sb_conn6 := conn_SetReadDeadline (Some now) (sb_conn6 b)\<rparr>"

definition bind_handleSTUN :: "'m stun_lib \<Rightarrow> stunBind \<Rightarrow> byte list \<Rightarrow> addr_port \<Rightarrow> panic + stunBind" where
  "bind_handleSTUN lib b data addrPort =
     (case parseStunMessage lib data of
        None \<Rightarrow> Inr b
      | Some msg \<Rightarrow>
          (if sl_IsBindingRequest lib msg then
             (case respondToStunBindingRequestAddrPort lib True msg addrPort (sb_stunSecret b) (sb_nomination b) of
                Inl e \<Rightarrow> Inl e
              | Inr ans \<Rightarrow> Inr (b\<lparr>sb_nomination := sa_tracker ans, sb_sent := sb_sent b @ sa_sent ans\<rparr>))
           else Inr b))"

text \<open>
  What happens while a receive function waits on its socket: a datagram arrives, the read fails, or
  another goroutine calls Close.
\<close>

datatype bind_event = BindData "byte list" addr_port | BindError | BindCloseCall instant

datatype recv_result = RecvPacket "byte list" addr_port | RecvErrClosed | RecvError | RecvBlocked

text \<open>
  A socket can be read while it is open and has no read deadline: a deadline that the client sets on
  these sockets is the present time, and a read after it fails at once.
\<close>

definition bind_conn :: "bool \<Rightarrow> stunBind \<Rightarrow> udp_conn option" where
  "bind_conn v4 b = (if v4 then sb_conn4 b else sb_conn6 b)"

definition conn_reads :: "udp_conn option \<Rightarrow> bool" where
  "conn_reads c = (case c of None \<Rightarrow> False | Some c \<Rightarrow> uc_readDeadline c = None \<and> \<not> uc_closed c)"

definition recv_failed :: "stunBind \<Rightarrow> recv_result" where
  "recv_failed b = (if sb_done b = Some True then RecvErrClosed else RecvError)"

text \<open>
  One call of the receive function of a socket: STUN datagrams are consumed until there is a packet
  for WireGuard or the read fails. The last component are the events left over; when there are none
  the read blocks. wireguard-go waits for the receive routines before it opens the bind again, so the
  channel a function was made with is that of the bind; its cached endpoint \<^verbatim>\<open>last\<close> is reused only
  when it equals the source.
\<close>

fun bind_recv ::
  "'m stun_lib \<Rightarrow> bool \<Rightarrow> stunBind \<Rightarrow> bind_event list \<Rightarrow> panic + (recv_result \<times> stunBind \<times> bind_event list)" where
  "bind_recv lib v4 b [] = Inr (if conn_reads (bind_conn v4 b) then RecvBlocked else recv_failed b, b, [])"
| "bind_recv lib v4 b (ev # evs) =
     (if \<not> conn_reads (bind_conn v4 b) then Inr (recv_failed b, b, ev # evs)
      else case ev of
        BindCloseCall now \<Rightarrow> bind_recv lib v4 (bind_Close now b) evs
      | BindError \<Rightarrow> Inr (recv_failed b, b, evs)
      | BindData data addrPort \<Rightarrow>
          (if isSTUN data then
             (case bind_handleSTUN lib b data addrPort of
                Inl e \<Rightarrow> Inl e
              | Inr b' \<Rightarrow> bind_recv lib v4 b' evs)
           else Inr (RecvPacket data addrPort, b, evs)))"

lemma recv_failed_packet [simp]: "recv_failed b \<noteq> RecvPacket d ap"
  by (simp add: recv_failed_def)

lemma bind_recv_shorter: "bind_recv lib v4 b evs = Inr (RecvPacket d ap, b', evs') \<Longrightarrow> length evs' < length evs"
proof (induction lib v4 b evs rule: bind_recv.induct)
  case (2 lib v4 b ev evs)
  then show ?case by (fastforce split: if_splits bind_event.splits sum.splits)
qed (auto split: if_splits)

text \<open>wireguard-go's receive routine: it calls the function until it gets an error.\<close>

function bind_receiveAll ::
  "'m stun_lib \<Rightarrow> bool \<Rightarrow> stunBind \<Rightarrow> bind_event list \<Rightarrow> (byte list \<times> addr_port) list \<Rightarrow>
   panic + ((byte list \<times> addr_port) list \<times> recv_result \<times> stunBind)" where
  "bind_receiveAll lib v4 b evs acc =
     (case bind_recv lib v4 b evs of
        Inl e \<Rightarrow> Inl e
      | Inr (RecvPacket data ap, b', evs') \<Rightarrow>
          bind_receiveAll lib v4 b' evs' (acc @ [(data, ap)])
      | Inr (r, b', evs') \<Rightarrow> Inr (acc, r, b'))"
  by pat_completeness auto
termination
  by (relation "measure (\<lambda>(lib, v4, b, evs, acc). length evs)") (auto dest: bind_recv_shorter)

declare bind_receiveAll.simps [simp del]

datatype send_error = WrongEndpointType | NoBoundSocket addr_port | WriteFailed

text \<open>
  \<open>ep\<close> is \<open>None\<close> for an endpoint of another type. \<open>writeOk\<close> says which datagrams the socket
  takes; the result are the datagrams written, on IPv4 or not, and the error.
\<close>

fun bind_send_loop ::
  "(byte list \<Rightarrow> bool) \<Rightarrow> bool \<Rightarrow> addr_port \<Rightarrow> byte list list \<Rightarrow> (bool \<times> byte list \<times> addr_port) list \<times> send_error option" where
  "bind_send_loop writeOk v4 ap [] = ([], None)"
| "bind_send_loop writeOk v4 ap (buf # bufs) =
     (if \<not> writeOk buf then ([], Some WriteFailed)
      else case bind_send_loop writeOk v4 ap bufs of (out, e) \<Rightarrow> ((v4, buf, ap) # out, e))"

definition bind_Send ::
  "(byte list \<Rightarrow> bool) \<Rightarrow> stunBind \<Rightarrow> byte list list \<Rightarrow> addr_port option \<Rightarrow>
   (bool \<times> byte list \<times> addr_port) list \<times> send_error option" where
  "bind_Send writeOk b bufs ep =
     (case ep of
        None \<Rightarrow> ([], Some WrongEndpointType)
      | Some ap \<Rightarrow>
          (if addr_Is4 (fst ap) \<and> sb_conn4 b \<noteq> None then bind_send_loop writeOk True ap bufs
           else if \<not> addr_Is4 (fst ap) \<and> sb_conn6 b \<noteq> None then bind_send_loop writeOk False ap bufs
           else ([], Some (NoBoundSocket ap))))"

section \<open>The tunnel MTU\<close>

definition wgIPv4OverheadBytes :: int where
  "wgIPv4OverheadBytes = 60"

definition wgIPv6OverheadBytes :: int where
  "wgIPv6OverheadBytes = 80"

definition fallbackMTU :: int where
  "fallbackMTU = 1420"

definition maxInternetWireMTU :: int where
  "maxInternetWireMTU = 1500"

definition minConfiguredMTU :: int where
  "minConfiguredMTU = 1280"

definition maxConfiguredMTU :: int where
  "maxConfiguredMTU = 1500"

definition wireGuardOverhead :: "udp_addr option \<Rightarrow> int" where
  "wireGuardOverhead endpoint =
     (case endpoint of
        Some a \<Rightarrow> (if ua_IP a \<noteq> [] \<and> \<not> is_v4 (ua_IP a) then wgIPv6OverheadBytes else wgIPv4OverheadBytes)
      | None \<Rightarrow> wgIPv4OverheadBytes)"

datatype mtu_error = FlagMTURange int | EnvMTUSyntax string | EnvMTURange int

definition resolveConfiguredMTU :: "int \<Rightarrow> string \<Rightarrow> mtu_error + int" where
  "resolveConfiguredMTU cliMTU envMTU =
     (if cliMTU \<noteq> 0 then
        (if cliMTU < minConfiguredMTU \<or> cliMTU > maxConfiguredMTU then Inl (FlagMTURange cliMTU) else Inr cliMTU)
      else
        let trimmedEnv = trimSpace envMTU
        in if trimmedEnv \<noteq> [] then
             (case atoi trimmedEnv of
                None \<Rightarrow> Inl (EnvMTUSyntax trimmedEnv)
              | Some val \<Rightarrow>
                  (if val < minConfiguredMTU \<or> val > maxConfiguredMTU then Inl (EnvMTURange val) else Inr val))
           else Inr 0)"

definition resolveTCPCongestionControl :: "string \<Rightarrow> string + string" where
  "resolveTCPCongestionControl envVal =
     (let trimmed = toLower (trimSpace envVal)
      in if trimmed = [] then Inr []
         else if trimmed = ''reno'' \<or> trimmed = ''cubic'' then Inr trimmed
         else Inl envVal)"

text \<open>The column of \<^verbatim>\<open>mtu\<close> in a header line, and the loop over the lines.\<close>

definition mtu_column :: "string list \<Rightarrow> nat option" where
  "mtu_column fs = find (\<lambda>i. fs ! i = ''mtu'') [0..<length fs]"

fun darwin_lines :: "nat option \<Rightarrow> string list \<Rightarrow> int" where
  "darwin_lines mtuCol [] = 0"
| "darwin_lines mtuCol (line # lines) =
     (let fs = strFields line
      in if fs = [] then darwin_lines mtuCol lines
         else case mtuCol of
           None \<Rightarrow> darwin_lines (mtu_column fs) lines
         | Some col \<Rightarrow>
             (if length fs > col then
                (case atoi (fs ! col) of Some val \<Rightarrow> (if val > 0 then val else 0) | None \<Rightarrow> 0)
              else 0))"

definition parseDarwinRouteMTU :: "string \<Rightarrow> int" where
  "parseDarwinRouteMTU output = darwin_lines None (split_on (CHR 0x0A) output)"

text \<open>The loop over the fields, by index.\<close>

function linux_fields :: "string list \<Rightarrow> nat \<Rightarrow> int" where
  "linux_fields fs i =
     (if i + 1 < length fs then
        (let valIdx = (if fs ! (i + 1) = ''lock'' \<and> i + 2 < length fs then i + 2 else i + 1)
         in if fs ! i = ''mtu'' then
              (case atoi (fs ! valIdx) of
                 Some v \<Rightarrow> (if v > 0 then v else linux_fields fs (i + 1))
               | None \<Rightarrow> linux_fields fs (i + 1))
            else linux_fields fs (i + 1))
      else 0)"
  by pat_completeness auto
termination
  by (relation "measure (\<lambda>(fs, i). length fs - i)") auto

declare linux_fields.simps [simp del]

definition parseLinuxRouteMTU :: "string \<Rightarrow> int" where
  "parseLinuxRouteMTU output = linux_fields (strFields output) 0"

definition computeTunnelMTU :: "int \<Rightarrow> int \<Rightarrow> int" where
  "computeTunnelMTU wireMTU overhead =
     (let wire = (if wireMTU > maxInternetWireMTU then maxInternetWireMTU else wireMTU);
          mtu = wire - overhead
      in if mtu < minTunnelMTU then minTunnelMTU else mtu)"

text \<open>
  \<open>goos\<close> is \<^verbatim>\<open>runtime.GOOS\<close>; \<open>exec\<close> runs a command and gives its output, \<open>None\<close> on failure or
  after 250 ms.
\<close>

definition queryRouteMTU :: "string \<Rightarrow> (string list \<Rightarrow> string option) \<Rightarrow> net_ip \<Rightarrow> int" where
  "queryRouteMTU goos exec ip =
     (if ip = [] \<or> ip_isUnspecified ip \<or> ip_isLoopback ip then 0
      else if goos \<in> {''darwin'', ''freebsd'', ''openbsd'', ''netbsd''} then
        (let familyArg = (if is_v4 ip then ''-inet'' else ''-inet6'')
         in case exec [''route'', ''-n'', ''get'', familyArg, ip_String ip] of
              Some out \<Rightarrow> parseDarwinRouteMTU out
            | None \<Rightarrow> 0)
      else if goos = ''linux'' then
        (case exec [''ip'', ''route'', ''get'', ip_String ip] of
           Some out \<Rightarrow> parseLinuxRouteMTU out
         | None \<Rightarrow> 0)
      else 0)"

text \<open>The wire MTU of the first interface that carries the local address.\<close>

definition iface_has_ip :: "net_ip \<Rightarrow> net_iface \<Rightarrow> bool" where
  "iface_has_ip localIP iface =
     (case if_addrs iface of
        None \<Rightarrow> False
      | Some addrs \<Rightarrow> list_ex (\<lambda>a. a \<noteq> OtherAddr \<and> ip_equal (interfaceAddrIP a) localIP) addrs)"

record path_os =
  ps_goos :: string
  ps_exec :: "string list \<Rightarrow> string option"
  ps_dialUDP :: "udp_addr \<Rightarrow> net_ip option" \<comment> \<open>the local address of the connected socket\<close>
  ps_interfaces :: "net_iface list option"

definition discoverPathMTU :: "path_os \<Rightarrow> udp_addr option \<Rightarrow> int" where
  "discoverPathMTU os endpoint =
     (case endpoint of
        None \<Rightarrow> fallbackMTU
      | Some ep \<Rightarrow>
          (if ua_IP ep = [] \<or> ip_isUnspecified (ua_IP ep) \<or> ua_Port ep \<le> 0 \<or> ua_Port ep > 65535 then fallbackMTU
           else
             let overhead = wireGuardOverhead (Some ep)
             in case ps_dialUDP os ep of
                  None \<Rightarrow> fallbackMTU
                | Some localIP \<Rightarrow>
                    (let routeMTU = queryRouteMTU (ps_goos os) (ps_exec os) (ua_IP ep)
                     in case ps_interfaces os of
                          None \<Rightarrow> (if routeMTU > 0 then computeTunnelMTU routeMTU overhead else fallbackMTU)
                        | Some ifaces \<Rightarrow>
                            (case find (iface_has_ip localIP) ifaces of
                               Some iface \<Rightarrow>
                                 computeTunnelMTU
                                   (if routeMTU > 0 \<and> routeMTU < if_MTU iface then routeMTU else if_MTU iface)
                                   overhead
                             | None \<Rightarrow>
                                 (if routeMTU > 0 then computeTunnelMTU routeMTU overhead else fallbackMTU)))))"

section \<open>The printed configuration\<close>

definition nl :: string where
  "nl = [CHR 0x0A]"

fun join_lines :: "string list \<Rightarrow> string" where
  "join_lines [] = []"
| "join_lines [l] = l"
| "join_lines (l # ls) = l @ nl @ join_lines ls"

definition buildConfig :: "string \<Rightarrow> int \<Rightarrow> string \<Rightarrow> serverInfo \<Rightarrow> string list \<Rightarrow> string \<Rightarrow> int \<Rightarrow> string" where
  "buildConfig priv port endpoint info dns clientIP mtu =
     (let dnsAddr = (case dns of [] \<Rightarrow> ''192.168.88.1'' | d # _ \<Rightarrow> d);
          mask = (if si_TunnelMask info = 0 then 120 else si_TunnelMask info);
          address0 = si_TunnelAddr info @ ''/'' @ int_str mask;
          clientMask = (if CHR '':'' \<in> set clientIP then ''128'' else ''32'');
          address = (if clientIP \<noteq> [] then clientIP @ ''/'' @ clientMask @ '', '' @ address0 else address0);
          ifaceLines = [''PrivateKey = '' @ priv, ''ListenPort = '' @ int_str port, ''Address = '' @ address,
                        ''DNS = '' @ dnsAddr] @ (if mtu > 0 then [''MTU = '' @ int_str mtu] else [])
      in ''[Interface]'' @ nl @ join_lines ifaceLines @ nl @ nl @ ''[Peer]'' @ nl @
         ''PublicKey = '' @ si_WGPubKey info @ nl @ ''Endpoint = '' @ endpoint @ nl @
         ''AllowedIPs = 0.0.0.0/0, ::/0'' @ nl @ ''PersistentKeepalive = 25'' @ nl)"

section \<open>Keys: lemmas\<close>

lemma length_clamp_key [simp]: "length (clamp_key priv) = length priv"
  by (simp add: clamp_key_def Let_def)

lemma b64KeyToHex_encode: "length bs = 32 \<Longrightarrow> b64KeyToHex (b64_encode bs) = Inr (hex_encode bs)"
  by (simp add: b64KeyToHex_def b64.decode_encode)

lemma clamp_key_nth:
  "length priv = 32 \<Longrightarrow> i < 32 \<Longrightarrow>
   clamp_key priv ! i = (if i = 0 then priv ! 0 AND 248
                         else if i = 31 then (priv ! 31 AND 127) OR 64 else priv ! i)"
  by (simp add: clamp_key_def Let_def nth_list_update)

lemma clamp_bits:
  fixes b :: byte
  shows "(b AND 248) AND 7 = 0" "bit ((b AND 127) OR 64) 6" "\<not> bit ((b AND 127) OR 64) 7"
proof -
  have "(248 :: byte) AND 7 = 0" by simp
  then show "(b AND 248) AND 7 = 0" by (simp add: and.assoc)
  have "bit (64 :: byte) 6" "\<not> bit (64 :: byte) 7" "\<not> bit (127 :: byte) 7" by simp_all
  then show "bit ((b AND 127) OR 64) 6" "\<not> bit ((b AND 127) OR 64) 7"
    by (simp_all add: bit_or_iff bit_and_iff)
qed

section \<open>The bind: lemmas\<close>

definition bind_inv :: "stunBind \<Rightarrow> bool" where
  "bind_inv b = (case sb_nomination b of None \<Rightarrow> True | Some t \<Rightarrow> tracker_inv t)"

text \<open>
  Answering a request never panics, whoever sent it, and leaves the lifecycle of the bind and its
  sockets alone.
\<close>

definition bind_same :: "stunBind \<Rightarrow> stunBind \<Rightarrow> bool" where
  "bind_same b b' = (sb_done b' = sb_done b \<and> sb_conn4 b' = sb_conn4 b \<and> sb_conn6 b' = sb_conn6 b)"

lemma bind_same_conn: "bind_same b b' \<Longrightarrow> bind_conn v4 b' = bind_conn v4 b"
  by (simp add: bind_same_def bind_conn_def)

lemma handleSTUN_inv [go_inv]:
  assumes "bind_inv b"
  shows "\<exists>b'. bind_handleSTUN lib b data ap = Inr b' \<and> bind_inv b' \<and> bind_same b b'"
proof (cases "\<exists>msg t w. sl_Decode lib data = Some msg \<and> sl_IsBindingRequest lib msg \<and>
    validStunIntegrity lib msg (sb_stunSecret b) \<and> sb_nomination b = Some t \<and> stunNominationWait lib msg = Some w")
  case False
  with assms show ?thesis
    by (auto simp: bind_handleSTUN_def parseStunMessage_def respondToStunBindingRequestAddrPort_def Let_def
        bind_inv_def bind_same_def split: option.splits)
next
  case True
  then obtain msg t w where m: "sl_Decode lib data = Some msg" "sl_IsBindingRequest lib msg"
    "validStunIntegrity lib msg (sb_stunSecret b)" "sb_nomination b = Some t" "stunNominationWait lib msg = Some w"
    by blast
  with assms have inv: "tracker_inv t" by (simp add: bind_inv_def)
  obtain t' sel where t': "tracker_observe t (addrPort_String ap) w = Inr (t', sel)"
    using tracker_observe_cases [OF inv, of "addrPort_String ap" w] by auto
  have "tracker_inv t'" by (rule tracker_observe_inv [OF inv _ t']) simp
  with m t' show ?thesis
    by (simp add: bind_handleSTUN_def parseStunMessage_def respondToStunBindingRequestAddrPort_def Let_def
        bind_inv_def bind_same_def)
qed

definition bind_data :: "byte list \<times> addr_port \<Rightarrow> bind_event" where
  "bind_data p = BindData (fst p) (snd p)"

abbreviation for_wireguard :: "byte list \<times> addr_port \<Rightarrow> bool" where
  "for_wireguard p \<equiv> \<not> isSTUN (fst p)"

lemma bind_recv_data:
  assumes "bind_inv b" "conn_reads (bind_conn v4 b)"
  shows "\<exists>b'. bind_inv b' \<and> bind_same b b' \<and>
    bind_recv lib v4 b (map bind_data pkts @ rest) =
      (case dropWhile (\<lambda>p. isSTUN (fst p)) pkts of
         [] \<Rightarrow> bind_recv lib v4 b' rest
       | p # ps \<Rightarrow> Inr (RecvPacket (fst p) (snd p), b', map bind_data ps @ rest))"
  using assms
proof (induction pkts arbitrary: b)
  case Nil
  then show ?case by (auto simp: bind_same_def)
next
  case (Cons p pkts)
  show ?case
  proof (cases "isSTUN (fst p)")
    case False
    with Cons.prems show ?thesis by (auto simp: bind_data_def bind_same_def)
  next
    case True
    from handleSTUN_inv [OF Cons.prems(1), of lib "fst p" "snd p"] obtain b1 where
      b1: "bind_handleSTUN lib b (fst p) (snd p) = Inr b1" "bind_inv b1" "bind_same b b1" by blast
    moreover from b1(3) Cons.prems(2) have "conn_reads (bind_conn v4 b1)" by (simp add: bind_same_conn)
    ultimately show ?thesis
      using Cons.IH [of b1] Cons.prems True by (simp add: bind_data_def bind_same_def)
  qed
qed

lemma filter_dropWhile: "filter (\<lambda>x. \<not> P x) (dropWhile P xs) = filter (\<lambda>x. \<not> P x) xs"
  by (induction xs) auto

text \<open>An open bind hands over what is not STUN and goes on with whatever comes next.\<close>

lemma bind_receiveAll_data:
  assumes "bind_inv b" "conn_reads (bind_conn v4 b)"
  shows "\<exists>b'. bind_inv b' \<and> bind_same b b' \<and> bind_receiveAll lib v4 b (map bind_data pkts @ rest) acc =
    bind_receiveAll lib v4 b' rest (acc @ filter for_wireguard pkts)"
  using assms
proof (induction "length pkts" arbitrary: b pkts acc rule: less_induct)
  case less
  from bind_recv_data [OF less.prems, of lib pkts rest] obtain b1 where
    b1: "bind_inv b1" "bind_same b b1"
    "bind_recv lib v4 b (map bind_data pkts @ rest) =
      (case dropWhile (\<lambda>p. isSTUN (fst p)) pkts of
         [] \<Rightarrow> bind_recv lib v4 b1 rest
       | p # ps \<Rightarrow> Inr (RecvPacket (fst p) (snd p), b1, map bind_data ps @ rest))" by blast
  show ?case
  proof (cases "dropWhile (\<lambda>p. isSTUN (fst p)) pkts")
    case Nil
    then have "filter for_wireguard pkts = []"
      using filter_dropWhile [of "\<lambda>p. isSTUN (fst p)" pkts] by simp
    moreover have "bind_recv lib v4 b (map bind_data pkts @ rest) = bind_recv lib v4 b1 rest"
      unfolding b1(3) Nil by simp
    ultimately show ?thesis
      using b1(1,2) by (auto simp: bind_receiveAll.simps [of lib v4 b] bind_receiveAll.simps [of lib v4 b1 rest])
  next
    case (Cons p ps)
    then have "length ps < length pkts" "\<not> isSTUN (fst p)"
      using length_dropWhile_le [of "\<lambda>p. isSTUN (fst p)" pkts] hd_dropWhile [of "\<lambda>p. isSTUN (fst p)" pkts]
      by auto
    moreover from this have "filter for_wireguard pkts = p # filter for_wireguard ps"
      using filter_dropWhile [of "\<lambda>p. isSTUN (fst p)" pkts] Cons by simp
    moreover have "conn_reads (bind_conn v4 b1)" using b1(2) less.prems(2) by (simp add: bind_same_conn)
    ultimately obtain b' where "bind_inv b'" "bind_same b1 b'" "bind_receiveAll lib v4 b1 (map bind_data ps @ rest) (acc @ [p]) =
        bind_receiveAll lib v4 b' rest (acc @ filter for_wireguard pkts)"
      using less.hyps [of ps b1 "acc @ [p]"] b1 by auto
    with b1 Cons show ?thesis
      by (auto simp: bind_receiveAll.simps [of lib v4 b] bind_same_def intro!: exI [of _ b'])
  qed
qed

lemma bind_Open_reads:
  "bind_conn v4 b = Some c \<Longrightarrow> \<not> uc_closed c \<Longrightarrow> conn_reads (bind_conn v4 (fst (bind_Open b)))"
  by (auto simp: bind_conn_def bind_Open_def conn_SetReadDeadline_def conn_reads_def)

lemma bind_Close_reads: "\<not> conn_reads (bind_conn v4 (bind_Close now b))"
  by (auto simp: bind_conn_def bind_Close_def conn_SetReadDeadline_def conn_reads_def split: option.split)

lemma bind_receiveAll_failed:
  "\<not> conn_reads (bind_conn v4 b) \<Longrightarrow> bind_receiveAll lib v4 b evs acc = Inr (acc, recv_failed b, b)"
  by (cases evs) (simp_all add: bind_receiveAll.simps [of lib v4 b] recv_failed_def)

section \<open>The MTU: lemmas\<close>

lemma computeTunnelMTU_eq: "computeTunnelMTU wire overhead = max 1280 (min 1500 wire - overhead)"
  by (auto simp: computeTunnelMTU_def maxInternetWireMTU_def minTunnelMTU_def Let_def)

lemma wireGuardOverhead_cases: "wireGuardOverhead ep = 60 \<or> wireGuardOverhead ep = 80"
  by (auto simp: wireGuardOverhead_def wgIPv6OverheadBytes_def wgIPv4OverheadBytes_def split: option.splits)

lemma discoverPathMTU_cases:
  "discoverPathMTU os ep = 1420 \<or> (\<exists>w. discoverPathMTU os ep = computeTunnelMTU w (wireGuardOverhead ep))"
  by (auto simp: discoverPathMTU_def Let_def fallbackMTU_def split: option.splits)

section \<open>Properties\<close>

text \<open>
  The discovered tunnel MTU is at least the IPv6 minimum and, with the encapsulation of the
  endpoint's family, never more than a 1500-byte wire carries, whatever the routing table,
  the interfaces and the commands say.
\<close>

theorem discoverPathMTU_bounds:
  "1280 \<le> discoverPathMTU os ep \<and> discoverPathMTU os ep + wireGuardOverhead ep \<le> 1500"
  using discoverPathMTU_cases [of os ep] wireGuardOverhead_cases [of ep]
  by (auto simp: computeTunnelMTU_eq)

text \<open>
  A configured MTU is the flag if there is one, else the environment variable, else 0 for
  automatic discovery; it is in the range 1280 to 1500 or an error is reported.
\<close>

theorem resolveConfiguredMTU_correct:
  "(case resolveConfiguredMTU cliMTU envMTU of
      Inr m \<Rightarrow>
        (if cliMTU \<noteq> 0 then m = cliMTU \<and> 1280 \<le> m \<and> m \<le> 1500
         else if trimSpace envMTU = [] then m = 0
         else atoi (trimSpace envMTU) = Some m \<and> 1280 \<le> m \<and> m \<le> 1500)
    | Inl e \<Rightarrow>
        (if cliMTU \<noteq> 0 then e = FlagMTURange cliMTU \<and> (cliMTU < 1280 \<or> 1500 < cliMTU)
         else (case atoi (trimSpace envMTU) of
                 None \<Rightarrow> e = EnvMTUSyntax (trimSpace envMTU)
               | Some v \<Rightarrow> e = EnvMTURange v \<and> (v < 1280 \<or> 1500 < v))))"
  by (auto simp: resolveConfiguredMTU_def Let_def minConfiguredMTU_def maxConfiguredMTU_def split: option.splits)

text \<open>
  A generated key pair is usable: the private key is clamped as Curve25519 requires and
  otherwise the random bytes, and both keys survive the conversion to the hexadecimal form
  that the WireGuard device is configured with.
\<close>

theorem wgKeypair_correct:
  assumes "length priv = 32" and "x25519 (clamp_key priv) = Some pub" and "length pub = 32"
  shows "\<exists>p q. wgKeypair x25519 (Some priv) = Some (p, q) \<and>
    b64KeyToHex p = Inr (hex_encode (clamp_key priv)) \<and> b64KeyToHex q = Inr (hex_encode pub) \<and>
    (clamp_key priv ! 0) AND 7 = 0 \<and> bit (clamp_key priv ! 31) 6 \<and> \<not> bit (clamp_key priv ! 31) 7 \<and>
    (\<forall>i. 0 < i \<and> i < 31 \<longrightarrow> clamp_key priv ! i = priv ! i)"
  using assms clamp_bits
  by (simp add: wgKeypair_def b64KeyToHex_encode clamp_key_nth)

theorem wgKeypair_correct_witness:
  "\<exists>p q. wgKeypair (\<lambda>k. Some (replicate 32 9)) (Some (replicate 32 255)) = Some (p, q) \<and>
    b64KeyToHex q = Inr (hex_encode (replicate 32 9)) \<and> \<not> bit (clamp_key (replicate 32 255) ! 31) 7"
  using wgKeypair_correct [of "replicate 32 255" "\<lambda>k. Some (replicate 32 9)" "replicate 32 9"]
  by (simp only: length_replicate simp_thms) blast

text \<open>
  C14. From Open on, the receive routine of each socket hands WireGuard exactly the datagrams that are
  not STUN, in order, whatever requests are interleaved with them and whatever state an earlier Close
  left the bind in; no request makes the client panic, and as long as the bind is open it goes on
  waiting. A Close by another goroutine wakes it, whatever else is still to arrive, and it reports a
  closed bind, so that the device can stop; an error of the socket alone is reported as it is.
\<close>

theorem stunBind_receive:
  assumes "sb_nomination b = Some t" and "nom_run h t" and "bind_conn v4 b = Some c" and "\<not> uc_closed c"
  defines "opened \<equiv> fst (bind_Open b)"
  shows "(\<exists>b'. bind_receiveAll lib v4 opened (map bind_data pkts) [] = Inr (filter for_wireguard pkts, RecvBlocked, b')) \<and>
    (\<exists>b'. bind_receiveAll lib v4 opened (map bind_data pkts @ BindCloseCall now # later) [] =
       Inr (filter for_wireguard pkts, RecvErrClosed, b')) \<and>
    (\<exists>b'. bind_receiveAll lib v4 opened (map bind_data pkts @ BindError # later) [] =
       Inr (filter for_wireguard pkts, RecvError, b'))"
proof -
  have inv: "bind_inv opened" "sb_done opened = Some False"
    using nom_run_inv [OF assms(2)] assms(1) by (simp_all add: bind_inv_def bind_Open_def opened_def)
  have reads: "conn_reads (bind_conn v4 opened)" unfolding opened_def by (rule bind_Open_reads [OF assms(3,4)])
  have step: "\<exists>b'. sb_done b' = Some False \<and> conn_reads (bind_conn v4 b') \<and>
      bind_receiveAll lib v4 opened (map bind_data pkts @ rest) [] = bind_receiveAll lib v4 b' rest (filter for_wireguard pkts)" for rest
  proof -
    obtain b' where b': "bind_same opened b'" "bind_receiveAll lib v4 opened (map bind_data pkts @ rest) [] =
        bind_receiveAll lib v4 b' rest ([] @ filter for_wireguard pkts)"
      using bind_receiveAll_data [OF inv(1) reads, of lib pkts rest "[]"] by blast
    then have "sb_done b' = Some False" "conn_reads (bind_conn v4 b')"
      using inv(2) reads by (simp_all add: bind_same_conn, simp add: bind_same_def)
    with b'(2) show ?thesis by (simp only: append_Nil) blast
  qed
  have "recv_failed (bind_Close now b') = RecvErrClosed" if "sb_done b' = Some False" for b'
    using that by (simp add: recv_failed_def bind_Close_def)
  then have closed: "bind_receiveAll lib v4 b' (BindCloseCall now # later) acc = Inr (acc, RecvErrClosed, bind_Close now b')"
    if "sb_done b' = Some False" "conn_reads (bind_conn v4 b')" for b' acc
    using that bind_receiveAll_failed [OF bind_Close_reads, of lib v4 now b' later acc]
    by (simp add: bind_receiveAll.simps [of lib v4 b'] bind_receiveAll.simps [of lib v4 "bind_Close now b'"])
  have waiting: "bind_receiveAll lib v4 b' [] acc = Inr (acc, RecvBlocked, b')"
    and failed: "bind_receiveAll lib v4 b' (BindError # later) acc = Inr (acc, RecvError, b')"
    if "sb_done b' = Some False" "conn_reads (bind_conn v4 b')" for b' acc
    using that by (simp_all add: bind_receiveAll.simps [of lib v4 b'] recv_failed_def)
  show ?thesis
  proof (intro conjI)
    show "\<exists>b'. bind_receiveAll lib v4 opened (map bind_data pkts) [] = Inr (filter for_wireguard pkts, RecvBlocked, b')"
      using step [of "[]", unfolded append_Nil2] waiting by metis
    show "\<exists>b'. bind_receiveAll lib v4 opened (map bind_data pkts @ BindCloseCall now # later) [] =
        Inr (filter for_wireguard pkts, RecvErrClosed, b')"
      using step [of "BindCloseCall now # later"] closed by metis
    show "\<exists>b'. bind_receiveAll lib v4 opened (map bind_data pkts @ BindError # later) [] =
        Inr (filter for_wireguard pkts, RecvError, b')"
      using step [of "BindError # later"] failed by metis
  qed
qed

theorem stunBind_receive_witness:
  "\<exists>b'. bind_receiveAll ex_stun True
      (fst (bind_Open (bind_Close 5 (newStunBind ex_v4_sockets ''s'' (Some newNominationTracker)))))
      (map bind_data [(ex_datagram, (Addr4 [192, 0, 2, 7], 4500)), ([4, 0, 0, 0], (Addr4 [192, 0, 2, 7], 4500))] @
       [BindCloseCall 9]) [] =
    Inr ([([4, 0, 0, 0], (Addr4 [192, 0, 2, 7], 4500))], RecvErrClosed, b')"
proof -
  let ?b = "bind_Close 5 (newStunBind ex_v4_sockets ''s'' (Some newNominationTracker))"
  have "isSTUN ex_datagram" by (simp add: isSTUN_def ex_datagram_def be_uint32_def word_rcat_def)
  moreover have "\<not> isSTUN [4, 0, 0, 0]" by (simp add: isSTUN_def)
  moreover have "sb_nomination ?b = Some newNominationTracker" by (simp add: bind_Close_def newStunBind_def)
  moreover have "bind_conn True ?b = Some \<lparr>uc_readDeadline = Some 5, uc_closed = False\<rparr>"
    by (simp add: bind_Close_def newStunBind_def bind_conn_def conn_SetReadDeadline_def ex_v4_sockets_def)
  ultimately show ?thesis
    using stunBind_receive [of ?b newNominationTracker "[]" True "\<lparr>uc_readDeadline = Some 5, uc_closed = False\<rparr>" ex_stun
        "[(ex_datagram, (Addr4 [192, 0, 2, 7], 4500)), ([4, 0, 0, 0], (Addr4 [192, 0, 2, 7], 4500))]" 9 "[]"] nom_new
    by simp
qed

end
