(* ===== verification/Tun_Dns.thy ===== *)
theory Tun_Dns
  imports Tun_Device "HOL-Library.Multiset"
begin

text \<open>
  Name resolution inside the tunnel (\<^verbatim>\<open>internal/tunnet/tun.go\<close>): which names are looked up, what
  is sent, which answers are accepted, and how answers of several servers and of two address
  families are put together.

  The DNS message codec (\<^verbatim>\<open>dnsmessage\<close>) and the connections (gVisor) are not part of the
  repository. The codec is the record \<open>dns_lib\<close>: it builds the bytes of a question, and reads
  bytes into a header, the first question, whether the section of questions ends after it,
  and the answers as the parser meets them one after the other.
\<close>

section \<open>Names\<close>

record name_scan =
  sc_last :: char
  sc_nonNumeric :: bool
  sc_partlen :: nat

definition name_step :: "name_scan \<Rightarrow> char \<Rightarrow> name_scan option" where
  "name_step st c =
     (if is_lower c \<or> is_upper c \<or> c = CHR ''_''
      then Some (st\<lparr>sc_nonNumeric := True, sc_partlen := sc_partlen st + 1, sc_last := c\<rparr>)
      else if is_digit c then Some (st\<lparr>sc_partlen := sc_partlen st + 1, sc_last := c\<rparr>)
      else if c = CHR ''-'' then
        (if sc_last st = CHR ''.'' then None
         else Some (st\<lparr>sc_partlen := sc_partlen st + 1, sc_nonNumeric := True, sc_last := c\<rparr>))
      else if c = CHR ''.'' then
        (if sc_last st = CHR ''.'' \<or> sc_last st = CHR ''-'' then None
         else if sc_partlen st > 63 \<or> sc_partlen st = 0 then None
         else Some (st\<lparr>sc_partlen := 0, sc_last := c\<rparr>))
      else None)"

fun name_scan_all :: "name_scan \<Rightarrow> string \<Rightarrow> name_scan option" where
  "name_scan_all st [] = Some st"
| "name_scan_all st (c # cs) = (case name_step st c of None \<Rightarrow> None | Some st' \<Rightarrow> name_scan_all st' cs)"

definition isDomainName :: "string \<Rightarrow> bool" where
  "isDomainName s =
     (let l = length s in
      if l = 0 \<or> l > 254 \<or> l = 254 \<and> s ! (l - 1) \<noteq> CHR ''.'' then False
      else case name_scan_all \<lparr>sc_last = CHR ''.'', sc_nonNumeric = False, sc_partlen = 0\<rparr> s of
        None \<Rightarrow> False
      | Some st \<Rightarrow>
          (if sc_last st = CHR ''-'' \<or> sc_partlen st > 63 then False else sc_nonNumeric st))"

section \<open>Messages\<close>

datatype rr_type = TypeA | TypeAAAA | OtherType nat

record dns_question =
  dq_Name :: "byte list"
  dq_Type :: rr_type
  dq_Class :: nat

datatype rcode = RCodeSuccess | RCodeServerFailure | RCodeNameError | OtherRCode nat

record dns_header =
  dh_ID :: "16 word"
  dh_Response :: bool
  dh_Authoritative :: bool
  dh_Truncated :: bool
  dh_RecursionAvailable :: bool
  dh_RCode :: rcode

text \<open>
  One answer: its header can not be read; or it has a type, can be skipped or not, and has the
  bytes of an address if it is the resource of one that can be read.
\<close>

datatype dns_answer = BadAnswer | Answer rr_type bool "byte list option"

record dns_message =
  dm_header :: dns_header
  dm_question :: "dns_question option"
  dm_oneQuestion :: bool
  dm_answers :: "dns_answer list"

record dns_lib =
  dl_newName :: "string \<Rightarrow> byte list option"
  dl_build :: "16 word \<Rightarrow> dns_question \<Rightarrow> byte list option"
  dl_start :: "byte list \<Rightarrow> dns_message option"

datatype dns_err =
    NoSuchHost | LameReferral | CannotUnmarshal | CannotMarshal | ServerMisbehaving | InvalidDNSResponse
  | NoAnswer | ServerTemporarilyMisbehaving | DnsCanceled | DnsTimeout
  | CtxCanceled | CtxDeadlineExceeded
  | DnsIO bool bool \<comment> \<open>an error of a connection: is it a timeout, is it an \<^verbatim>\<open>OpError\<close>\<close>

definition classINET :: nat where
  "classINET = 1"

definition randU16 :: "byte \<Rightarrow> byte \<Rightarrow> 16 word" where
  "randU16 b0 b1 = of_nat (unat b0 + 256 * unat b1)"

text \<open>The request for UDP, and for TCP with its length in front.\<close>

definition newRequest :: "dns_lib \<Rightarrow> 16 word \<Rightarrow> dns_question \<Rightarrow> (byte list \<times> byte list) option" where
  "newRequest lib qid q =
     map_option (\<lambda>m. (m, [of_nat (length m div 256), of_nat (length m)] @ m)) (dl_build lib qid q)"

definition lower_byte :: "byte \<Rightarrow> byte" where
  "lower_byte b = (if 65 \<le> b \<and> b \<le> 90 then b + 32 else b)"

definition equalASCIIName :: "byte list \<Rightarrow> byte list \<Rightarrow> bool" where
  "equalASCIIName x y = (length x = length y \<and> list_all (\<lambda>(a, b). lower_byte a = lower_byte b) (zip x y))"

definition checkResponse :: "16 word \<Rightarrow> dns_question \<Rightarrow> dns_header \<Rightarrow> dns_question \<Rightarrow> bool" where
  "checkResponse reqID reqQues respHdr respQues =
     (dh_Response respHdr \<and> reqID = dh_ID respHdr \<and> dq_Type reqQues = dq_Type respQues \<and>
      dq_Class reqQues = dq_Class respQues \<and> equalASCIIName (dq_Name reqQues) (dq_Name respQues))"

text \<open>
  \<^verbatim>\<open>dnsPacketRoundTrip\<close> after the write: reads of at most 512 bytes until an answer fits or a
  read fails. A connection that is never answered fails by its deadline, so the list of reads
  ends with an error; running off its end stands for a read that does not return.
\<close>

fun packet_reads :: "dns_lib \<Rightarrow> 16 word \<Rightarrow> dns_question \<Rightarrow> (dns_err + byte list) list \<Rightarrow> (dns_err + dns_message) option" where
  "packet_reads lib qid query [] = None"
| "packet_reads lib qid query (Inl e # rs) = Some (Inl e)"
| "packet_reads lib qid query (Inr b # rs) =
     (case dl_start lib (take 512 b) of
        None \<Rightarrow> packet_reads lib qid query rs
      | Some m \<Rightarrow>
          (case dm_question m of
             None \<Rightarrow> packet_reads lib qid query rs
           | Some q \<Rightarrow>
               (if checkResponse qid query (dm_header m) q then Some (Inr m)
                else packet_reads lib qid query rs)))"

definition dnsPacketRoundTrip ::
  "dns_lib \<Rightarrow> dns_err option \<Rightarrow> (dns_err + byte list) list \<Rightarrow> 16 word \<Rightarrow> dns_question \<Rightarrow> (dns_err + dns_message) option" where
  "dnsPacketRoundTrip lib writeErr reads qid query =
     (case writeErr of Some e \<Rightarrow> Some (Inl e) | None \<Rightarrow> packet_reads lib qid query reads)"

text \<open>\<^verbatim>\<open>dnsStreamRoundTrip\<close>: \<open>stream\<close> is what the connection delivers before it fails with \<open>e\<close>.\<close>

definition dnsStreamRoundTrip ::
  "dns_lib \<Rightarrow> dns_err option \<Rightarrow> byte list \<Rightarrow> dns_err \<Rightarrow> 16 word \<Rightarrow> dns_question \<Rightarrow> dns_err + dns_message" where
  "dnsStreamRoundTrip lib writeErr stream e qid query =
     (case writeErr of
        Some we \<Rightarrow> Inl we
      | None \<Rightarrow>
          (if length stream < 2 then Inl e
           else
             let l = unat (stream ! 0) * 256 + unat (stream ! 1)
             in if length (drop 2 stream) < l then Inl e
                else case dl_start lib (take l (drop 2 stream)) of
                  None \<Rightarrow> Inl CannotUnmarshal
                | Some m \<Rightarrow>
                    (case dm_question m of
                       None \<Rightarrow> Inl CannotUnmarshal
                     | Some q \<Rightarrow>
                         (if \<not> checkResponse qid query (dm_header m) q then Inl InvalidDNSResponse else Inr m))))"

text \<open>
  What one exchange with a server meets: whether dialling and setting the deadline succeed for
  each transport, the write, and what the connection delivers.
\<close>

record exchange_env =
  ex_id :: "16 word"
  ex_dialUDP :: "dns_err option"
  ex_deadlineUDP :: "dns_err option"
  ex_writeUDP :: "dns_err option"
  ex_reads :: "(dns_err + byte list) list"
  ex_dialTCP :: "dns_err option"
  ex_deadlineTCP :: "dns_err option"
  ex_writeTCP :: "dns_err option"
  ex_stream :: "byte list"
  ex_streamErr :: dns_err

text \<open>The errors of a context are renamed when they end a round trip, not when they end a dial.\<close>

fun round_trip_err :: "dns_err + 'a \<Rightarrow> dns_err + 'a" where
  "round_trip_err (Inl CtxCanceled) = Inl DnsCanceled"
| "round_trip_err (Inl CtxDeadlineExceeded) = Inl DnsTimeout"
| "round_trip_err r = r"

definition exchange_udp :: "dns_lib \<Rightarrow> exchange_env \<Rightarrow> dns_question \<Rightarrow> (dns_err + dns_message) option" where
  "exchange_udp lib env q =
     (case ex_dialUDP env of
        Some e \<Rightarrow> Some (Inl e)
      | None \<Rightarrow>
          (case ex_deadlineUDP env of
             Some e \<Rightarrow> Some (Inl e)
           | None \<Rightarrow>
               map_option round_trip_err (dnsPacketRoundTrip lib (ex_writeUDP env) (ex_reads env) (ex_id env) q)))"

definition exchange_tcp :: "dns_lib \<Rightarrow> exchange_env \<Rightarrow> dns_question \<Rightarrow> dns_err + dns_message" where
  "exchange_tcp lib env q =
     (case ex_dialTCP env of
        Some e \<Rightarrow> Inl e
      | None \<Rightarrow>
          (case ex_deadlineTCP env of
             Some e \<Rightarrow> Inl e
           | None \<Rightarrow>
               round_trip_err
                 (dnsStreamRoundTrip lib (ex_writeTCP env) (ex_stream env) (ex_streamErr env) (ex_id env) q)))"

text \<open>\<open>None\<close>: the exchange does not return.\<close>

definition exchange :: "dns_lib \<Rightarrow> exchange_env \<Rightarrow> dns_question \<Rightarrow> (dns_err + dns_message) option" where
  "exchange lib env q =
     (let q = q\<lparr>dq_Class := classINET\<rparr>
      in case newRequest lib (ex_id env) q of
           None \<Rightarrow> Some (Inl CannotMarshal)
         | Some _ \<Rightarrow>
             (case exchange_udp lib env q of
                None \<Rightarrow> None
              | Some (Inl e) \<Rightarrow> Some (Inl e)
              | Some (Inr m) \<Rightarrow>
                  (if \<not> dm_oneQuestion m then Some (Inl InvalidDNSResponse)
                   else if \<not> dh_Truncated (dm_header m) then Some (Inr m)
                   else case exchange_tcp lib env q of
                     Inl e \<Rightarrow> Some (Inl e)
                   | Inr m' \<Rightarrow>
                       (if \<not> dm_oneQuestion m' then Some (Inl InvalidDNSResponse)
                        else if dh_Truncated (dm_header m') then Some (Inl NoAnswer)
                        else Some (Inr m')))))"

section \<open>Answers\<close>

definition checkHeader :: "dns_message \<Rightarrow> dns_err option" where
  "checkHeader m =
     (let h = dm_header m in
      if dh_RCode h = RCodeNameError then Some NoSuchHost
      else if dm_answers m \<noteq> [] \<and> hd (dm_answers m) = BadAnswer then Some CannotUnmarshal
      else if dh_RCode h = RCodeSuccess \<and> \<not> dh_Authoritative h \<and> \<not> dh_RecursionAvailable h \<and> dm_answers m = []
      then Some LameReferral
      else if dh_RCode h \<noteq> RCodeSuccess \<and> dh_RCode h \<noteq> RCodeNameError then
        (if dh_RCode h = RCodeServerFailure then Some ServerTemporarilyMisbehaving else Some ServerMisbehaving)
      else None)"

text \<open>The answers from the first one of the wanted type on.\<close>

fun skipToAnswer :: "rr_type \<Rightarrow> dns_answer list \<Rightarrow> dns_err + dns_answer list" where
  "skipToAnswer qtype [] = Inl NoSuchHost"
| "skipToAnswer qtype (BadAnswer # as) = Inl CannotUnmarshal"
| "skipToAnswer qtype (Answer t ok b # as) =
     (if t = qtype then Inr (Answer t ok b # as)
      else if \<not> ok then Inl CannotUnmarshal
      else skipToAnswer qtype as)"

record dns_error =
  de_Err :: dns_err
  de_Name :: string
  de_Server :: string
  de_IsTimeout :: bool
  de_IsTemporary :: bool
  de_IsNotFound :: bool

definition dnsError :: "dns_err \<Rightarrow> string \<Rightarrow> string \<Rightarrow> dns_error" where
  "dnsError e name server =
     \<lparr>de_Err = e, de_Name = name, de_Server = server,
      de_IsTimeout = False, de_IsTemporary = False, de_IsNotFound = False\<rparr>"

fun err_Timeout :: "dns_err \<Rightarrow> bool" where
  "err_Timeout (DnsIO t op) = t"
| "err_Timeout CtxDeadlineExceeded = True"
| "err_Timeout _ = False"

fun err_OpError :: "dns_err \<Rightarrow> bool" where
  "err_OpError (DnsIO t op) = op"
| "err_OpError _ = False"

text \<open>
  One step of the loops of \<^verbatim>\<open>tryOneName\<close>: it ends with a result or leaves an error for the next
  server. \<open>None\<close> as a result of \<open>exch\<close> is an exchange that does not return.
\<close>

datatype name_result = NameStuck | NameDone "dns_error + dns_answer list" string | NameNext dns_error

definition tryServer ::
  "(netip_addr \<Rightarrow> (dns_err + dns_message) option) \<Rightarrow> string \<Rightarrow> rr_type \<Rightarrow> netip_addr \<Rightarrow> name_result" where
  "tryServer exch name qtype server =
     (let s = addr_String server in
      case exch server of
        None \<Rightarrow> NameStuck
      | Some (Inl e) \<Rightarrow>
          NameNext ((dnsError e name s)\<lparr>de_IsTimeout := err_Timeout e, de_IsTemporary := err_OpError e\<rparr>)
      | Some (Inr m) \<Rightarrow>
          (case checkHeader m of
             Some e \<Rightarrow>
               (let dnsErr = (dnsError e name s)\<lparr>de_IsTemporary := (e = ServerTemporarilyMisbehaving)\<rparr>
                in if e = NoSuchHost then NameDone (Inl (dnsErr\<lparr>de_IsNotFound := True\<rparr>)) s else NameNext dnsErr)
           | None \<Rightarrow>
               (case skipToAnswer qtype (dm_answers m) of
                  Inr as \<Rightarrow> NameDone (Inr as) s
                | Inl e \<Rightarrow>
                    (if e = NoSuchHost then NameDone (Inl ((dnsError e name s)\<lparr>de_IsNotFound := True\<rparr>)) s
                     else NameNext (dnsError e name s)))))"

text \<open>
  The servers asked, in the order of the two rounds; \<open>exch i\<close> is the exchange of the \<open>i\<close>th
  attempt. The result is an error (absent when there is no server to ask), or the answers
  and the server.
\<close>

fun tryServers ::
  "(nat \<Rightarrow> netip_addr \<Rightarrow> (dns_err + dns_message) option) \<Rightarrow> string \<Rightarrow> rr_type \<Rightarrow> nat \<Rightarrow> netip_addr list \<Rightarrow>
   dns_error option \<Rightarrow> (dns_error option + dns_answer list \<times> string) option" where
  "tryServers exch name qtype i [] lastErr = Some (Inl lastErr)"
| "tryServers exch name qtype i (server # servers) lastErr =
     (case tryServer (exch i) name qtype server of
        NameStuck \<Rightarrow> None
      | NameDone (Inl e) s \<Rightarrow> Some (Inl (Some e))
      | NameDone (Inr as) s \<Rightarrow> Some (Inr (as, s))
      | NameNext e \<Rightarrow> tryServers exch name qtype (i + 1) servers (Some e))"

definition tryOneName ::
  "dns_lib \<Rightarrow> netTun \<Rightarrow> (rr_type \<Rightarrow> nat \<Rightarrow> netip_addr \<Rightarrow> exchange_env) \<Rightarrow> string \<Rightarrow> rr_type \<Rightarrow>
   (dns_error option + dns_answer list \<times> string) option" where
  "tryOneName lib tnet env name qtype =
     (case dl_newName lib name of
        None \<Rightarrow> Some (Inl (Some (dnsError CannotMarshal [] [])))
      | Some n \<Rightarrow>
          (let q = \<lparr>dq_Name = n, dq_Type = qtype, dq_Class = classINET\<rparr>
           in tryServers (\<lambda>i server. exchange lib (env qtype i server) q) name qtype 0
                (nt_dnsServers tnet @ nt_dnsServers tnet) None))"

section \<open>Looking up a host\<close>

text \<open>The addresses found so far, and the last error.\<close>

record lookup_acc =
  la_v4 :: "netip_addr list"
  la_v6 :: "netip_addr list"
  la_lastErr :: "dns_error option"

text \<open>The loop over the answers of one lane.\<close>

fun lookup_answers :: "string \<Rightarrow> string \<Rightarrow> dns_answer list \<Rightarrow> lookup_acc \<Rightarrow> lookup_acc" where
  "lookup_answers host server [] acc = acc"
| "lookup_answers host server (BadAnswer # as) acc = acc\<lparr>la_lastErr := Some (dnsError CannotMarshal host server)\<rparr>"
| "lookup_answers host server (Answer t ok b # as) acc =
     (case t of
        TypeA \<Rightarrow>
          (case b of
             None \<Rightarrow> acc\<lparr>la_lastErr := Some (dnsError CannotMarshal host server)\<rparr>
           | Some a \<Rightarrow> lookup_answers host server as (acc\<lparr>la_v4 := la_v4 acc @ [Addr4 a]\<rparr>))
      | TypeAAAA \<Rightarrow>
          (case b of
             None \<Rightarrow> acc\<lparr>la_lastErr := Some (dnsError CannotMarshal host server)\<rparr>
           | Some a \<Rightarrow> lookup_answers host server as (acc\<lparr>la_v6 := la_v6 acc @ [Addr6 a []]\<rparr>))
      | OtherType _ \<Rightarrow>
          (if ok then lookup_answers host server as acc
           else acc\<lparr>la_lastErr := Some (dnsError CannotMarshal host server)\<rparr>))"

text \<open>
  One result of a lane. A lane without a server to ask has neither an error nor a started
  parser, which is met at the first answer.
\<close>

definition lookup_lane :: "string \<Rightarrow> lookup_acc \<Rightarrow> dns_error option + dns_answer list \<times> string \<Rightarrow> lookup_acc" where
  "lookup_lane host acc r =
     (case r of
        Inl (Some e) \<Rightarrow> (if la_lastErr acc = None then acc\<lparr>la_lastErr := Some e\<rparr> else acc)
      | Inl None \<Rightarrow> acc\<lparr>la_lastErr := Some (dnsError CannotMarshal host [])\<rparr>
      | Inr (as, server) \<Rightarrow> lookup_answers host server as acc)"

definition lookup_addrs :: "bool \<Rightarrow> lookup_acc \<Rightarrow> netip_addr list" where
  "lookup_addrs hasV6 acc = (if hasV6 then la_v6 acc @ la_v4 acc else la_v4 acc @ la_v6 acc)"

definition lookup_result :: "bool \<Rightarrow> string \<Rightarrow> (dns_error option + dns_answer list \<times> string) list \<Rightarrow> dns_error + string list" where
  "lookup_result hasV6 host rs =
     (let acc = foldl (lookup_lane host) \<lparr>la_v4 = [], la_v6 = [], la_lastErr = None\<rparr> rs;
          addrs = lookup_addrs hasV6 acc
      in case la_lastErr acc of
           Some e \<Rightarrow> (if addrs = [] then Inl e else Inr (map addr_String addrs))
         | None \<Rightarrow> Inr (map addr_String addrs))"

definition lookup_literal :: "string \<Rightarrow> netip_addr option" where
  "lookup_literal host =
     parseAddr (if CHR '':'' \<in> set host
                then (case lastIndexByte (CHR ''%'') host of None \<Rightarrow> host | Some z \<Rightarrow> take z host) else host)"

text \<open>
  \<open>one\<close> is \<^verbatim>\<open>tryOneName\<close>; \<open>v6First\<close> says which of two lanes delivers first. \<open>None\<close>: a lane never
  delivers.
\<close>

definition LookupContextHost ::
  "netTun \<Rightarrow> (string \<Rightarrow> rr_type \<Rightarrow> (dns_error option + dns_answer list \<times> string) option) \<Rightarrow> bool \<Rightarrow> string \<Rightarrow>
   (dns_error + string list) option" where
  "LookupContextHost tnet one v6First host =
     (let notFound = (dnsError NoSuchHost host [])\<lparr>de_IsNotFound := True\<rparr> in
      if host = [] \<or> \<not> nt_hasV6 tnet \<and> \<not> nt_hasV4 tnet then Some (Inl notFound)
      else case lookup_literal host of
        Some ip \<Rightarrow> Some (Inr [addr_String ip])
      | None \<Rightarrow>
          (if \<not> isDomainName host then Some (Inl notFound)
           else
             let lanes = (if v6First then [TypeAAAA, TypeA] else [TypeA, TypeAAAA]);
                 used = filter (\<lambda>t. if t = TypeA then nt_hasV4 tnet else nt_hasV6 tnet) lanes
             in case those (map (one (host @ ''.'')) used) of
                  None \<Rightarrow> None
                | Some rs \<Rightarrow> Some (lookup_result (nt_hasV6 tnet) host rs)))"

section \<open>Names: lemmas\<close>

text \<open>A label, and a name as its labels; one empty label may stand at the end.\<close>

definition label_char :: "char \<Rightarrow> bool" where
  "label_char c = (is_lower c \<or> is_upper c \<or> is_digit c \<or> c = CHR ''_'' \<or> c = CHR ''-'')"

definition good_label :: "string \<Rightarrow> bool" where
  "good_label w =
     (w \<noteq> [] \<and> length w \<le> 63 \<and> list_all label_char w \<and> hd w \<noteq> CHR ''-'' \<and> last w \<noteq> CHR ''-'')"

definition name_labels :: "string \<Rightarrow> string list" where
  "name_labels s = (let ls = split_on (CHR ''.'') s in if last ls = [] then butlast ls else ls)"

definition domain_name :: "string \<Rightarrow> bool" where
  "domain_name s =
     (s \<noteq> [] \<and> length s \<le> 254 \<and> (length s = 254 \<longrightarrow> last s = CHR ''.'') \<and>
      name_labels s \<noteq> [] \<and> list_all good_label (name_labels s) \<and>
      list_ex (\<lambda>c. label_char c \<and> \<not> is_digit c) s)"

abbreviation non_digit :: "char \<Rightarrow> bool" where
  "non_digit c \<equiv> label_char c \<and> \<not> is_digit c"

lemma char_classes:
  "\<not> is_lower (CHR ''-'')" "\<not> is_upper (CHR ''-'')" "\<not> is_digit (CHR ''-'')" "\<not> is_digit (CHR ''_'')"
  "\<not> label_char (CHR ''.'')" "is_lower c \<Longrightarrow> \<not> is_digit c" "is_upper c \<Longrightarrow> \<not> is_digit c"
  "\<not> is_lower (CHR ''.'')" "\<not> is_upper (CHR ''.'')" "\<not> is_digit (CHR ''.'')"
  by (auto simp: label_char_def is_lower_def is_upper_def is_digit_def char_in_def)

lemma name_step_label:
  assumes "c \<noteq> CHR ''.''"
  shows "name_step st c =
    (if label_char c \<and> \<not> (c = CHR ''-'' \<and> sc_last st = CHR ''.'')
     then Some (st\<lparr>sc_nonNumeric := (sc_nonNumeric st \<or> non_digit c), sc_partlen := sc_partlen st + 1, sc_last := c\<rparr>)
     else None)"
  using assms by (auto simp: name_step_def label_char_def char_classes)

text \<open>Scanning a word without dots.\<close>

lemma scan_word:
  assumes "CHR ''.'' \<notin> set w"
  shows "name_scan_all st w =
    (if list_all label_char w \<and> (w \<noteq> [] \<and> sc_last st = CHR ''.'' \<longrightarrow> hd w \<noteq> CHR ''-'')
     then Some (st\<lparr>sc_nonNumeric := (sc_nonNumeric st \<or> list_ex non_digit w), sc_partlen := sc_partlen st + length w,
                   sc_last := (if w = [] then sc_last st else last w)\<rparr>)
     else None)"
  using assms
proof (induction w arbitrary: st)
  case (Cons c w)
  then have c: "c \<noteq> CHR ''.''" and w: "CHR ''.'' \<notin> set w" by auto
  show ?case by (auto simp: name_step_label [OF c] Cons.IH [OF w] c)
qed simp

lemma name_scan_append:
  "name_scan_all st (xs @ ys) = Option.bind (name_scan_all st xs) (\<lambda>st'. name_scan_all st' ys)"
  by (induction xs arbitrary: st) (auto split: option.split)

definition scan_ok :: "name_scan option \<Rightarrow> bool" where
  "scan_ok r = (case r of None \<Rightarrow> False | Some st \<Rightarrow> sc_last st \<noteq> CHR ''-'' \<and> sc_partlen st \<le> 63 \<and> sc_nonNumeric st)"

abbreviation label_start :: "bool \<Rightarrow> name_scan" where
  "label_start nn \<equiv> \<lparr>sc_last = CHR ''.'', sc_nonNumeric = nn, sc_partlen = 0\<rparr>"

lemma scan_label:
  assumes "CHR ''.'' \<notin> set w"
  shows "scan_ok (name_scan_all (label_start nn) w) \<longleftrightarrow> (w = [] \<or> good_label w) \<and> (nn \<or> list_ex non_digit w)"
    and "name_scan_all (label_start nn) (w @ CHR ''.'' # r) =
      (if good_label w then name_scan_all (label_start (nn \<or> list_ex non_digit w)) r else None)"
proof -
  note sw = scan_word [OF assms, of "label_start nn"]
  show "scan_ok (name_scan_all (label_start nn) w) \<longleftrightarrow> (w = [] \<or> good_label w) \<and> (nn \<or> list_ex non_digit w)"
    by (auto simp: sw scan_ok_def good_label_def)
  have l: "last w \<noteq> CHR ''.''" if "w \<noteq> []" using assms last_in_set [OF that] by metis
  show "name_scan_all (label_start nn) (w @ CHR ''.'' # r) =
      (if good_label w then name_scan_all (label_start (nn \<or> list_ex non_digit w)) r else None)"
    using l by (auto simp: name_scan_append sw name_step_def good_label_def char_classes)
qed

lemma split_on_notin: "c \<notin> set w \<Longrightarrow> split_on c w = [w]"
  by (induction w) auto

lemma split_on_first: "c \<notin> set xs \<Longrightarrow> split_on c (xs @ c # ys) = xs # split_on c ys"
  by (induction xs) auto

lemma split_on_not_Nil: "split_on c s \<noteq> []"
  by (cases s) (auto split: list.split)

lemma scan_labels:
  "scan_ok (name_scan_all (label_start nn) s) \<longleftrightarrow>
     (let ls = split_on (CHR ''.'') s
      in list_all good_label (butlast ls) \<and> (last ls = [] \<or> good_label (last ls)) \<and> (nn \<or> list_ex non_digit s))"
proof (induction s arbitrary: nn rule: length_induct)
  case (1 s)
  show ?case
  proof (cases "CHR ''.'' \<in> set s")
    case False
    then show ?thesis by (simp add: scan_label(1) split_on_notin)
  next
    case True
    then obtain w r where s: "s = w @ CHR ''.'' # r" "CHR ''.'' \<notin> set w" by (metis split_list_first)
    then have "length r < length s" by simp
    with 1 have ih: "scan_ok (name_scan_all (label_start nn') r) \<longleftrightarrow>
       (let ls = split_on (CHR ''.'') r
        in list_all good_label (butlast ls) \<and> (last ls = [] \<or> good_label (last ls)) \<and> (nn' \<or> list_ex non_digit r))" for nn'
      by blast
    show ?thesis
      using ih [of "nn \<or> list_ex non_digit w"] split_on_not_Nil [of "CHR ''.''" r] char_classes(5)
      by (auto simp: s scan_label(2) split_on_first scan_ok_def [of None] Let_def)
  qed
qed

section \<open>Answers: lemmas\<close>

lemma equalASCIIName_map: "equalASCIIName x y \<longleftrightarrow> map lower_byte x = map lower_byte y"
proof -
  have "length x = length y \<Longrightarrow> list_all (\<lambda>(a, b). lower_byte a = lower_byte b) (zip x y) \<longleftrightarrow> map lower_byte x = map lower_byte y"
    by (induction x y rule: list_induct2) auto
  then show ?thesis using map_eq_imp_length_eq unfolding equalASCIIName_def by blast
qed

text \<open>A message that a query accepts.\<close>

definition accepted :: "16 word \<Rightarrow> dns_question \<Rightarrow> dns_message \<Rightarrow> bool" where
  "accepted qid query m = (case dm_question m of None \<Rightarrow> False | Some q \<Rightarrow> checkResponse qid query (dm_header m) q)"

lemma packet_reads_accepted: "packet_reads lib qid query rs = Some (Inr m) \<Longrightarrow> accepted qid query m"
proof (induction rs)
  case (Cons r rs)
  then show ?case by (cases r) (auto simp: accepted_def split: option.splits if_splits)
qed simp

lemma stream_accepted: "dnsStreamRoundTrip lib w st e qid query = Inr m \<Longrightarrow> accepted qid query m"
  by (auto simp: dnsStreamRoundTrip_def accepted_def Let_def split: option.splits if_splits)

lemma round_trip_err_Inr: "round_trip_err r = Inr m \<longleftrightarrow> r = Inr m"
  by (cases r rule: round_trip_err.cases) auto

lemma exchange_accepted:
  "exchange lib env q = Some (Inr m) \<Longrightarrow> accepted (ex_id env) (q\<lparr>dq_Class := classINET\<rparr>) m \<and> dm_oneQuestion m \<and> \<not> dh_Truncated (dm_header m)"
  by (auto simp: exchange_def exchange_udp_def exchange_tcp_def dnsPacketRoundTrip_def Let_def round_trip_err_Inr
      dest!: packet_reads_accepted stream_accepted split: option.splits sum.splits if_splits)

text \<open>What a lane adds, and whether it ends with an error.\<close>

fun answers_of :: "rr_type \<Rightarrow> dns_answer list \<Rightarrow> byte list list" where
  "answers_of qtype [] = []"
| "answers_of qtype (BadAnswer # as) = []"
| "answers_of qtype (Answer t ok b # as) =
     (case t of
        OtherType _ \<Rightarrow> (if ok then answers_of qtype as else [])
      | _ \<Rightarrow> (case b of None \<Rightarrow> [] | Some a \<Rightarrow> (if t = qtype then [a] else []) @ answers_of qtype as))"

fun answers_bad :: "dns_answer list \<Rightarrow> bool" where
  "answers_bad [] = False"
| "answers_bad (BadAnswer # as) = True"
| "answers_bad (Answer t ok b # as) =
     (case t of OtherType _ \<Rightarrow> \<not> ok \<or> answers_bad as | _ \<Rightarrow> b = None \<or> answers_bad as)"

lemma lookup_answers_eq:
  "lookup_answers host server as acc =
     acc\<lparr>la_v4 := la_v4 acc @ map Addr4 (answers_of TypeA as),
         la_v6 := la_v6 acc @ map (\<lambda>a. Addr6 a []) (answers_of TypeAAAA as),
         la_lastErr := (if answers_bad as then Some (dnsError CannotMarshal host server) else la_lastErr acc)\<rparr>"
  by (induction host server as acc rule: lookup_answers.induct) (auto split: rr_type.splits option.splits)

definition lane_addrs :: "rr_type \<Rightarrow> dns_error option + dns_answer list \<times> string \<Rightarrow> byte list list" where
  "lane_addrs t r = (case r of Inl _ \<Rightarrow> [] | Inr (as, _) \<Rightarrow> answers_of t as)"

definition lane_bad :: "dns_error option + dns_answer list \<times> string \<Rightarrow> bool" where
  "lane_bad r = (case r of Inl _ \<Rightarrow> True | Inr (as, _) \<Rightarrow> answers_bad as)"

lemma lookup_lane_eq:
  "la_v4 (lookup_lane host acc r) = la_v4 acc @ map Addr4 (lane_addrs TypeA r)"
  "la_v6 (lookup_lane host acc r) = la_v6 acc @ map (\<lambda>a. Addr6 a []) (lane_addrs TypeAAAA r)"
  "la_lastErr (lookup_lane host acc r) \<noteq> None \<longleftrightarrow> la_lastErr acc \<noteq> None \<or> lane_bad r"
  by (auto simp: lookup_lane_def lookup_answers_eq lane_addrs_def lane_bad_def split: sum.split option.split)

text \<open>All lanes together.\<close>

lemma lookup_lanes:
  "la_v4 (foldl (lookup_lane host) acc rs) = la_v4 acc @ map Addr4 (concat (map (lane_addrs TypeA) rs)) \<and>
   la_v6 (foldl (lookup_lane host) acc rs) = la_v6 acc @ map (\<lambda>a. Addr6 a []) (concat (map (lane_addrs TypeAAAA) rs)) \<and>
   (la_lastErr (foldl (lookup_lane host) acc rs) = None \<longleftrightarrow> la_lastErr acc = None \<and> list_all (\<lambda>r. \<not> lane_bad r) rs)"
proof (induction rs arbitrary: acc)
  case (Cons r rs)
  show ?case
    using Cons.IH [of "lookup_lane host acc r"] lookup_lane_eq(1,2) [of host acc r] lookup_lane_eq(3) [of host acc r]
    by auto
qed simp

definition family_strings :: "bool \<Rightarrow> byte list list \<Rightarrow> byte list list \<Rightarrow> string list" where
  "family_strings hasV6 v4 v6 =
     map addr_String (if hasV6 then map (\<lambda>a. Addr6 a []) v6 @ map Addr4 v4 else map Addr4 v4 @ map (\<lambda>a. Addr6 a []) v6)"

lemma lookup_result_eq:
  "case lookup_result hv host rs of
     Inl e \<Rightarrow> concat (map (lane_addrs TypeA) rs) = [] \<and> concat (map (lane_addrs TypeAAAA) rs) = [] \<and> list_ex lane_bad rs
   | Inr xs \<Rightarrow>
       xs = family_strings hv (concat (map (lane_addrs TypeA) rs)) (concat (map (lane_addrs TypeAAAA) rs)) \<and>
       (xs = [] \<longrightarrow> \<not> list_ex lane_bad rs)"
  using lookup_lanes [of host "\<lparr>la_v4 = [], la_v6 = [], la_lastErr = None\<rparr>" rs]
  by (auto simp: lookup_result_def lookup_addrs_def family_strings_def Let_def list_all_iff list_ex_iff
      simp del: concat_eq_Nil_conv split: option.split)

lemma mset_concat_rev: "mset (concat (rev xss)) = mset (concat xss)"
  by (induction xss) auto

text \<open>The order of the results does not matter.\<close>

lemma lookup_result_rev:
  "case (lookup_result hv host (rev rs), lookup_result hv host rs) of
     (Inr xs, Inr ys) \<Rightarrow> mset xs = mset ys
   | (Inl _, Inl _) \<Rightarrow> True
   | _ \<Rightarrow> False"
proof -
  let ?c = "\<lambda>t rs. concat (map (lane_addrs t) rs)"
  have m: "mset (?c t (rev rs)) = mset (?c t rs)" for t
    by (simp add: rev_map [symmetric] mset_concat_rev)
  then have e: "?c t (rev rs) = [] \<longleftrightarrow> ?c t rs = []" for t by (metis mset_zero_iff)
  have f: "mset (family_strings hv (?c TypeA (rev rs)) (?c TypeAAAA (rev rs))) =
      mset (family_strings hv (?c TypeA rs) (?c TypeAAAA rs))"
    using m [of TypeA] m [of TypeAAAA] by (simp add: family_strings_def)
  have n: "family_strings hv a b = [] \<longleftrightarrow> a = [] \<and> b = []" for a b by (auto simp: family_strings_def)
  have b: "list_ex lane_bad (rev rs) = list_ex lane_bad rs" by (simp add: list_ex_iff)
  show ?thesis
    using lookup_result_eq [where hv = hv and host = host and rs = rs]
      lookup_result_eq [where hv = hv and host = host and rs = "rev rs"] f n e b
    by (auto simp del: concat_eq_Nil_conv split: sum.splits)
qed

lemma those_snoc: "those (xs @ [x]) = Option.bind (those xs) (\<lambda>ys. map_option (\<lambda>y. ys @ [y]) x)"
proof (induction xs)
  case (Cons y ys)
  then show ?case by (cases "those ys"; cases y; cases x) auto
qed (cases x; simp)

lemma those_rev: "those (rev xs) = map_option rev (those xs)"
proof (induction xs)
  case (Cons x xs)
  then show ?case by (cases "those xs"; cases x) (auto simp: those_snoc)
qed simp

section \<open>Properties of name resolution\<close>

text \<open>
  C31. A name is looked up exactly when it is a domain name: at most 253 characters and a dot
  that may be missing, labels of 1 to 63 letters, digits, underscores and inner dashes, and
  not only digits.
\<close>

theorem isDomainName_correct: "isDomainName s \<longleftrightarrow> domain_name s"
proof (cases "s = []")
  case False
  let ?ls = "split_on (CHR ''.'') s"
  have "isDomainName s \<longleftrightarrow> length s \<le> 254 \<and> (length s = 254 \<longrightarrow> last s = CHR ''.'') \<and> scan_ok (name_scan_all (label_start False) s)"
    using False by (auto simp: isDomainName_def Let_def scan_ok_def last_conv_nth split: option.splits)
  moreover have "list_all good_label (butlast ?ls) \<and> (last ?ls = [] \<or> good_label (last ?ls)) \<longleftrightarrow>
      name_labels s \<noteq> [] \<and> list_all good_label (name_labels s)"
  proof -
    have ne: "?ls \<noteq> []" by (rule split_on_not_Nil)
    have "butlast ?ls \<noteq> []" if "last ?ls = []"
    proof
      assume "butlast ?ls = []"
      with that ne have "?ls = [[]]" by (metis append_butlast_last_id append_Nil)
      with False show False by (cases s) (auto split: if_splits list.splits simp: split_on_not_Nil)
    qed
    with ne show ?thesis
      by (cases ?ls rule: rev_cases) (auto simp: name_labels_def Let_def good_label_def)
  qed
  ultimately show ?thesis using False scan_labels [of False s] by (auto simp: domain_name_def Let_def)
qed (simp add: isDomainName_def domain_name_def)

text \<open>
  C29. An exchange with a server succeeds only with a message that is a response, carries the
  identifier of the request and repeats its question alone (type, class and name up to the
  case of letters), and that is not truncated.
\<close>

theorem exchange_correct:
  assumes "exchange lib env q = Some (Inr m)"
  shows "dh_Response (dm_header m) \<and> dh_ID (dm_header m) = ex_id env \<and> \<not> dh_Truncated (dm_header m) \<and> dm_oneQuestion m \<and>
    (\<exists>q'. dm_question m = Some q' \<and> dq_Type q' = dq_Type q \<and> dq_Class q' = 1 \<and>
       map lower_byte (dq_Name q') = map lower_byte (dq_Name q))"
  using exchange_accepted [OF assms]
  by (auto simp: accepted_def checkResponse_def equalASCIIName_map classINET_def split: option.splits)

definition ex_dns_lib :: dns_lib where
  "ex_dns_lib = \<lparr>dl_newName = (\<lambda>s. Some (map (of_nat \<circ> of_char) s)),
     dl_build = (\<lambda>qid q. Some (of_nat (unat qid) # dq_Name q)),
     dl_start = (\<lambda>b. if b = [] then None
       else Some \<lparr>dm_header = \<lparr>dh_ID = of_nat (unat (hd b)), dh_Response = True, dh_Authoritative = False, dh_Truncated = False,
                    dh_RecursionAvailable = True, dh_RCode = RCodeSuccess\<rparr>,
                  dm_question = Some \<lparr>dq_Name = tl b, dq_Type = TypeA, dq_Class = 1\<rparr>, dm_oneQuestion = True,
                  dm_answers = [Answer TypeA True (Some [192, 0, 2, 1])]\<rparr>)\<rparr>"

definition ex_exchange :: exchange_env where
  "ex_exchange = \<lparr>ex_id = 7, ex_dialUDP = None, ex_deadlineUDP = None, ex_writeUDP = None,
     ex_reads = [Inr [], Inr [8, 97], Inr [7, 65]], ex_dialTCP = None, ex_deadlineTCP = None, ex_writeTCP = None, ex_stream = [],
     ex_streamErr = DnsIO True False\<rparr>"

lemma ex_exchange_run:
  "\<exists>m. exchange ex_dns_lib ex_exchange \<lparr>dq_Name = [97], dq_Type = TypeA, dq_Class = 1\<rparr> = Some (Inr m)"
  by (simp add: exchange_def exchange_udp_def dnsPacketRoundTrip_def newRequest_def ex_dns_lib_def ex_exchange_def
      checkResponse_def equalASCIIName_def lower_byte_def classINET_def)

theorem exchange_correct_witness:
  "\<exists>m. exchange ex_dns_lib ex_exchange \<lparr>dq_Name = [97], dq_Type = TypeA, dq_Class = 1\<rparr> = Some (Inr m) \<and>
     dh_ID (dm_header m) = 7 \<and> \<not> dh_Truncated (dm_header m)"
proof -
  obtain m where m: "exchange ex_dns_lib ex_exchange \<lparr>dq_Name = [97], dq_Type = TypeA, dq_Class = 1\<rparr> = Some (Inr m)"
    using ex_exchange_run by blast
  from exchange_correct [OF m] m show ?thesis by (auto simp: ex_exchange_def)
qed

text \<open>
  C30. The two lookups of a host run concurrently; which of them ends first changes neither
  whether addresses are found nor which ones. The addresses of a family stand together, IPv6
  first exactly when the tunnel has an IPv6 address; a literal address is its own answer.
\<close>

theorem lookup_correct:
  "case (LookupContextHost tnet one True host, LookupContextHost tnet one False host) of
     (Some (Inr xs), Some (Inr ys)) \<Rightarrow>
       mset xs = mset ys \<and>
       (case lookup_literal host of
          Some ip \<Rightarrow> xs = [addr_String ip]
        | None \<Rightarrow> \<exists>v4 v6. xs = family_strings (nt_hasV6 tnet) v4 v6)
   | (Some (Inl _), Some (Inl _)) \<Rightarrow> True
   | (None, None) \<Rightarrow> True
   | _ \<Rightarrow> False"
proof (cases "host = [] \<or> \<not> nt_hasV6 tnet \<and> \<not> nt_hasV4 tnet \<or> lookup_literal host \<noteq> None \<or> \<not> isDomainName host")
  case True
  then show ?thesis by (auto simp: LookupContextHost_def Let_def split: option.splits)
next
  case False
  define used where "used = filter (\<lambda>t. if t = TypeA then nt_hasV4 tnet else nt_hasV6 tnet) [TypeA, TypeAAAA]"
  have "filter (\<lambda>t. if t = TypeA then nt_hasV4 tnet else nt_hasV6 tnet) [TypeAAAA, TypeA] = rev used"
    by (simp add: used_def)
  with False have l: "LookupContextHost tnet one True host =
      map_option (lookup_result (nt_hasV6 tnet) host) (those (map (one (host @ ''.'')) (rev used)))"
    "LookupContextHost tnet one False host =
      map_option (lookup_result (nt_hasV6 tnet) host) (those (map (one (host @ ''.'')) used))"
    unfolding LookupContextHost_def Let_def used_def by (simp_all only: if_True if_False option.case split: option.split) auto
  show ?thesis
  proof (cases "those (map (one (host @ ''.'')) used)")
    case None
    then show ?thesis by (simp add: l rev_map [symmetric] those_rev)
  next
    case (Some rs)
    with lookup_result_rev [where hv = "nt_hasV6 tnet" and host = host and rs = rs]
      lookup_result_eq [where hv = "nt_hasV6 tnet" and host = host and rs = "rev rs"]
    show ?thesis using False by (auto simp: l rev_map [symmetric] those_rev split: sum.splits)
  qed
qed

end
