(* ===== verification/Tun_Dial.thy ===== *)
theory Tun_Dial
  imports Tun_Dns "HOL-Library.Monad_Syntax"
begin

text \<open>
  Dialling through the tunnel (\<^verbatim>\<open>internal/tunnet/tun.go\<close>): the addresses handed to the network
  stack, ping connections, and \<^verbatim>\<open>DialContext\<close>, which resolves a name and tries its addresses.

  The network stack (gVisor) is not part of the repository. A call into it is a value of type
  \<open>gonet_call\<close>; whether it succeeds is an argument where the code depends on it.
\<close>

section \<open>Addresses for the stack\<close>

record full_addr =
  fa_Addr :: "byte list"
  fa_Port :: "16 word"

definition convertToFullAddr :: "addr_port \<Rightarrow> full_addr \<times> net_proto" where
  "convertToFullAddr endpoint =
     (\<lparr>fa_Addr = addr_AsSlice (fst endpoint), fa_Port = snd endpoint\<rparr>,
      if addr_Is4 (fst endpoint) then IPv4Proto else IPv6Proto)"

datatype gonet_call =
    GonetDialContextTCP full_addr net_proto
  | GonetDialTCP full_addr net_proto
  | GonetListenTCP full_addr net_proto
  | GonetDialUDP "full_addr option" "full_addr option" "net_proto option" \<comment> \<open>\<open>None\<close>: protocol 0\<close>

definition zeroAddrPort :: addr_port where
  "zeroAddrPort = (AddrZero, 0)"

text \<open>\<^verbatim>\<open>*net.TCPAddr\<close> and \<^verbatim>\<open>*net.UDPAddr\<close>: an address and a port, or nil.\<close>

type_synonym sock_addr = "(net_ip \<times> int) option"

definition sock_addrPort :: "net_ip \<times> int \<Rightarrow> addr_port" where
  "sock_addrPort a = (addrFromSlice (fst a), of_int (snd a))"

definition DialContextTCPAddrPort :: "addr_port \<Rightarrow> gonet_call" where
  "DialContextTCPAddrPort addr = (case convertToFullAddr addr of (fa, pn) \<Rightarrow> GonetDialContextTCP fa pn)"

definition DialContextTCP :: "sock_addr \<Rightarrow> gonet_call" where
  "DialContextTCP addr =
     DialContextTCPAddrPort (case addr of None \<Rightarrow> zeroAddrPort | Some a \<Rightarrow> sock_addrPort a)"

definition DialTCPAddrPort :: "addr_port \<Rightarrow> gonet_call" where
  "DialTCPAddrPort addr = (case convertToFullAddr addr of (fa, pn) \<Rightarrow> GonetDialTCP fa pn)"

definition DialTCP :: "sock_addr \<Rightarrow> gonet_call" where
  "DialTCP addr = DialTCPAddrPort (case addr of None \<Rightarrow> zeroAddrPort | Some a \<Rightarrow> sock_addrPort a)"

definition ListenTCPAddrPort :: "addr_port \<Rightarrow> gonet_call" where
  "ListenTCPAddrPort addr = (case convertToFullAddr addr of (fa, pn) \<Rightarrow> GonetListenTCP fa pn)"

definition ListenTCP :: "sock_addr \<Rightarrow> gonet_call" where
  "ListenTCP addr = ListenTCPAddrPort (case addr of None \<Rightarrow> zeroAddrPort | Some a \<Rightarrow> sock_addrPort a)"

definition addrPort_given :: "addr_port \<Rightarrow> bool" where
  "addrPort_given a = (addr_IsValid (fst a) \<or> snd a > 0)"

definition DialUDPAddrPort :: "addr_port \<Rightarrow> addr_port \<Rightarrow> gonet_call" where
  "DialUDPAddrPort laddr raddr =
     (let (lfa, pn) = (if addrPort_given laddr
            then (let (fa, pn) = convertToFullAddr laddr in (Some fa, Some pn)) else (None, None));
          (rfa, pn) = (if addrPort_given raddr
            then (let (fa, pn) = convertToFullAddr raddr in (Some fa, Some pn)) else (None, pn))
      in GonetDialUDP lfa rfa pn)"

definition ListenUDPAddrPort :: "addr_port \<Rightarrow> gonet_call" where
  "ListenUDPAddrPort laddr = DialUDPAddrPort laddr zeroAddrPort"

definition DialUDP :: "sock_addr \<Rightarrow> sock_addr \<Rightarrow> gonet_call" where
  "DialUDP laddr raddr =
     DialUDPAddrPort (case laddr of None \<Rightarrow> zeroAddrPort | Some a \<Rightarrow> sock_addrPort a)
       (case raddr of None \<Rightarrow> zeroAddrPort | Some a \<Rightarrow> sock_addrPort a)"

definition ListenUDP :: "sock_addr \<Rightarrow> gonet_call" where
  "ListenUDP laddr = DialUDP laddr None"

section \<open>Ping\<close>

text \<open>\<open>pc_deadline\<close> is the timer of the connection: stopped, or the time from its last reset until
  it fires.\<close>

record pingConn =
  pc_laddr :: netip_addr
  pc_raddr :: netip_addr
  pc_proto :: net_proto
  pc_deadline :: "duration option"
  pc_closed :: bool

definition pingAddr_Network :: "netip_addr \<Rightarrow> string" where
  "pingAddr_Network a = (if addr_Is4 a then ''ping4'' else if addr_Is6 a then ''ping6'' else ''ping'')"

datatype ping_error =
    PingInvalidAddress | PingEndpoint | PingBind | PingConnect | PingWrongAddrType | PingMismatched | PingIO
  | PingDeadline | PingNotImplemented

text \<open>Whether the stack makes an endpoint, binds it and connects it.\<close>

record ping_os =
  pso_endpoint :: "net_proto \<Rightarrow> bool"
  pso_bind :: "full_addr \<Rightarrow> bool"
  pso_connect :: "full_addr \<Rightarrow> bool"

definition DialPingAddr :: "ping_os \<Rightarrow> netip_addr \<Rightarrow> netip_addr \<Rightarrow> ping_error + pingConn" where
  "DialPingAddr os laddr raddr =
     (if \<not> addr_IsValid laddr \<and> \<not> addr_IsValid raddr then Inl PingInvalidAddress
      else
        let six = (addr_Is6 laddr \<or> addr_Is6 raddr);
            bound = addr_IsValid laddr;
            la = (if bound then laddr else if six then Addr6 (replicate 16 0) [] else Addr4 (replicate 4 0));
            pn = (if six then IPv6Proto else IPv4Proto)
        in if \<not> pso_endpoint os pn then Inl PingEndpoint
           else if bound \<and> \<not> pso_bind os (fst (convertToFullAddr (la, 0))) then Inl PingBind
           else if addr_IsValid raddr \<and> \<not> pso_connect os (fst (convertToFullAddr (raddr, 0))) then Inl PingConnect
           else Inr \<lparr>pc_laddr = la, pc_raddr = (if addr_IsValid raddr then raddr else AddrZero), pc_proto = pn,
             pc_deadline = None, pc_closed = False\<rparr>)"

definition ListenPingAddr :: "ping_os \<Rightarrow> netip_addr \<Rightarrow> ping_error + pingConn" where
  "ListenPingAddr os laddr = DialPingAddr os laddr AddrZero"

definition DialPing :: "ping_os \<Rightarrow> netip_addr option \<Rightarrow> netip_addr option \<Rightarrow> ping_error + pingConn" where
  "DialPing os laddr raddr =
     DialPingAddr os (case laddr of None \<Rightarrow> AddrZero | Some a \<Rightarrow> a) (case raddr of None \<Rightarrow> AddrZero | Some a \<Rightarrow> a)"

definition ListenPing :: "ping_os \<Rightarrow> netip_addr option \<Rightarrow> ping_error + pingConn" where
  "ListenPing os laddr = ListenPingAddr os (case laddr of None \<Rightarrow> AddrZero | Some a \<Rightarrow> a)"

text \<open>The dynamic type of the address given to \<^verbatim>\<open>WriteTo\<close>.\<close>

datatype any_addr = APingAddr netip_addr | AIPAddr net_ip | AOtherAddr

text \<open>\<open>send\<close> is the write of the endpoint: the number of bytes, and whether there was an error.\<close>

definition ping_WriteTo ::
  "(byte list \<Rightarrow> full_addr \<Rightarrow> nat \<times> bool) \<Rightarrow> pingConn \<Rightarrow> byte list \<Rightarrow> any_addr \<Rightarrow> nat \<times> ping_error option" where
  "ping_WriteTo send pc p addr =
     (let to_addr = (\<lambda>na.
            if \<not> (addr_Is4 na \<and> addr_Is4 (pc_laddr pc) \<or> addr_Is6 na \<and> addr_Is6 (pc_laddr pc))
            then (0, Some PingMismatched)
            else (case send p (fst (convertToFullAddr (na, 0))) of (n, failed) \<Rightarrow> (n, if failed then Some PingIO else None)))
      in case addr of
           APingAddr na \<Rightarrow> to_addr na
         | AIPAddr ip \<Rightarrow> to_addr (addrFromSlice ip)
         | AOtherAddr \<Rightarrow> (0, Some PingWrongAddrType))"

definition ping_Write :: "(byte list \<Rightarrow> full_addr \<Rightarrow> nat \<times> bool) \<Rightarrow> pingConn \<Rightarrow> byte list \<Rightarrow> nat \<times> ping_error option" where
  "ping_Write send pc p = ping_WriteTo send pc p (APingAddr (pc_raddr pc))"

text \<open>\<^verbatim>\<open>ReadFrom\<close>: the deadline fires, or the endpoint is readable and its read returns bytes and an
  address, or an error.\<close>

datatype ping_event = PingDeadlineFired | PingReadable "(byte list \<times> byte list) option"

definition ping_ReadFrom :: "ping_event \<Rightarrow> nat \<Rightarrow> ping_error + byte list \<times> netip_addr" where
  "ping_ReadFrom ev cap =
     (case ev of
        PingDeadlineFired \<Rightarrow> Inl PingDeadline
      | PingReadable None \<Rightarrow> Inl PingIO
      | PingReadable (Some (payload, remote)) \<Rightarrow> Inr (take cap payload, addrFromSlice remote))"

definition ping_Read :: "ping_event \<Rightarrow> nat \<Rightarrow> ping_error + byte list" where
  "ping_Read ev cap = map_sum id fst (ping_ReadFrom ev cap)"

text \<open>\<^verbatim>\<open>time.Until\<close>: the result saturates at the least duration, which it is for the zero time
  (\<open>None\<close>), the start of the calendar.\<close>

definition time_Until :: "instant \<Rightarrow> instant option \<Rightarrow> duration" where
  "time_Until now t = (case t of None \<Rightarrow> - (2 ^ 63) | Some i \<Rightarrow> max (- (2 ^ 63)) (min (2 ^ 63 - 1) (i - now)))"

definition ping_SetReadDeadline :: "instant \<Rightarrow> instant option \<Rightarrow> pingConn \<Rightarrow> pingConn" where
  "ping_SetReadDeadline now t pc = pc\<lparr>pc_deadline := Some (time_Until now t)\<rparr>"

definition ping_SetDeadline :: "instant \<Rightarrow> instant option \<Rightarrow> pingConn \<Rightarrow> pingConn" where
  "ping_SetDeadline now t pc = ping_SetReadDeadline now t pc"

definition ping_SetWriteDeadline :: "pingConn \<Rightarrow> pingConn \<times> ping_error option" where
  "ping_SetWriteDeadline pc = (pc, Some PingNotImplemented)"

definition ping_Close :: "pingConn \<Rightarrow> pingConn" where
  "ping_Close pc = pc\<lparr>pc_deadline := Some 0, pc_closed := True\<rparr>"

text \<open>Whether the timer has fired within a time after its last reset.\<close>

definition ping_fired :: "pingConn \<Rightarrow> duration \<Rightarrow> bool" where
  "ping_fired pc elapsed = (case pc_deadline pc of None \<Rightarrow> False | Some d \<Rightarrow> d \<le> elapsed)"

section \<open>Deadlines\<close>

text \<open>\<open>None\<close> is the zero time, that is no deadline.\<close>

definition partialDeadline :: "instant \<Rightarrow> instant option \<Rightarrow> nat \<Rightarrow> dns_err + instant option" where
  "partialDeadline now deadline addrsRemaining =
     (case deadline of
        None \<Rightarrow> Inr None
      | Some d \<Rightarrow>
          (let timeRemaining = d - now
           in if timeRemaining \<le> 0 then Inl DnsTimeout
              else
                let timeout = timeRemaining div int addrsRemaining;
                    timeout = (if timeout < 2 * second
                               then (if timeRemaining < 2 * second then timeRemaining else 2 * second) else timeout)
                in Inr (Some (now + timeout))))"

section \<open>DialContext\<close>

datatype dial_kind = KindTCP | KindUDP | KindPing

text \<open>\<^verbatim>\<open>protoSplitter\<close>: the kind and the family, which is absent, 4 or 6.\<close>

definition protoSplitter :: "string \<Rightarrow> (dial_kind \<times> string) option" where
  "protoSplitter network =
     (let suffixes = [[], ''4'', ''6''];
          m = (\<lambda>p k. map_option (\<lambda>x. (k, x)) (find (\<lambda>x. network = p @ x) suffixes))
      in case m ''tcp'' KindTCP of
           Some r \<Rightarrow> Some r
         | None \<Rightarrow> (case m ''udp'' KindUDP of Some r \<Rightarrow> Some r | None \<Rightarrow> m ''ping'' KindPing))"

datatype dial_error =
    UnknownNetwork string
  | DialSplit
  | NumericPort
  | DialLookup dns_error
  | NoSuitableAddress
  | MissingAddress
  | DialCtx dns_err
  | DialDeadline dns_err
  | DialStack nat \<comment> \<open>the error of the stack for the \<open>n\<close>th address\<close>

text \<open>
  What a dial meets: the context before the \<open>i\<close>th address (an error, or none) and the clock
  there, its deadline, and whether the stack connects to an address by a deadline.
\<close>

record dial_env =
  di_ctxErr :: "nat \<Rightarrow> dns_err option"
  di_now :: "nat \<Rightarrow> instant"
  di_deadline :: "instant option"
  di_connect :: "dial_kind \<Rightarrow> addr_port \<Rightarrow> instant option \<Rightarrow> bool"

definition ctx_dial_err :: "dns_err \<Rightarrow> dns_err" where
  "ctx_dial_err e = (if e = CtxCanceled then DnsCanceled else if e = CtxDeadlineExceeded then DnsTimeout else e)"

definition dial_firstErr :: "dial_error option \<Rightarrow> dial_error \<Rightarrow> dial_error" where
  "dial_firstErr firstErr e = (case firstErr of None \<Rightarrow> e | Some f \<Rightarrow> f)"

text \<open>
  The loop over the addresses, which yields the attempts made (the address and the deadline of
  each) and the address connected to, or an error.
\<close>

fun dial_loop ::
  "dial_env \<Rightarrow> dial_kind \<Rightarrow> nat \<Rightarrow> addr_port list \<Rightarrow> dial_error option \<Rightarrow>
   (addr_port \<times> instant option) list \<times> (dial_error + addr_port)" where
  "dial_loop env kind i [] firstErr = ([], Inl (dial_firstErr firstErr MissingAddress))"
| "dial_loop env kind i (addr # addrs) firstErr =
     (case di_ctxErr env i of
        Some e \<Rightarrow> ([], Inl (DialCtx (ctx_dial_err e)))
      | None \<Rightarrow>
          (case (case di_deadline env of
                   None \<Rightarrow> Inr None
                 | Some d \<Rightarrow> partialDeadline (di_now env i) (Some d) (length (addr # addrs))) of
             Inl e \<Rightarrow> ([], Inl (dial_firstErr firstErr (DialDeadline e)))
           | Inr pd \<Rightarrow>
               (let dl = (case (pd, di_deadline env) of
                            (Some p, Some d) \<Rightarrow> (if p < d then Some p else Some d)
                          | _ \<Rightarrow> di_deadline env)
                in if di_connect env kind addr dl then ([(addr, dl)], Inr addr)
                   else apfst ((#) (addr, dl))
                     (dial_loop env kind (i + 1) addrs (Some (dial_firstErr firstErr (DialStack i)))))))"

definition dial_addrs :: "string \<Rightarrow> 16 word \<Rightarrow> string list \<Rightarrow> addr_port list" where
  "dial_addrs family port allAddr =
     List.map_filter
       (\<lambda>a. case parseAddr a of
          None \<Rightarrow> None
        | Some ip \<Rightarrow>
            (if addr_Is4 ip \<and> (family = [] \<or> family = ''4'') \<or> addr_Is6 ip \<and> (family = [] \<or> family = ''6'')
             then Some (ip, port) else None))
       allAddr"

text \<open>The host and the port of an address; a ping has no port.\<close>

definition dial_target :: "dial_kind \<Rightarrow> string \<Rightarrow> dial_error + string \<times> int" where
  "dial_target kind address =
     (if kind = KindPing then Inr (address, 0)
      else case splitHostPort address of
        None \<Rightarrow> Inl DialSplit
      | Some (host, sport) \<Rightarrow>
          (case atoi sport of
             None \<Rightarrow> Inl NumericPort
           | Some p \<Rightarrow> (if p < 0 \<or> p > 65535 then Inl NumericPort else Inr (host, p))))"

text \<open>\<open>lookup\<close> is \<^verbatim>\<open>LookupContextHost\<close>; \<open>None\<close> if it does not return.\<close>

definition DialContext ::
  "(string \<Rightarrow> (dns_error + string list) option) \<Rightarrow> dial_env \<Rightarrow> string \<Rightarrow> string \<Rightarrow>
   ((addr_port \<times> instant option) list \<times> (dial_error + addr_port)) option" where
  "DialContext lookup env network address =
     (case protoSplitter network of
        None \<Rightarrow> Some ([], Inl (UnknownNetwork network))
      | Some (kind, family) \<Rightarrow>
          (case dial_target kind address of
             Inl e \<Rightarrow> Some ([], Inl e)
           | Inr (host, port) \<Rightarrow>
               (case lookup host of
                  None \<Rightarrow> None
                | Some (Inl e) \<Rightarrow> Some ([], Inl (DialLookup e))
                | Some (Inr allAddr) \<Rightarrow>
                    (let addrs = dial_addrs family (of_int port) allAddr
                     in if addrs = [] \<and> allAddr \<noteq> [] then Some ([], Inl NoSuitableAddress)
                        else Some (dial_loop env kind 0 addrs None)))))"

section \<open>Lemmas\<close>

lemma partialDeadline_cases:
  "case partialDeadline now (Some d) (Suc n) of
     Inl e \<Rightarrow> e = DnsTimeout \<and> d \<le> now
   | Inr None \<Rightarrow> False
   | Inr (Some t) \<Rightarrow>
       now < t \<and> t \<le> d \<and> min (2 * second) (d - now) \<le> t - now \<and> (d - now) div int (Suc n) \<le> t - now"
proof (cases "d \<le> now")
  case True
  then show ?thesis by (simp add: partialDeadline_def)
next
  case False
  define r where "r = d - now"
  have r: "0 < r" "r div int (Suc n) \<le> r" using False zdiv_mono2 [of r 1 "int (Suc n)"] by (simp_all add: r_def)
  have "(let timeout = r div int (Suc n) in if timeout < 2 * second then if r < 2 * second then r else 2 * second else timeout) \<in> {1..r}"
    using r by (auto simp: Let_def)
  moreover have "d = now + r" by (simp add: r_def)
  ultimately show ?thesis using r by (auto simp: partialDeadline_def Let_def split: if_splits)
qed

text \<open>
  The attempts of a dial: the addresses in order, all but the last one refused, each by a
  deadline that is not after the one of the context.
\<close>

lemma dial_loop_attempts:
  assumes "dial_loop env kind i addrs fe = (atts, r)"
  shows "prefix (map fst atts) addrs \<and> (\<forall>(a, dl) \<in> set (butlast atts). \<not> di_connect env kind a dl) \<and>
    (\<forall>(a, dl) \<in> set atts. \<forall>d. di_deadline env = Some d \<longrightarrow> (\<exists>t \<le> d. dl = Some t)) \<and>
    (case r of
       Inr a \<Rightarrow> atts \<noteq> [] \<and> fst (last atts) = a \<and> di_connect env kind a (snd (last atts))
     | Inl e \<Rightarrow> (\<forall>(a, dl) \<in> set atts. \<not> di_connect env kind a dl))"
  using assms
proof (induction addrs arbitrary: i fe atts r)
  case Nil
  then show ?case by auto
next
  case (Cons addr addrs)
  show ?case
  proof (cases "di_ctxErr env i")
    case (Some e)
    with Cons.prems show ?thesis by auto
  next
    case None
    define pd where "pd = (case di_deadline env of
        None \<Rightarrow> Inr None
      | Some d \<Rightarrow> partialDeadline (di_now env i) (Some d) (length (addr # addrs)))"
    show ?thesis
    proof (cases pd)
      case (Inl e)
      with Cons.prems None show ?thesis by (auto simp: pd_def)
    next
      case (Inr p)
      define dl where "dl = (case (p, di_deadline env) of
          (Some p, Some d) \<Rightarrow> (if p < d then Some p else Some d) | _ \<Rightarrow> di_deadline env)"
      have step: "dial_loop env kind i (addr # addrs) fe =
          (if di_connect env kind addr dl then ([(addr, dl)], Inr addr)
           else apfst ((#) (addr, dl)) (dial_loop env kind (i + 1) addrs (Some (dial_firstErr fe (DialStack i)))))"
        using None Inr by (simp only: dial_loop.simps option.case pd_def [symmetric] sum.case Let_def dl_def)
      have dl: "\<forall>d. di_deadline env = Some d \<longrightarrow> (\<exists>t \<le> d. dl = Some t)"
        by (auto simp: dl_def split: option.splits)
      obtain atts' r' where rec: "dial_loop env kind (i + 1) addrs (Some (dial_firstErr fe (DialStack i))) = (atts', r')"
        by force
      show ?thesis
      proof (cases "di_connect env kind addr dl")
        case True
        with Cons.prems step dl show ?thesis by auto
      next
        case False
        with Cons.prems step rec have "atts = (addr, dl) # atts'" "r = r'" by auto
        with Cons.IH [OF rec] dl False show ?thesis by (auto split: sum.splits)
      qed
    qed
  qed
qed

text \<open>A dial that is not cut short by its context goes through all the addresses before it fails.\<close>

lemma dial_loop_complete:
  assumes "\<forall>i. di_ctxErr env i = None" "\<forall>d i. di_deadline env = Some d \<longrightarrow> di_now env i < d"
    "dial_loop env kind i addrs fe = (atts, Inl e)"
  shows "map fst atts = addrs"
  using assms(3)
proof (induction addrs arbitrary: i fe atts)
  case (Cons addr addrs)
  have "\<exists>pd. (case di_deadline env of
        None \<Rightarrow> Inr None
      | Some d \<Rightarrow> partialDeadline (di_now env i) (Some d) (length (addr # addrs))) = Inr pd"
  proof (cases "di_deadline env")
    case (Some d)
    with assms(2) have "\<not> d \<le> di_now env i" by (simp add: not_le)
    with Some partialDeadline_cases [where now = "di_now env i" and d = d and n = "length addrs"] show ?thesis
      by (simp split: sum.splits)
  qed simp
  then obtain pd where pd: "(case di_deadline env of
        None \<Rightarrow> Inr None
      | Some d \<Rightarrow> partialDeadline (di_now env i) (Some d) (length (addr # addrs))) = Inr pd" ..
  obtain atts' r' where rec: "dial_loop env kind (i + 1) addrs (Some (dial_firstErr fe (DialStack i))) = (atts', r')"
    by force
  from Cons.prems assms(1) pd rec show ?case
    unfolding dial_loop.simps(2) pd sum.case Let_def
    by (auto split: if_splits dest: Cons.IH)
qed simp

text \<open>
  The addresses a dial is about: what the name of the address resolves to, in that order, of the
  family, at the port.
\<close>

definition dial_resolved ::
  "(string \<Rightarrow> (dns_error + string list) option) \<Rightarrow> dial_kind \<Rightarrow> string \<Rightarrow> string \<Rightarrow> addr_port list option" where
  "dial_resolved lookup kind family address = do {
     (host, port) \<leftarrow>
       (if kind = KindPing then Some (address, 0)
        else do {
          (host, sport) \<leftarrow> splitHostPort address;
          port \<leftarrow> atoi sport;
          if 0 \<le> port \<and> port \<le> 65535 then Some (host, port) else None });
     (case lookup host of
       Some (Inr xs) \<Rightarrow>
         Some (map (\<lambda>ip. (ip, of_int port))
           (filter (\<lambda>ip. family \<in> {[], ''4''} \<and> addr_Is4 ip \<or> family \<in> {[], ''6''} \<and> addr_Is6 ip)
             (List.map_filter parseAddr xs)))
     | _ \<Rightarrow> None) }"

lemma dial_addrs_eq:
  "dial_addrs family port xs =
     map (\<lambda>ip. (ip, port)) (filter (\<lambda>ip. family \<in> {[], ''4''} \<and> addr_Is4 ip \<or> family \<in> {[], ''6''} \<and> addr_Is6 ip)
       (List.map_filter parseAddr xs))"
  by (induction xs) (auto simp: dial_addrs_def List.map_filter_simps split: option.splits)

section \<open>Properties of ping sockets\<close>

text \<open>
  A read deadline of a ping socket fires when its time has come and a closed socket's at once. The
  zero time, which for other connections means that there is no deadline, fires at once too.
\<close>

theorem ping_deadline_correct:
  assumes "0 \<le> elapsed" and "elapsed < 2 ^ 63 - 1"
  shows "ping_fired (ping_SetDeadline now (Some t) pc) elapsed \<longleftrightarrow> t \<le> now + elapsed"
    and "ping_fired (ping_SetDeadline now None pc) elapsed" and "ping_fired (ping_Close pc) elapsed"
  using assms by (auto simp: ping_fired_def ping_SetDeadline_def ping_SetReadDeadline_def ping_Close_def time_Until_def)

text \<open>
  A ping socket that was dialled has a local address of the family of its endpoint when the two
  addresses given do not differ in family, and then writing to its peer is never refused for a
  mismatch.
\<close>

theorem DialPingAddr_write:
  assumes "DialPingAddr os laddr raddr = Inr pc" and "addr_IsValid raddr"
    and "addr_IsValid laddr \<longrightarrow> addr_Is4 laddr = addr_Is4 raddr"
  shows "snd (ping_Write send pc p) \<noteq> Some PingMismatched \<and> (pc_proto pc = IPv4Proto \<longleftrightarrow> addr_Is4 (pc_laddr pc))"
  using assms by (cases laddr; cases raddr)
    (auto simp: DialPingAddr_def Let_def ping_Write_def ping_WriteTo_def split: if_splits prod.splits)

section \<open>Properties of dialling\<close>

text \<open>
  The time a dial gives one of several addresses: it ends after now and by the deadline,
  lasts at least an equal share of the time that is left, and at least two seconds when
  there are two seconds left. Only a deadline that has passed is an error.
\<close>

theorem partialDeadline_correct:
  "case partialDeadline now (Some d) (Suc n) of
     Inl e \<Rightarrow> e = DnsTimeout \<and> d \<le> now
   | Inr None \<Rightarrow> False
   | Inr (Some t) \<Rightarrow>
       now < t \<and> t \<le> d \<and> min (2 * second) (d - now) \<le> t - now \<and> (d - now) div int (Suc n) \<le> t - now"
  by (rule partialDeadline_cases)

text \<open>Once the network is known, a dial fails before any attempt or runs its loop.\<close>

lemma DialContext_cases:
  assumes "DialContext lookup env network address = Some (atts, r)" "protoSplitter network = Some (kind, family)"
  obtains (fail) e where "dial_resolved lookup kind family address = None" "atts = []" "r = Inl e"
  | (unsuitable) e where "dial_resolved lookup kind family address = Some []" "atts = []" "r = Inl e"
  | (loop) addrs where "dial_resolved lookup kind family address = Some addrs" "dial_loop env kind 0 addrs None = (atts, r)"
proof (cases "dial_target kind address")
  case (Inl e)
  then have "dial_resolved lookup kind family address = None"
    by (auto simp: dial_resolved_def dial_target_def split: option.splits if_splits)
  with assms Inl fail show thesis by (auto simp: DialContext_def)
next
  case (Inr hp)
  obtain host port where hp: "hp = (host, port)" by force
  have target: "(if kind = KindPing then Some (address, 0)
      else do {
        (host, sport) \<leftarrow> splitHostPort address;
        port \<leftarrow> atoi sport;
        if 0 \<le> port \<and> port \<le> 65535 then Some (host, port) else None }) = Some (host, port)"
    using Inr hp by (auto simp: dial_target_def split: option.splits if_splits)
  have resolved: "dial_resolved lookup kind family address =
      (case lookup host of Some (Inr xs) \<Rightarrow> Some (dial_addrs family (of_int port) xs) | _ \<Rightarrow> None)"
    unfolding dial_resolved_def target dial_addrs_eq by (simp split: option.split sum.split)
  consider "lookup host = None" | e where "lookup host = Some (Inl e)" | xs where "lookup host = Some (Inr xs)"
    by (metis option.exhaust sum.exhaust)
  then show thesis
  proof cases
    case (3 xs)
    with assms Inr hp resolved unsuitable loop show thesis
      by (cases "dial_addrs family (of_int port) xs = [] \<and> xs \<noteq> []") (auto simp: DialContext_def Let_def)
  qed (use assms Inr hp resolved fail in \<open>auto simp: DialContext_def\<close>)
qed

text \<open>
  C32. A dial tries the addresses its name resolved to, of the family the network asks for and at the
  port given, in the order of the resolver and each at most once, by a deadline that is not after the
  one of its context. It returns the first of them the stack connects to. An error means that no
  attempt succeeded, and that all of them were tried unless the context ended or its deadline passed;
  with no such addresses there is no attempt.
\<close>

theorem DialContext_correct:
  assumes "DialContext lookup env network address = Some (atts, r)" and "protoSplitter network = Some (kind, family)"
  shows "(case dial_resolved lookup kind family address of
       None \<Rightarrow> atts = [] \<and> (\<exists>e. r = Inl e)
     | Some addrs \<Rightarrow>
         prefix (map fst atts) addrs \<and>
         ((\<exists>e. r = Inl e) \<and> (\<forall>i. di_ctxErr env i = None) \<and> (\<forall>d i. di_deadline env = Some d \<longrightarrow> di_now env i < d) \<longrightarrow>
            map fst atts = addrs)) \<and>
    (\<forall>(a, dl) \<in> set atts. \<forall>d. di_deadline env = Some d \<longrightarrow> (\<exists>t \<le> d. dl = Some t)) \<and>
    (\<forall>(a, dl) \<in> set (butlast atts). \<not> di_connect env kind a dl) \<and>
    (case r of
       Inr a \<Rightarrow> atts \<noteq> [] \<and> fst (last atts) = a \<and> di_connect env kind a (snd (last atts))
     | Inl e \<Rightarrow> (\<forall>(a, dl) \<in> set atts. \<not> di_connect env kind a dl))"
  using assms
proof (cases rule: DialContext_cases)
  case (loop addrs)
  have "map fst atts = addrs" if "r = Inl e" "\<forall>i. di_ctxErr env i = None" "\<forall>d i. di_deadline env = Some d \<longrightarrow> di_now env i < d" for e
    using dial_loop_complete [OF that(2,3)] loop(2) that(1) by simp
  then have "(\<exists>e. r = Inl e) \<and> (\<forall>i. di_ctxErr env i = None) \<and> (\<forall>d i. di_deadline env = Some d \<longrightarrow> di_now env i < d) \<longrightarrow>
      map fst atts = addrs"
    by blast
  with dial_loop_attempts [OF loop(2)] loop(1) show ?thesis by simp
qed simp_all

definition ex_dial :: dial_env where
  "ex_dial = \<lparr>di_ctxErr = (\<lambda>_. None), di_now = (\<lambda>i. int i * second), di_deadline = Some (10 * second),
     di_connect = (\<lambda>k a dl. fst a = Addr4 [192, 0, 2, 2])\<rparr>"

lemma ex_dial_addrs:
  "parseAddr ''192.0.2.1'' = Some (Addr4 [192, 0, 2, 1])" "parseAddr ''192.0.2.2'' = Some (Addr4 [192, 0, 2, 2])"
  "splitHostPort ''h:80'' = Some (''h'', ''80'')"
  by (simp_all add: addr_eval)

lemma ex_dial_port: "atoi ''80'' = Some 80"
proof -
  have "atoi (nat_str 80) = Some (int 80)" using atoi_int_str [of 80] by (simp add: int_str_def)
  moreover have "nat_str 80 = ''80''" by (simp add: nat_str.simps [of 80] nat_str.simps [of 8] nat_str.simps [of 0] char_of_def bit_0)
  ultimately show ?thesis by simp
qed

lemma ex_dial_run:
  "\<exists>atts. DialContext (\<lambda>_. Some (Inr [''192.0.2.1'', ''192.0.2.2''])) ex_dial ''tcp4'' ''h:80'' =
     Some (atts, Inr (Addr4 [192, 0, 2, 2], 80))"
  by (simp add: DialContext_def protoSplitter_def dial_target_def ex_dial_addrs ex_dial_port dial_addrs_def List.map_filter_def
      ex_dial_def partialDeadline_def Let_def)

lemma prefix_two: "prefix xs [a, b] \<Longrightarrow> xs \<noteq> [] \<Longrightarrow> last xs = b \<Longrightarrow> a \<noteq> b \<Longrightarrow> xs = [a, b]"
  by (auto simp: prefix_Cons)

lemma ex_dial_resolved:
  "dial_resolved (\<lambda>_. Some (Inr [''192.0.2.1'', ''192.0.2.2''])) KindTCP ''4'' ''h:80'' =
     Some [(Addr4 [192, 0, 2, 1], 80), (Addr4 [192, 0, 2, 2], 80)]"
  by (simp add: dial_resolved_def ex_dial_addrs ex_dial_port List.map_filter_simps)

theorem DialContext_correct_witness:
  "\<exists>atts. DialContext (\<lambda>_. Some (Inr [''192.0.2.1'', ''192.0.2.2''])) ex_dial ''tcp4'' ''h:80'' =
     Some (atts, Inr (Addr4 [192, 0, 2, 2], 80)) \<and>
     map fst atts = [(Addr4 [192, 0, 2, 1], 80), (Addr4 [192, 0, 2, 2], 80)]"
proof -
  let ?lookup = "\<lambda>_. Some (Inr [''192.0.2.1'', ''192.0.2.2''])"
  obtain atts where a: "DialContext ?lookup ex_dial ''tcp4'' ''h:80'' = Some (atts, Inr (Addr4 [192, 0, 2, 2], 80))"
    using ex_dial_run by blast
  have "protoSplitter ''tcp4'' = Some (KindTCP, ''4'')" by (simp add: protoSplitter_def)
  note dc = DialContext_correct [OF a this, unfolded ex_dial_resolved option.case sum.case]
  note last = conjunct2 [OF conjunct2 [OF conjunct2 [OF dc]]]
  have "prefix (map fst atts) [(Addr4 [192, 0, 2, 1], 80), (Addr4 [192, 0, 2, 2], 80)]"
    by (rule conjunct1 [OF conjunct1 [OF dc]])
  moreover have "map fst atts \<noteq> []" "last (map fst atts) = (Addr4 [192, 0, 2, 2], 80)"
    using conjunct1 [OF last] conjunct1 [OF conjunct2 [OF last]] by (simp_all only: map_is_Nil_conv last_map not_False_eq_True)
  moreover have "(Addr4 [192, 0, 2, 1], 80 :: 16 word) \<noteq> (Addr4 [192, 0, 2, 2], 80)" by simp
  ultimately have "map fst atts = [(Addr4 [192, 0, 2, 1], 80), (Addr4 [192, 0, 2, 2], 80)]"
    by (rule prefix_two)
  with a show ?thesis by (intro exI [of _ atts] conjI)
qed

end
