(* ===== verification/Socks5.thy ===== *)
theory Socks5
  imports Tun_Dial Redaction
begin

text \<open>
  The SOCKS5 proxy in front of the tunnel (\<^verbatim>\<open>socks5.go\<close>): the checks on its address, its
  authentication, and the resolver and the dial function it gives to the SOCKS server. The
  server itself (\<^verbatim>\<open>go-socks5\<close>) and the local listener are not part of the repository.
\<close>

section \<open>Addresses\<close>

definition validatePort :: "string \<Rightarrow> bool" where
  "validatePort value = (case atoi value of None \<Rightarrow> False | Some port \<Rightarrow> \<not> (port < 1 \<or> port > 65535))"

datatype socks_error = SocksAddr | SocksHostEmpty | SocksPort | SocksNoStack | SocksListen

definition validateSocks5Addr :: "string \<Rightarrow> socks_error option" where
  "validateSocks5Addr addr =
     (case splitHostPort addr of
        None \<Rightarrow> Some SocksAddr
      | Some (host, port) \<Rightarrow>
          (if host = [] then Some SocksHostEmpty
           else if \<not> validatePort port then Some SocksPort
           else None))"

definition isLoopbackBindHost :: "string \<Rightarrow> bool" where
  "isLoopbackBindHost host =
     (if equalFold (trimSuffix host ''.'') ''localhost'' then True
      else
        let host = (case indexByte (CHR ''%'') host of None \<Rightarrow> host | Some i \<Rightarrow> take i host)
        in case parseIP host of None \<Rightarrow> False | Some ip \<Rightarrow> ip_isLoopback ip)"

section \<open>Authentication\<close>

record socks5Auth =
  sa_user :: string
  sa_pass :: string

definition auth_enabled :: "socks5Auth \<Rightarrow> bool" where
  "auth_enabled a = (sa_user a \<noteq> [])"

datatype auth_method = NoAuth | UserPass string string

definition socks5AuthMethods :: "socks5Auth \<Rightarrow> auth_method list" where
  "socks5AuthMethods auth = (if auth_enabled auth then [UserPass (sa_user auth) (sa_pass auth)] else [NoAuth])"

definition authLogMode :: "socks5Auth \<Rightarrow> string" where
  "authLogMode auth = (if auth_enabled auth then ''userpass'' else ''none'')"

section \<open>Resolving and dialling\<close>

datatype resolve_error = ResolveLookup dns_error | ResolveNoIPv4 string

fun resolve_first :: "string \<Rightarrow> string list \<Rightarrow> resolve_error + net_ip" where
  "resolve_first name [] = Inl (ResolveNoIPv4 name)"
| "resolve_first name (addr # addrs) =
     (case parseIP addr of
        None \<Rightarrow> resolve_first name addrs
      | Some ip \<Rightarrow> (if \<not> is_v4 ip then resolve_first name addrs else Inr ip))"

text \<open>\<open>lookup\<close> is \<^verbatim>\<open>LookupContextHost\<close> of the tunnel.\<close>

definition socksResolve :: "(string \<Rightarrow> (dns_error + string list) option) \<Rightarrow> string \<Rightarrow> (resolve_error + net_ip) option" where
  "socksResolve lookup name =
     (case lookup name of
        None \<Rightarrow> None
      | Some (Inl e) \<Rightarrow> Some (Inl (ResolveLookup e))
      | Some (Inr addrs) \<Rightarrow> Some (resolve_first name addrs))"

datatype socks_dial_error = IPv6Egress string | SocksDial dial_error

definition socksDial ::
  "(string \<Rightarrow> (dns_error + string list) option) \<Rightarrow> dial_env \<Rightarrow> string \<Rightarrow> string \<Rightarrow>
   ((addr_port \<times> instant option) list \<times> (socks_dial_error + addr_port)) option" where
  "socksDial lookup env network target =
     (if (case splitHostPort target of
            None \<Rightarrow> False
          | Some (host, _) \<Rightarrow> (case parseIP host of None \<Rightarrow> False | Some ip \<Rightarrow> \<not> is_v4 ip))
      then Some ([], Inl (IPv6Egress target))
      else map_option (apsnd (map_sum SocksDial id)) (DialContext lookup env network target))"

section \<open>The proxy\<close>

record socks5Proxy =
  sp_listener :: "string option" \<comment> \<open>the address it listens on\<close>
  sp_done :: bool \<comment> \<open>the server goroutine has ended\<close>

text \<open>
  \<open>listen\<close> says which addresses can be listened on and what they become; \<open>haveStack\<close> that the
  tunnel's network is not nil. The log lines are the warning and the information.
\<close>

definition startSocks5Proxy ::
  "(string \<Rightarrow> string option) \<Rightarrow> appLogger \<Rightarrow> string \<Rightarrow> socks5Auth \<Rightarrow> bool \<Rightarrow> log_line list \<times> (socks_error + socks5Proxy \<times> auth_method list)" where
  "startSocks5Proxy listen logger addr auth haveStack =
     (if \<not> haveStack then ([], Inl SocksNoStack)
      else case validateSocks5Addr addr of
        Some e \<Rightarrow> ([], Inl e)
      | None \<Rightarrow>
          (case listen addr of
             None \<Rightarrow> ([], Inl SocksListen)
           | Some bound \<Rightarrow>
               ((if \<not> auth_enabled auth \<and>
                     (case splitHostPort addr of None \<Rightarrow> False | Some (host, _) \<Rightarrow> \<not> isLoopbackBindHost host)
                 then logger_log logger LevelWarn
                   ''SOCKS5 proxy bound to a non-loopback address with no authentication; any client that can reach this listener can use the tunnel''
                   [(''address'', bound)]
                 else []) @
                logger_log logger LevelInfo ''SOCKS5 proxy listening''
                  [(''address'', bound), (''transport'', ''Teleport''), (''auth'', authLogMode auth)],
                Inr (\<lparr>sp_listener = Some bound, sp_done = False\<rparr>, socks5AuthMethods auth))))"

text \<open>
  \<^verbatim>\<open>Close\<close> closes the listener, with the error \<open>err\<close>, and waits for the server, which ends when
  its listener is closed.
\<close>

definition socks5Proxy_Close :: "'e option \<Rightarrow> socks5Proxy option \<Rightarrow> 'e option \<times> socks5Proxy option" where
  "socks5Proxy_Close err p =
     (case p of
        None \<Rightarrow> (None, None)
      | Some q \<Rightarrow> (if sp_listener q = None then (None, Some q) else (err, Some (q\<lparr>sp_done := True\<rparr>))))"

section \<open>Lemmas\<close>

lemma resolve_first_eq:
  "resolve_first name addrs =
     (case List.map_filter (\<lambda>a. case parseIP a of None \<Rightarrow> None | Some ip \<Rightarrow> if is_v4 ip then Some ip else None) addrs of
        [] \<Rightarrow> Inl (ResolveNoIPv4 name) | ip # _ \<Rightarrow> Inr ip)"
  by (induction addrs) (auto simp: List.map_filter_simps split: option.split)

lemma ipv4_host:
  assumes "is_v4 ip"
  shows "parseIP (ip_String ip) = Some (v4InV6Prefix @ to4 ip)" "parseAddr (ip_String ip) = Some (Addr4 (to4 ip))"
    "plain_host (ip_String ip)" "ip_String ip \<noteq> []" "CHR '':'' \<notin> set (ip_String ip)"
proof -
  have l: "length (to4 ip) = 4" by (rule to4_length [OF assms])
  have s: "ip_String ip = ipv4_str (to4 ip)" using assms by (auto simp: ip_String_def is_v4_def to4_def)
  show "parseIP (ip_String ip) = Some (v4InV6Prefix @ to4 ip)" unfolding s by (rule parseIP_ipv4_str [OF l])
  obtain a b c d where "to4 ip = [a, b, c, d]" using length4_cases [OF l] by metis
  then show p: "parseAddr (ip_String ip) = Some (Addr4 (to4 ip))" unfolding s by (simp only: parseAddr_ipv4_str)
  show "plain_host (ip_String ip)" unfolding s by (rule plain_host_ipv4_str)
  show "ip_String ip \<noteq> []" using p by (auto simp: parseAddr_def)
  show "CHR '':'' \<notin> set (ip_String ip)" unfolding s using ipv4_str_chars dot_not_digit by blast
qed

lemma find_map_filter:
  "find P (List.map_filter f xs) = (case List.map_filter (\<lambda>a. case f a of None \<Rightarrow> None | Some y \<Rightarrow> if P y then Some y else None) xs of
     [] \<Rightarrow> None | y # _ \<Rightarrow> Some y)"
  by (induction xs) (auto simp: List.map_filter_simps split: option.split)

lemma resolve_first_iff:
  "resolve_first name addrs = Inr ip \<longleftrightarrow> find is_v4 (List.map_filter parseIP addrs) = Some ip"
  unfolding resolve_first_eq find_map_filter by (auto split: list.split)

text \<open>An IPv4 address is looked up as itself.\<close>

lemma LookupContextHost_ipv4:
  assumes "is_v4 ip" "nt_hasV4 tnet \<or> nt_hasV6 tnet"
  shows "LookupContextHost tnet one v6First (ip_String ip) = Some (Inr [ip_String ip])"
proof -
  have "lookup_literal (ip_String ip) = Some (Addr4 (to4 ip))"
    using ipv4_host [OF assms(1)] by (simp add: lookup_literal_def)
  moreover have "addr_String (Addr4 (to4 ip)) = ip_String ip"
    using assms(1) by (auto simp: ip_String_def is_v4_def to4_def)
  ultimately show ?thesis using ipv4_host(4) [OF assms(1)] assms(2) by (auto simp: LookupContextHost_def Let_def)
qed

lemma atoi_nat_str: "n \<le> 65535 \<Longrightarrow> atoi (nat_str n) = Some (int n)"
  using atoi_int_str [of "int n"] by (simp add: int_str_nonneg)

lemma dial_loop_single:
  assumes "dial_loop env kind i [a] fe = (atts, r)"
  shows "map fst atts \<in> {[], [a]} \<and> (\<forall>b. r = Inr b \<longrightarrow> map fst atts = [a] \<and> b = a)"
proof -
  from dial_loop_attempts [OF assms] have p: "prefix (map fst atts) [a]"
    and r: "\<And>b. r = Inr b \<Longrightarrow> atts \<noteq> [] \<and> fst (last atts) = b" by (auto split: sum.splits)
  from p have m: "map fst atts \<in> {[], [a]}" by (auto simp: prefix_Cons)
  have "map fst atts = [a] \<and> b = a" if "r = Inr b" for b
  proof -
    from r [OF that] have ne: "atts \<noteq> []" and l: "fst (last atts) = b" by simp_all
    with m have "map fst atts = [a]" by auto
    with ne l show ?thesis by (metis last.simps last_map)
  qed
  with m show ?thesis by blast
qed

lemma not_localhost: "\<forall>c \<in> set s. is_digit c \<or> c = CHR ''.'' \<Longrightarrow> \<not> equalFold s ''localhost''"
proof
  assume s: "\<forall>c \<in> set s. is_digit c \<or> c = CHR ''.''" and e: "equalFold s ''localhost''"
  from s have "list_all (\<lambda>c. of_char c < (128::nat)) s" by (auto simp: list_all_iff is_digit_def char_in_def)
  with e have "map to_lower_char s = map to_lower_char ''localhost''" by (simp add: equalFold_ascii)
  then obtain c where "c \<in> set s" "to_lower_char c = CHR ''l''"
    by (cases s) (auto simp: to_lower_char_def is_upper_def char_in_def)
  with s show False by (auto simp: to_lower_char_def is_upper_def is_digit_def char_in_def split: if_splits)
qed

lemma loopback_ipv4: "isLoopbackBindHost (ipv4_str [a, b, c, d]) = (a = 127)"
proof -
  have "\<not> equalFold (trimSuffix (ipv4_str [a, b, c, d]) ''.'') ''localhost''"
    by (rule not_localhost) (auto simp: trimSuffix_def dest: in_set_takeD ipv4_str_chars)
  moreover have "indexByte (CHR ''%'') (ipv4_str [a, b, c, d]) = None"
    using ipv4_str_chars [of "CHR ''%''" "[a, b, c, d]"] dot_not_digit by (auto simp: indexByte_None)
  moreover have "to4 (v4InV6Prefix @ [a, b, c, d]) = [a, b, c, d]" by (simp add: to4_def v4InV6Prefix_def)
  ultimately show ?thesis
    by (simp add: isLoopbackBindHost_def parseIP_ipv4_str ip_isLoopback_def is_v4_def)
qed

section \<open>Properties of the proxy\<close>

text \<open>
  C33. The proxy leaves the tunnel over IPv4 only. The resolver answers a name with the first
  IPv4 address of the lookup inside the tunnel; a dial to that address always returns,
  attempts no other address than that one at the given port, and connects to no other.
\<close>

theorem socks_egress_ipv4:
  assumes "socksResolve (LookupContextHost tnet one v6First) name = Some (Inr ip)" and "n \<le> 65535"
  shows "(\<exists>addrs. LookupContextHost tnet one v6First name = Some (Inr addrs) \<and>
           find is_v4 (List.map_filter parseIP addrs) = Some ip) \<and>
    (\<exists>atts r. socksDial (LookupContextHost tnet one v6First) env ''tcp'' (joinHostPort (ip_String ip) (nat_str n)) = Some (atts, r) \<and>
       map fst atts \<in> {[], [(Addr4 (to4 ip), of_nat n)]} \<and>
       (\<forall>a. r = Inr a \<longrightarrow> map fst atts = [a] \<and> a = (Addr4 (to4 ip), of_nat n)))"
proof -
  from assms(1) obtain addrs where l: "LookupContextHost tnet one v6First name = Some (Inr addrs)"
    and f: "find is_v4 (List.map_filter parseIP addrs) = Some ip"
    by (auto simp: socksResolve_def resolve_first_iff split: option.splits sum.splits)
  from f have v4: "is_v4 ip" by (auto simp: find_Some_iff)
  from l have fam: "nt_hasV4 tnet \<or> nt_hasV6 tnet" by (auto simp: LookupContextHost_def Let_def split: if_splits)
  have sp: "splitHostPort (joinHostPort (ip_String ip) (nat_str n)) = Some (ip_String ip, nat_str n)"
    by (rule go_hp.split_join [OF ipv4_host(3) [OF v4] plain_port_nat_str])
  have ok: "is_v4 (v4InV6Prefix @ to4 ip)" by (rule is_v4_mapped [OF to4_length [OF v4]])
  obtain atts r where loop: "dial_loop env KindTCP 0 [(Addr4 (to4 ip), of_nat n)] None = (atts, r)" by force
  have "DialContext (LookupContextHost tnet one v6First) env ''tcp'' (joinHostPort (ip_String ip) (nat_str n)) = Some (atts, r)"
    using sp atoi_nat_str [OF assms(2)] assms(2) LookupContextHost_ipv4 [OF v4 fam] loop ipv4_host(2) [OF v4]
    by (simp add: DialContext_def protoSplitter_def dial_target_def dial_addrs_def List.map_filter_def Let_def)
  then have "socksDial (LookupContextHost tnet one v6First) env ''tcp'' (joinHostPort (ip_String ip) (nat_str n)) =
      Some (atts, map_sum SocksDial id r)"
    using sp ipv4_host(1) [OF v4] ok by (simp add: socksDial_def)
  with dial_loop_single [OF loop] l f show ?thesis by (cases r) auto
qed

definition ex_socks_tun :: netTun where
  "ex_socks_tun = \<lparr>nt_mtu = 1420, nt_epMTU = 1420, nt_nicMTU = 1420, nt_events = [], nt_dnsServers = [],
     nt_hasV4 = True, nt_hasV6 = False, nt_addresses = [], nt_routes = [], nt_injected = [], nt_closed = False\<rparr>"

definition ex_socks_one :: "string \<Rightarrow> rr_type \<Rightarrow> (dns_error option + dns_answer list \<times> string) option" where
  "ex_socks_one name t =
     Some (Inr ([Answer TypeA True (Some [192, 0, 2, 7])], ''d''))"

lemma ex_socks_lookup:
  "LookupContextHost ex_socks_tun ex_socks_one True ''h'' = Some (Inr [ipv4_str [192, 0, 2, 7]])"
proof -
  have "lookup_literal ''h'' = None" "isDomainName ''h''"
    by (simp_all add: lookup_literal_def parseAddr_def isDomainName_def name_step_def is_lower_def is_upper_def is_digit_def char_in_def)
  then show ?thesis
    by (simp add: LookupContextHost_def ex_socks_tun_def ex_socks_one_def Let_def lookup_result_def lookup_lane_def lookup_addrs_def)
qed

theorem socks_egress_ipv4_witness:
  "socksResolve (LookupContextHost ex_socks_tun ex_socks_one True) ''h'' = Some (Inr (v4InV6Prefix @ [192, 0, 2, 7])) \<and>
   (\<exists>atts r. socksDial (LookupContextHost ex_socks_tun ex_socks_one True) ex_dial ''tcp''
        (joinHostPort (ip_String (v4InV6Prefix @ [192, 0, 2, 7])) (nat_str 443)) = Some (atts, r) \<and>
      map fst atts \<in> {[], [(Addr4 (to4 (v4InV6Prefix @ [192, 0, 2, 7])), of_nat 443)]})"
proof -
  have "socksResolve (LookupContextHost ex_socks_tun ex_socks_one True) ''h'' = Some (Inr (v4InV6Prefix @ [192, 0, 2, 7]))"
    using ex_socks_lookup by (simp add: socksResolve_def parseIP_ipv4_str is_v4_mapped)
  from socks_egress_ipv4 [OF this, of 443 ex_dial] this show ?thesis by auto
qed

text \<open>
  The proxy on an IPv4 address and a valid port: it listens there, asks for exactly the
  configured user and password or for nothing, and warns exactly when it asks for nothing
  on an address outside 127.0.0.0/8.
\<close>

theorem startSocks5Proxy_correct:
  assumes "1 \<le> n" "n \<le> 65535" and "listen (joinHostPort (ipv4_str [a, b, c, d]) (nat_str n)) = Some bound"
  shows "\<exists>logs p methods.
    startSocks5Proxy listen logger (joinHostPort (ipv4_str [a, b, c, d]) (nat_str n)) auth True = (logs, Inr (p, methods)) \<and>
    sp_listener p = Some bound \<and> methods = (if sa_user auth = [] then [NoAuth] else [UserPass (sa_user auth) (sa_pass auth)]) \<and>
    ((\<exists>l \<in> set logs. fst l = LevelWarn) \<longleftrightarrow> sa_user auth = [] \<and> a \<noteq> 127)"
proof -
  have sp: "splitHostPort (joinHostPort (ipv4_str [a, b, c, d]) (nat_str n)) = Some (ipv4_str [a, b, c, d], nat_str n)"
    by (rule go_hp.split_join [OF plain_host_ipv4_str plain_port_nat_str])
  have ne: "ipv4_str [a, b, c, d] \<noteq> []" by (simp add: ipv4_str_def)
  from sp ne assms(1,2) have "validateSocks5Addr (joinHostPort (ipv4_str [a, b, c, d]) (nat_str n)) = None"
    by (simp add: validateSocks5Addr_def validatePort_def atoi_nat_str)
  with sp assms(3) show ?thesis
    by (simp add: startSocks5Proxy_def loopback_ipv4 auth_enabled_def socks5AuthMethods_def logger_log_def)
qed

theorem startSocks5Proxy_correct_witness:
  "\<exists>logs p.
     startSocks5Proxy (\<lambda>_. Some ''all'') \<lparr>al_debug = False\<rparr> (joinHostPort (ipv4_str [0, 0, 0, 0]) (nat_str 1080))
       \<lparr>sa_user = [], sa_pass = []\<rparr> True = (logs, Inr (p, [NoAuth])) \<and>
     sp_listener p = Some ''all'' \<and> (\<exists>l \<in> set logs. fst l = LevelWarn)"
  using startSocks5Proxy_correct [of 1080 "\<lambda>_. Some ''all''" 0 0 0 0 "''all''" "\<lparr>al_debug = False\<rparr>" "\<lparr>sa_user = [], sa_pass = []\<rparr>"]
  by auto

end
