(* ===== verification/Tunnel.thy ===== *)
theory Tunnel
  imports UdpEcho WireGuard Socks5
begin

text \<open>
  Supervision of a running tunnel (\<^verbatim>\<open>tunnel.go\<close>): the set-up of the device, the statistics read
  from WireGuard, the retry of queued candidates until the first handshake, the recovery of
  known endpoints after a loss, and the loop that decides between them.

  The WireGuard device (wireguard-go) is not part of the repository: whether it accepts a
  configuration and the text of its statistics are arguments. Cancellation of a context is an
  argument of every wait.
\<close>

section \<open>Statistics of the peer\<close>

record wireGuardPeerStats =
  ws_endpoint :: string
  ws_lastHandshake :: "instant option" \<comment> \<open>\<open>None\<close> is the zero time\<close>
  ws_rxBytes :: nat
  ws_valid :: bool

definition noPeerStats :: wireGuardPeerStats where
  "noPeerStats = \<lparr>ws_endpoint = [], ws_lastHandshake = None, ws_rxBytes = 0, ws_valid = False\<rparr>"

definition peerStats_line :: "wireGuardPeerStats \<Rightarrow> string \<Rightarrow> wireGuardPeerStats" where
  "peerStats_line stats line =
     (case cut_at (CHR ''='') line of
        None \<Rightarrow> stats
      | Some (key, value) \<Rightarrow>
          (if key = ''endpoint'' then stats\<lparr>ws_endpoint := value\<rparr>
           else if key = ''last_handshake_time_sec'' then
             (case atoi value of
                Some seconds \<Rightarrow>
                  (if seconds > 0 then stats\<lparr>ws_lastHandshake := Some (seconds * second)\<rparr> else stats)
              | None \<Rightarrow> stats)
           else if key = ''rx_bytes'' then
             (case parseUint 64 value of
                Some bytes \<Rightarrow> stats\<lparr>ws_rxBytes := bytes\<rparr>
              | None \<Rightarrow> stats)
           else stats))"

definition parseWireGuardPeerStats :: "string \<Rightarrow> wireGuardPeerStats" where
  "parseWireGuardPeerStats ipcData =
     (let stats = foldl peerStats_line noPeerStats (split_on (CHR 0x0A) ipcData)
      in stats\<lparr>ws_valid := (ws_endpoint stats \<noteq> [] \<or> ws_lastHandshake stats \<noteq> None \<or> ws_rxBytes stats \<noteq> 0)\<rparr>)"

text \<open>\<open>ipc\<close> is what \<^verbatim>\<open>dev.IpcGet\<close> returned.\<close>

definition readWireGuardPeerStats :: "string option \<Rightarrow> wireGuardPeerStats" where
  "readWireGuardPeerStats ipc = (case ipc of None \<Rightarrow> noPeerStats | Some d \<Rightarrow> parseWireGuardPeerStats d)"

definition wireGuardRecentHandshakeWindow :: duration where
  "wireGuardRecentHandshakeWindow = 3 * minute"

text \<open>\<^verbatim>\<open>t.After(u)\<close>; every handshake time is after the zero time.\<close>

fun time_After :: "instant option \<Rightarrow> instant option \<Rightarrow> bool" where
  "time_After None u = False"
| "time_After (Some t) None = True"
| "time_After (Some t) (Some u) = (t > u)"

definition wireGuardPathActiveSince :: "wireGuardPeerStats \<Rightarrow> wireGuardPeerStats \<Rightarrow> instant \<Rightarrow> bool" where
  "wireGuardPathActiveSince baseline current now =
     (if \<not> ws_valid current then False
      else if ws_valid baseline then
        ws_rxBytes current > ws_rxBytes baseline \<or>
        time_After (ws_lastHandshake current) (ws_lastHandshake baseline)
      else (case ws_lastHandshake current of
              None \<Rightarrow> False
            | Some t \<Rightarrow> now - t \<le> wireGuardRecentHandshakeWindow))"

section \<open>Switching the endpoint\<close>

text \<open>
  What a switch of endpoints needs: the STUN library, the outer sockets, the session secret and the
  key of the peer, which do not change while a tunnel runs, and what the switch meets, the network,
  the random bytes of its probe and which configurations the device accepts.
\<close>

record 'm switch_conf =
  sc_lib :: "'m stun_lib"
  sc_sockets :: "udpSockets option"
  sc_stunSecret :: string
  sc_peerPubHex :: string

record switch_env =
  sw_os :: probe_os
  sw_tx :: "byte list"
  sw_ipcSet :: "string \<Rightarrow> bool"

text \<open>The probe that was sent, if it was, and whether the device took the new endpoint.\<close>

definition switchEndpoint :: "'m switch_conf \<Rightarrow> switch_env \<Rightarrow> string \<Rightarrow> sent_probe option \<times> bool" where
  "switchEndpoint conf env addr =
     (sendPeerCandidateProbe (sc_lib conf) (sw_os env) (sc_sockets conf) addr (sc_stunSecret conf) (sw_tx env),
      sw_ipcSet env (''public_key='' @ sc_peerPubHex conf @ nl @ ''endpoint='' @ addr @ nl))"

text \<open>Whether a handshake initiation is sent: \<open>lookupPeer\<close> says that the text is a key and that the
  device has a peer with it.\<close>

definition forceHandshakeInitiation :: "(string \<Rightarrow> bool) \<Rightarrow> string \<Rightarrow> bool" where
  "forceHandshakeInitiation lookupPeer peerPubHex = lookupPeer peerPubHex"

section \<open>Recovery of known endpoints\<close>

definition endpointRecoveryInterval :: duration where
  "endpointRecoveryInterval = 15 * second"

definition endpointRecoveryMaxBackoff :: duration where
  "endpointRecoveryMaxBackoff = 30 * second"

definition endpointRecoveryRounds :: nat where
  "endpointRecoveryRounds = 2"

definition recovery_nextBackoff :: "duration \<Rightarrow> duration" where
  "recovery_nextBackoff backoff =
     (if backoff * 2 > endpointRecoveryMaxBackoff then endpointRecoveryMaxBackoff else backoff * 2)"

text \<open>
  The endpoint in use, the endpoints tried, the waits done and the number of times the
  context was looked at: \<open>alive n\<close> says whether it was still open at the \<open>n\<close>th look.
\<close>

record recovery =
  rc_current :: string
  rc_tried :: "string list"
  rc_waits :: "duration list"
  rc_looks :: nat
  rc_probes :: "sent_probe list"

text \<open>\<open>RecoveryExhausted\<close>: it has come to its last select statement, which reports the exhaustion unless the
  context ends first.\<close>

datatype recovery_end = RecoveryCancelled | RecoveryExhausted | RecoveryGoesOn

definition recovery_wait :: "(nat \<Rightarrow> bool) \<Rightarrow> duration \<Rightarrow> recovery \<Rightarrow> recovery \<times> bool" where
  "recovery_wait alive d st =
     (st\<lparr>rc_looks := rc_looks st + 1, rc_waits := rc_waits st @ (if alive (rc_looks st) then [d] else [])\<rparr>,
      alive (rc_looks st))"

text \<open>\<open>env n\<close> is what a switch meets after \<open>n\<close> looks.\<close>

fun recover_endpoints ::
  "(nat \<Rightarrow> bool) \<Rightarrow> (nat \<Rightarrow> switch_env) \<Rightarrow> 'm switch_conf \<Rightarrow> string list \<Rightarrow> recovery \<Rightarrow> recovery \<times> recovery_end" where
  "recover_endpoints alive env conf [] st = (st, RecoveryGoesOn)"
| "recover_endpoints alive env conf (endpoint # endpoints) st =
     (if \<not> alive (rc_looks st) then (st, RecoveryCancelled)
      else
        let (probe, ok) = switchEndpoint conf (env (rc_looks st)) endpoint;
            st1 = st\<lparr>rc_tried := rc_tried st @ [endpoint],
                     rc_probes := rc_probes st @ (case probe of None \<Rightarrow> [] | Some q \<Rightarrow> [q]),
                     rc_current := (if ok then endpoint else rc_current st),
                     rc_looks := rc_looks st + 1\<rparr>
        in case recovery_wait alive endpointRecoveryInterval st1 of
             (st2, False) \<Rightarrow> (st2, RecoveryCancelled)
           | (st2, True) \<Rightarrow> recover_endpoints alive env conf endpoints st2)"

fun recover_rounds ::
  "(nat \<Rightarrow> bool) \<Rightarrow> (nat \<Rightarrow> switch_env) \<Rightarrow> 'm switch_conf \<Rightarrow> string list \<Rightarrow> nat \<Rightarrow> duration \<Rightarrow> recovery \<Rightarrow> recovery \<times> recovery_end" where
  "recover_rounds alive env conf known 0 backoff st =
     (st, RecoveryExhausted)"
| "recover_rounds alive env conf known (Suc n) backoff st =
     (case recover_endpoints alive env conf (buildEndpointRecoveryOrder (rc_current st) known) st of
        (st1, RecoveryGoesOn) \<Rightarrow>
          (case recovery_wait alive backoff st1 of
             (st2, False) \<Rightarrow> (st2, RecoveryCancelled)
           | (st2, True) \<Rightarrow> recover_rounds alive env conf known n (recovery_nextBackoff backoff) st2)
      | (st1, e) \<Rightarrow> (st1, e))"

definition recoverWireGuardEndpoints ::
  "(nat \<Rightarrow> bool) \<Rightarrow> (nat \<Rightarrow> switch_env) \<Rightarrow> 'm switch_conf \<Rightarrow> string \<Rightarrow> string list \<Rightarrow> recovery \<times> recovery_end" where
  "recoverWireGuardEndpoints alive env conf currentEndpoint knownEndpoints =
     recover_rounds alive env conf knownEndpoints endpointRecoveryRounds (5 * second)
       \<lparr>rc_current = currentEndpoint, rc_tried = [], rc_waits = [], rc_looks = 0, rc_probes = []\<rparr>"

section \<open>Retry until the first handshake\<close>

definition privateCandidateHandshakeTimeout :: duration where
  "privateCandidateHandshakeTimeout = 3 * second"

definition candidateHandshakeTimeout :: duration where
  "candidateHandshakeTimeout = 6 * second"

definition relayCandidateHandshakeTimeout :: duration where
  "relayCandidateHandshakeTimeout = 25 * second"

definition candidateRetryMaxDuration :: duration where
  "candidateRetryMaxDuration = 60 * second"

definition candidateDwell :: "string \<Rightarrow> (string \<rightharpoonup> string) \<Rightarrow> duration" where
  "candidateDwell addr candidateTypes =
     (if candidateTypes addr = Some ''turn'' then relayCandidateHandshakeTimeout
      else if isPubliclyRoutableCandidateAddr addr then candidateHandshakeTimeout
      else privateCandidateHandshakeTimeout)"

datatype retry_event = RetryCtxDone | RetryNominated | RetryTick

text \<open>
  What one iteration meets: the channel that was ready, the nominated endpoint, a switch to it and
  the clock after it, the statistics of the device, the clock at the check of the whole retry and
  at the check of the dwell, a switch to the next of the queue and the clock after it, and whether the
  device knows its peer.
\<close>

record retry_env =
  re_event :: retry_event
  re_selected :: string
  re_nomSwitch :: switch_env
  re_nomNow :: instant
  re_ipc :: "string option"
  re_now :: instant
  re_dwellNow :: instant
  re_switch :: switch_env
  re_switchNow :: instant
  re_lookupPeer :: "string \<Rightarrow> bool"

record retry =
  rt_current :: string
  rt_queueIdx :: nat
  rt_lastSwitch :: instant
  rt_listening :: bool \<comment> \<open>the nomination channel is not nil\<close>
  rt_switches :: "string list"
  rt_probes :: "sent_probe list"
  rt_initiations :: nat

datatype retry_result = RetryNext retry | RetryStopped retry | RetryHandshake retry | RetryExhausted retry

definition retry_switch :: "'m switch_conf \<Rightarrow> (string \<Rightarrow> bool) \<Rightarrow> switch_env \<Rightarrow> instant \<Rightarrow> string \<Rightarrow> retry \<Rightarrow> retry" where
  "retry_switch conf lookupPeer sw now addr st =
     (let (probe, ok) = switchEndpoint conf sw addr;
          st1 = st\<lparr>rt_probes := rt_probes st @ (case probe of None \<Rightarrow> [] | Some q \<Rightarrow> [q])\<rparr>
      in if ok
         then st1\<lparr>rt_current := addr, rt_lastSwitch := now, rt_switches := rt_switches st1 @ [addr],
                  rt_initiations := rt_initiations st1 +
                    (if forceHandshakeInitiation lookupPeer (sc_peerPubHex conf) then 1 else 0)\<rparr>
         else st1)"

text \<open>The part of an iteration after the select statement.\<close>

definition retry_check ::
  "'m switch_conf \<Rightarrow> string list \<Rightarrow> (string \<rightharpoonup> string) \<Rightarrow> instant \<Rightarrow> retry_env \<Rightarrow> retry \<Rightarrow> retry_result" where
  "retry_check conf candidateQueue candidateTypes devUpTime env st =
     (case re_ipc env of
        None \<Rightarrow>
          (if re_now env - devUpTime \<ge> candidateRetryMaxDuration then RetryExhausted st else RetryNext st)
      | Some ipcData \<Rightarrow>
          (if ws_lastHandshake (parseWireGuardPeerStats ipcData) \<noteq> None then RetryHandshake st
           else if re_now env - devUpTime \<ge> candidateRetryMaxDuration then RetryExhausted st
           else if re_dwellNow env - rt_lastSwitch st \<ge> candidateDwell (rt_current st) candidateTypes then
             (case nextEndpointCandidate candidateQueue (rt_queueIdx st) (rt_current st) of
                (addr, idx, ok) \<Rightarrow>
                  (let st1 = st\<lparr>rt_queueIdx := idx\<rparr>
                   in if ok then RetryNext (retry_switch conf (re_lookupPeer env) (re_switch env) (re_switchNow env) addr st1) else RetryExhausted st1))
           else RetryNext st))"

definition retry_iter ::
  "'m switch_conf \<Rightarrow> string list \<Rightarrow> (string \<rightharpoonup> string) \<Rightarrow> instant \<Rightarrow> retry_env \<Rightarrow> retry \<Rightarrow> retry_result" where
  "retry_iter conf candidateQueue candidateTypes devUpTime env st =
     (case re_event env of
        RetryCtxDone \<Rightarrow> RetryStopped st
      | RetryTick \<Rightarrow> retry_check conf candidateQueue candidateTypes devUpTime env st
      | RetryNominated \<Rightarrow>
          (if \<not> rt_listening st then RetryNext st
           else
             let st1 = st\<lparr>rt_listening := False\<rparr>
             in if re_selected env = [] \<or> re_selected env = rt_current st1 then RetryNext st1
                else retry_check conf candidateQueue candidateTypes devUpTime env
                       (retry_switch conf (re_lookupPeer env) (re_nomSwitch env) (re_nomNow env) (re_selected env) st1)))"

fun retry_loop ::
  "'m switch_conf \<Rightarrow> string list \<Rightarrow> (string \<rightharpoonup> string) \<Rightarrow> instant \<Rightarrow> retry_env list \<Rightarrow> retry \<Rightarrow> retry_result" where
  "retry_loop conf candidateQueue candidateTypes devUpTime [] st = RetryNext st"
| "retry_loop conf candidateQueue candidateTypes devUpTime (env # envs) st =
     (case retry_iter conf candidateQueue candidateTypes devUpTime env st of
        RetryNext st' \<Rightarrow> retry_loop conf candidateQueue candidateTypes devUpTime envs st'
      | r \<Rightarrow> r)"

definition retryEndpointOnHandshakeTimeout ::
  "'m switch_conf \<Rightarrow> string \<Rightarrow> string list \<Rightarrow> (string \<rightharpoonup> string) \<Rightarrow> bool \<Rightarrow> instant \<Rightarrow> retry_env list \<Rightarrow> retry_result" where
  "retryEndpointOnHandshakeTimeout conf currentEndpoint candidateQueue candidateTypes haveNomination devUpTime envs =
     retry_loop conf candidateQueue candidateTypes devUpTime envs
       \<lparr>rt_current = currentEndpoint, rt_queueIdx = 0, rt_lastSwitch = devUpTime,
        rt_listening = haveNomination, rt_switches = [], rt_probes = [], rt_initiations = 0\<rparr>"

section \<open>Supervision\<close>

text \<open>
  The loop of \<^verbatim>\<open>runTunnel\<close>. Besides the code's two variables (the baseline and whether there is
  a recovery to cancel), the model records the endpoint each recovery was started from and
  counts the recoveries cancelled.
\<close>

record supervisor =
  sv_baseline :: wireGuardPeerStats
  sv_recovering :: bool
  sv_started :: "string list"
  sv_cancelled :: nat

datatype supervise_event =
    LifecycleDone
  | EchoStopped pinger_exit
  | Renegotiate
  | Health udpEchoHealthEvent "string option" instant \<comment> \<open>the statistics and the clock\<close>

datatype tunnel_exit = TunnelCancelled | TunnelEcho pinger_exit | TunnelRenegotiationRequired

datatype supervise_result = Supervising supervisor | SupervisionEnds tunnel_exit supervisor

definition cancel_recovery :: "supervisor \<Rightarrow> supervisor" where
  "cancel_recovery sv =
     (if sv_recovering sv then sv\<lparr>sv_recovering := False, sv_cancelled := sv_cancelled sv + 1\<rparr> else sv)"

definition startWireGuardEndpointRecovery :: "string \<Rightarrow> supervisor \<Rightarrow> supervisor" where
  "startWireGuardEndpointRecovery currentEndpoint sv =
     sv\<lparr>sv_recovering := True, sv_started := sv_started sv @ [currentEndpoint]\<rparr>"

text \<open>On every exit the deferred function cancels a recovery that is running.\<close>

fun supervise :: "supervisor \<Rightarrow> supervise_event \<Rightarrow> supervise_result" where
  "supervise sv LifecycleDone = SupervisionEnds TunnelCancelled (cancel_recovery sv)"
| "supervise sv (EchoStopped e) = SupervisionEnds (TunnelEcho e) (cancel_recovery sv)"
| "supervise sv Renegotiate = SupervisionEnds TunnelRenegotiationRequired (cancel_recovery sv)"
| "supervise sv (Health event ipc now) =
     (let current = readWireGuardPeerStats ipc in
      case event of
        UdpEchoHealthy \<Rightarrow> Supervising (cancel_recovery (sv\<lparr>sv_baseline := current\<rparr>))
      | UdpEchoStartupFailed \<Rightarrow> SupervisionEnds TunnelRenegotiationRequired (cancel_recovery sv)
      | UdpEchoUnhealthy \<Rightarrow>
          (if wireGuardPathActiveSince (sv_baseline sv) current now
           then Supervising (sv\<lparr>sv_baseline := current\<rparr>)
           else if \<not> sv_recovering sv
           then Supervising (startWireGuardEndpointRecovery (ws_endpoint current) sv)
           else Supervising sv))"

fun supervise_loop :: "supervisor \<Rightarrow> supervise_event list \<Rightarrow> supervise_result" where
  "supervise_loop sv [] = Supervising sv"
| "supervise_loop sv (e # es) =
     (case supervise sv e of
        Supervising sv' \<Rightarrow> supervise_loop sv' es
      | r \<Rightarrow> r)"

section \<open>Set-up\<close>

record tunnelParams =
  tp_priv :: string
  tp_port :: int
  tp_endpoint :: string
  tp_connResp :: apiResponse
  tp_stunSecret :: string
  tp_sockets :: udpSockets
  tp_nomination :: "nominationTracker option"
  tp_socks5Addr :: string
  tp_socks5Auth :: socks5Auth
  tp_debug :: bool
  tp_candidateQueue :: "string list"
  tp_candidateTypes :: "string \<rightharpoonup> string"
  tp_mtu :: int
  tp_tcpCongestionControl :: string

record tunnel_os =
  tos_path :: path_os
  tos_resolve :: "string \<Rightarrow> udp_addr option" \<comment> \<open>\<^verbatim>\<open>net.ResolveUDPAddr("udp", s)\<close>\<close>
  tos_stack :: stack_lib
  tos_tcp :: tcp_consts
  tos_ipcSet :: "string \<Rightarrow> bool"
  tos_up :: bool
  tos_listen :: "string \<Rightarrow> string option" \<comment> \<open>\<^verbatim>\<open>net.Listen("tcp", s)\<close>\<close>
  tos_logger :: appLogger
  tos_ipc :: "string option" \<comment> \<open>the statistics of the device when the loop starts\<close>

datatype tunnel_error =
    TunnelKey key_error
  | TunnelResolve
  | TunnelDevice tun_error
  | TunnelIpc
  | TunnelUp
  | TunnelSocks socks_error

record tunnel_setup =
  ts_device :: netTun
  ts_prober :: peerMTUProber
  ts_bind :: stunBind
  ts_peerPubHex :: string
  ts_ipc :: string
  ts_proxy :: socks5Proxy
  ts_authMethods :: "auth_method list"
  ts_knownEndpoints :: "string list"

definition tunnel_addrs :: "apiResponse \<Rightarrow> netip_addr list" where
  "tunnel_addrs resp =
     List.map_filter (\<lambda>s. if s = [] then None else parseAddr s) [si_TunnelAddr (ar_ServerInfo resp), ar_ClientIP resp]"

definition tunnel_ipc :: "string \<Rightarrow> int \<Rightarrow> string \<Rightarrow> string \<Rightarrow> string" where
  "tunnel_ipc privHex port peerPubHex epStr =
     ''private_key='' @ privHex @ nl @ ''listen_port='' @ int_str port @ nl @ ''public_key='' @ peerPubHex @ nl @
     ''endpoint='' @ epStr @ nl @ ''persistent_keepalive_interval=25'' @ nl @ ''allowed_ip=0.0.0.0/0'' @ nl @
     ''allowed_ip=::/0'' @ nl"

text \<open>\<^verbatim>\<open>runTunnel\<close> up to its loop; the workers it starts are the components above.\<close>

definition runTunnel_setup :: "tunnel_os \<Rightarrow> tunnelParams \<Rightarrow> tunnel_error + tunnel_setup" where
  "runTunnel_setup os p =
     (case b64KeyToHex (tp_priv p) of
        Inl e \<Rightarrow> Inl (TunnelKey e)
      | Inr privHex \<Rightarrow>
      (case b64KeyToHex (si_WGPubKey (ar_ServerInfo (tp_connResp p))) of
        Inl e \<Rightarrow> Inl (TunnelKey e)
      | Inr peerPubHex \<Rightarrow>
      (case tos_resolve os (tp_endpoint p) of
        None \<Rightarrow> Inl TunnelResolve
      | Some endpointAddr \<Rightarrow>
         (let epStr = udpAddr_String endpointAddr;
              deviceAddrs = tunnel_addrs (tp_connResp p);
              dnsAddrs = List.map_filter parseAddr (ar_DNSAddrs (tp_connResp p));
              manualMTU = tp_mtu p;
              maxTargetMTU = (if manualMTU = 0 then discoverPathMTU (tos_path os) (Some endpointAddr) else manualMTU);
              initialMTU = (if manualMTU = 0 then baseTunnelMTU else manualMTU);
              tunOpts = (if tp_tcpCongestionControl p \<noteq> [] then [withCongestionControl (tp_tcpCongestionControl p)] else [])
          in case fst (createNetTUN (tos_stack os) (tos_tcp os) deviceAddrs dnsAddrs initialMTU tunOpts) of
               Inl e \<Rightarrow> Inl (TunnelDevice e)
             | Inr dev \<Rightarrow>
                 (let ipc = tunnel_ipc privHex (tp_port p) peerPubHex epStr
                  in if \<not> tos_ipcSet os ipc then Inl TunnelIpc
                     else if \<not> tos_up os then Inl TunnelUp
                     else case snd (startSocks5Proxy (tos_listen os) (tos_logger os) (tp_socks5Addr p) (tp_socks5Auth p) True) of
                       Inl e \<Rightarrow> Inl (TunnelSocks e)
                     | Inr (proxy, methods) \<Rightarrow>
                         Inr \<lparr>ts_device = dev,
                              ts_prober = newPeerMTUProber initialMTU maxTargetMTU manualMTU,
                              ts_bind = newStunBind (tp_sockets p) (tp_stunSecret p) (tp_nomination p),
                              ts_peerPubHex = peerPubHex,
                              ts_ipc = ipc,
                              ts_proxy = proxy,
                              ts_authMethods = methods,
                              ts_knownEndpoints = tp_endpoint p # tp_candidateQueue p\<rparr>)))))"

datatype tunnel_run = TunnelNotStarted tunnel_error | TunnelRan supervise_result

definition runTunnel :: "tunnel_os \<Rightarrow> tunnelParams \<Rightarrow> supervise_event list \<Rightarrow> tunnel_run" where
  "runTunnel os p es =
     (case runTunnel_setup os p of
        Inl e \<Rightarrow> TunnelNotStarted e
      | Inr s \<Rightarrow> TunnelRan (supervise_loop
          \<lparr>sv_baseline = readWireGuardPeerStats (tos_ipc os), sv_recovering = False, sv_started = [], sv_cancelled = 0\<rparr> es))"

section \<open>Supervision: lemmas\<close>

definition supervise_step :: "supervise_result \<Rightarrow> supervise_event \<Rightarrow> supervise_result" where
  "supervise_step r e = (case r of Supervising sv \<Rightarrow> supervise sv e | SupervisionEnds x sv \<Rightarrow> r)"

text \<open>At most one recovery runs, and none is left behind.\<close>

fun supervised :: "supervise_result \<Rightarrow> bool" where
  "supervised (Supervising sv) = (length (sv_started sv) = sv_cancelled sv + (if sv_recovering sv then 1 else 0))"
| "supervised (SupervisionEnds x sv) = (length (sv_started sv) = sv_cancelled sv \<and> \<not> sv_recovering sv)"

lemma supervise_supervised [go_inv]: "supervised (Supervising sv) \<Longrightarrow> supervised (supervise sv e)"
  by (cases e) (auto simp: cancel_recovery_def startWireGuardEndpointRecovery_def Let_def split: udpEchoHealthEvent.splits)

interpretation supervision: machine supervise_step supervised "\<lambda>_. True"
  by unfold_locales (auto simp: supervise_step_def supervise_supervised split: supervise_result.splits
      simp del: supervised.simps(1))

lemma supervise_step_ends: "foldl supervise_step (SupervisionEnds x sv) es = SupervisionEnds x sv"
  by (induction es) (simp_all add: supervise_step_def)

lemma supervise_loop_foldl: "supervise_loop sv es = foldl supervise_step (Supervising sv) es"
  by (induction es arbitrary: sv)
    (auto simp: supervise_step_def supervise_step_ends split: supervise_result.splits)

section \<open>Retry: lemmas\<close>

text \<open>
  Every switch so far was to a queued or a nominated endpoint, and there were no more than the
  queue is long, and one.
\<close>

definition retry_inv :: "string list \<Rightarrow> string set \<Rightarrow> retry \<Rightarrow> bool" where
  "retry_inv queue nominated st =
     (set (rt_switches st) \<subseteq> (set queue \<union> nominated) - {[]} \<and> rt_queueIdx st \<le> length queue \<and>
      length (rt_switches st) \<le> rt_queueIdx st + (if rt_listening st then 0 else 1) \<and>
      length (rt_probes st) \<le> rt_queueIdx st + (if rt_listening st then 0 else 1) \<and>
      rt_initiations st \<le> length (rt_switches st))"

lemma nextEndpointCandidate_idx:
  "nextEndpointCandidate queue start current = (c, idx, ok) \<Longrightarrow> start \<le> length queue \<Longrightarrow>
   start \<le> idx \<and> idx \<le> length queue \<and> (ok \<longrightarrow> start < idx \<and> c \<in> set queue \<and> c \<noteq> [])"
proof (induction queue start current rule: nextEndpointCandidate.induct)
  case (1 queue start current)
  show ?case
  proof (cases "start < length queue \<and> queue ! start \<in> {[], current}")
    case True
    with 1 show ?thesis by (auto simp: nextEndpointCandidate.simps [of queue start current])
  next
    case False
    with 1(2,3) show ?thesis
      by (auto simp: nextEndpointCandidate.simps [of queue start current] Let_def split: if_splits)
  qed
qed

fun retry_state :: "retry_result \<Rightarrow> retry" where
  "retry_state (RetryNext st) = st"
| "retry_state (RetryStopped st) = st"
| "retry_state (RetryHandshake st) = st"
| "retry_state (RetryExhausted st) = st"

text \<open>A switch adds one endpoint, one probe and one initiation at most.\<close>

lemma retry_switch_inv:
  assumes "set (rt_switches st) \<subseteq> (set queue \<union> N) - {[]}" and "rt_queueIdx st \<le> length queue"
    and "length (rt_switches st) < rt_queueIdx st + (if rt_listening st then 0 else 1)"
    and "length (rt_probes st) < rt_queueIdx st + (if rt_listening st then 0 else 1)"
    and "rt_initiations st \<le> length (rt_switches st)" and "addr \<in> (set queue \<union> N) - {[]}"
  shows "retry_inv queue N (retry_switch conf lp sw now addr st)"
proof -
  obtain probe ok where sw: "switchEndpoint conf sw addr = (probe, ok)" by force
  show ?thesis using assms by (cases probe; cases ok) (auto simp: retry_switch_def sw Let_def retry_inv_def)
qed

lemma retry_check_inv:
  assumes "retry_inv queue N st"
  shows "retry_inv queue N (retry_state (retry_check conf queue types up env st))"
proof -
  obtain c idx ok where n: "nextEndpointCandidate queue (rt_queueIdx st) (rt_current st) = (c, idx, ok)"
    by (metis surj_pair)
  have idx: "rt_queueIdx st \<le> idx" "idx \<le> length queue" "ok \<Longrightarrow> rt_queueIdx st < idx \<and> c \<in> set queue \<and> c \<noteq> []"
    using nextEndpointCandidate_idx [OF n] assms by (simp_all add: retry_inv_def)
  have "retry_inv queue N (retry_switch conf lp sw now c (st\<lparr>rt_queueIdx := idx\<rparr>))" if ok for lp sw now
    using assms idx that by (intro retry_switch_inv) (simp_all add: retry_inv_def)
  moreover have "retry_inv queue N (st\<lparr>rt_queueIdx := idx\<rparr>)" using assms idx by (simp add: retry_inv_def)
  ultimately show ?thesis using assms by (simp add: retry_check_def n Let_def split: option.split)
qed

lemma retry_iter_inv:
  assumes "retry_inv queue N st" and "re_selected env \<in> N"
  shows "retry_inv queue N (retry_state (retry_iter conf queue types up env st))"
proof -
  have "retry_inv queue N (retry_switch conf lp sw now (re_selected env) (st\<lparr>rt_listening := False\<rparr>))"
    if "rt_listening st" "re_selected env \<noteq> []" for lp sw now
    using assms that by (intro retry_switch_inv) (simp_all add: retry_inv_def)
  moreover have "retry_inv queue N (st\<lparr>rt_listening := False\<rparr>)" if "rt_listening st"
    using assms(1) that by (simp add: retry_inv_def)
  ultimately show ?thesis
    using assms(1) by (auto simp: retry_iter_def Let_def retry_check_inv split: retry_event.split)
qed

lemma retry_loop_inv:
  assumes "retry_inv queue N st" and "\<forall>env \<in> set envs. re_selected env \<in> N"
  shows "retry_inv queue N (retry_state (retry_loop conf queue types up envs st))"
  using assms
proof (induction envs arbitrary: st)
  case (Cons env envs)
  then have "retry_inv queue N (retry_state (retry_iter conf queue types up env st))"
    by (intro retry_iter_inv) simp_all
  with Cons show ?case by (cases "retry_iter conf queue types up env st") simp_all
qed simp

lemma retry_loop_ends:
  assumes "\<exists>env \<in> set envs. re_event env = RetryTick \<and> up + candidateRetryMaxDuration \<le> re_now env"
  shows "\<forall>st'. retry_loop conf queue types up envs st \<noteq> RetryNext st'"
  using assms
proof (induction envs arbitrary: st)
  case (Cons env envs)
  show ?case
  proof (cases "re_event env = RetryTick \<and> up + candidateRetryMaxDuration \<le> re_now env")
    case True
    then have "\<forall>st'. retry_iter conf queue types up env st \<noteq> RetryNext st'"
      by (auto simp: retry_iter_def retry_check_def split: option.split)
    then show ?thesis by (cases "retry_iter conf queue types up env st") auto
  next
    case False
    with Cons show ?thesis by (cases "retry_iter conf queue types up env st") auto
  qed
qed simp

section \<open>Recovery: lemmas\<close>

interpretation recovery_backoff: capped_backoff recovery_nextBackoff "5 * second" endpointRecoveryMaxBackoff
  by unfold_locales (auto simp: recovery_nextBackoff_def endpointRecoveryMaxBackoff_def)

text \<open>An undisturbed round tries every endpoint of its order once, and waits after each.\<close>

lemma recover_endpoints_undisturbed:
  assumes "\<forall>n. alive n"
  shows "\<exists>st'. recover_endpoints alive env conf eps st = (st', RecoveryGoesOn) \<and>
    rc_tried st' = rc_tried st @ eps \<and> rc_waits st' = rc_waits st @ replicate (length eps) endpointRecoveryInterval \<and>
    rc_current st' \<in> insert (rc_current st) (set eps)"
  using assms
proof (induction eps arbitrary: st)
  case (Cons ep eps)
  obtain probe ok where sw: "switchEndpoint conf (env (rc_looks st)) ep = (probe, ok)" by force
  let ?st1 = "st\<lparr>rc_tried := rc_tried st @ [ep], rc_probes := rc_probes st @ (case probe of None \<Rightarrow> [] | Some q \<Rightarrow> [q]),
      rc_current := (if ok then ep else rc_current st), rc_looks := rc_looks st + 1\<rparr>"
  let ?st2 = "?st1\<lparr>rc_looks := rc_looks ?st1 + 1, rc_waits := rc_waits ?st1 @ [endpointRecoveryInterval]\<rparr>"
  have step: "recover_endpoints alive env conf (ep # eps) st = recover_endpoints alive env conf eps ?st2"
    using Cons.prems by (simp add: recovery_wait_def Let_def sw)
  from Cons.IH [OF Cons.prems, of ?st2] show ?case unfolding step by auto
qed simp

lemma recover_endpoints_cancelled:
  assumes "recover_endpoints alive env conf eps st = (st', e)"
  shows "e \<in> {RecoveryGoesOn, RecoveryCancelled} \<and> (\<exists>ys. rc_tried st' = rc_tried st @ ys \<and> prefix ys eps)"
  using assms
proof (induction eps arbitrary: st)
  case (Cons ep eps)
  obtain probe ok where sw: "switchEndpoint conf (env (rc_looks st)) ep = (probe, ok)" by force
  show ?case
  proof (cases "alive (rc_looks st) \<and> alive (Suc (rc_looks st))")
    case False
    with Cons.prems show ?thesis by (auto simp: recovery_wait_def Let_def sw split: if_splits)
  next
    case True
    with Cons.prems Cons.IH show ?thesis
      by (fastforce simp: recovery_wait_def Let_def sw split: if_splits)
  qed
qed simp

text \<open>Two undisturbed rounds, the second from the endpoint the first one ended on.\<close>

lemma recover_rounds_undisturbed:
  assumes "\<forall>n. alive n"
  shows "\<exists>st'. rc_tried st' = rc_tried st @ buildEndpointRecoveryOrder (rc_current st) known \<and>
    rc_current st' \<in> insert (rc_current st) (set known) \<and>
    rc_waits st' = rc_waits st @
      replicate (length (buildEndpointRecoveryOrder (rc_current st) known)) endpointRecoveryInterval @ [b] \<and>
    recover_rounds alive env conf known (Suc n) b st = recover_rounds alive env conf known n (recovery_nextBackoff b) st'"
proof -
  let ?eps = "buildEndpointRecoveryOrder (rc_current st) known"
  obtain st1 where st1: "recover_endpoints alive env conf ?eps st = (st1, RecoveryGoesOn)"
    "rc_tried st1 = rc_tried st @ ?eps" "rc_current st1 \<in> insert (rc_current st) (set ?eps)"
    "rc_waits st1 = rc_waits st @ replicate (length ?eps) endpointRecoveryInterval"
    using recover_endpoints_undisturbed [OF assms, of env conf ?eps st] by blast
  moreover have "set ?eps \<subseteq> insert (rc_current st) (set known)"
    by (auto simp: buildEndpointRecoveryOrder_eq set_keep_first)
  ultimately show ?thesis using assms
    by (intro exI [of _ "st1\<lparr>rc_looks := rc_looks st1 + 1, rc_waits := rc_waits st1 @ [b]\<rparr>"])
      (auto simp: recovery_wait_def)
qed

declare recover_rounds.simps(2) [simp del]

lemma recover_undisturbed:
  assumes "\<forall>n. alive n"
  shows "snd (recoverWireGuardEndpoints alive env conf current known) = RecoveryExhausted"
proof -
  have "snd (recover_rounds alive env conf known n b st) = RecoveryExhausted" for n b st
  proof (induction n arbitrary: b st)
    case (Suc n)
    with recover_rounds_undisturbed [OF assms, of st known b env conf n] show ?case by metis
  qed simp
  then show ?thesis by (simp add: recoverWireGuardEndpoints_def)
qed

lemma distinct_count_list_1: "distinct xs \<Longrightarrow> x \<in> set xs \<Longrightarrow> count_list xs x = 1"
  by (induction xs) (auto simp: count_notin)

lemma count_recovery_order:
  "e \<in> set known \<Longrightarrow> e \<noteq> [] \<Longrightarrow> count_list (buildEndpointRecoveryOrder current known) e = 1"
  by (simp add: buildEndpointRecoveryOrder_eq set_keep_first distinct_keep_first distinct_count_list_1
      del: keep_first.simps)

text \<open>The events that end the supervision, and how.\<close>

fun fatal :: "supervise_event \<Rightarrow> tunnel_exit option" where
  "fatal LifecycleDone = Some TunnelCancelled"
| "fatal (EchoStopped e) = Some (TunnelEcho e)"
| "fatal Renegotiate = Some TunnelRenegotiationRequired"
| "fatal (Health ev ipc now) = (if ev = UdpEchoStartupFailed then Some TunnelRenegotiationRequired else None)"

lemma supervise_fatal:
  "case fatal e of
     Some x \<Rightarrow> supervise sv e = SupervisionEnds x (cancel_recovery sv)
   | None \<Rightarrow> (\<exists>sv'. supervise sv e = Supervising sv')"
  by (cases e) (auto simp: Let_def split: udpEchoHealthEvent.splits)

lemma split_on_append: "c \<notin> set xs \<Longrightarrow> split_on c (xs @ c # ys) = xs # split_on c ys"
  by (induction xs) auto

lemma split_on_lines:
  assumes "CHR 0x0A \<notin> set a" "CHR 0x0A \<notin> set b" "CHR 0x0A \<notin> set c" "CHR 0x0A \<notin> set d"
  shows "split_on (CHR 0x0A) (a @ nl @ b @ nl @ c @ nl @ d @ nl) = [a, b, c, d, []]"
  using assms by (simp add: split_on_append nl_def)

lemma cut_at_append: "c \<notin> set xs \<Longrightarrow> cut_at c (xs @ c # ys) = Some (xs, ys)"
  by (simp add: cut_at_def indexByte_append_notin)

lemma peerStats_line_cut:
  assumes "CHR ''='' \<notin> set key"
  shows "peerStats_line stats (key @ CHR ''='' # value) =
    (if key = ''endpoint'' then stats\<lparr>ws_endpoint := value\<rparr>
     else if key = ''last_handshake_time_sec'' then
       (case atoi value of
          Some seconds \<Rightarrow> (if seconds > 0 then stats\<lparr>ws_lastHandshake := Some (seconds * second)\<rparr> else stats)
        | None \<Rightarrow> stats)
     else if key = ''rx_bytes'' then
       (case parseUint 64 value of Some bytes \<Rightarrow> stats\<lparr>ws_rxBytes := bytes\<rparr> | None \<Rightarrow> stats)
     else stats)"
  by (simp only: peerStats_line_def cut_at_append [OF assms] option.case prod.case)

lemmas stat_lines =
  peerStats_line_cut [of "''public_key''", simplified]
  peerStats_line_cut [of "''endpoint''", simplified]
  peerStats_line_cut [of "''last_handshake_time_sec''", simplified]
  peerStats_line_cut [of "''rx_bytes''", simplified]

lemma stat_line_Nil: "peerStats_line stats [] = stats"
  by (simp add: peerStats_line_def cut_at_def)

lemma nl_notin_nat_str: "CHR 0x0A \<notin> set (nat_str n)"
  using nat_str_digits [of n] by (auto simp: list_all_iff is_digit_def char_in_def dest: bspec)

section \<open>Properties of the tunnel's supervision\<close>

text \<open>
  Whatever happens while a tunnel is supervised, at most one recovery of endpoints runs at
  a time, and when the supervision ends, for whatever reason, every recovery that was
  started has been cancelled.
\<close>

theorem supervise_one_recovery:
  "case supervise_loop \<lparr>sv_baseline = b, sv_recovering = False, sv_started = [], sv_cancelled = 0\<rparr> es of
     Supervising sv \<Rightarrow> length (sv_started sv) = sv_cancelled sv + (if sv_recovering sv then 1 else 0)
   | SupervisionEnds x sv \<Rightarrow> length (sv_started sv) = sv_cancelled sv \<and> \<not> sv_recovering sv"
proof -
  let ?sv = "\<lparr>sv_baseline = b, sv_recovering = False, sv_started = [], sv_cancelled = 0\<rparr>"
  have "supervised (supervise_loop ?sv es)"
    using supervision.run_inv [of "Supervising ?sv" es] by (simp add: supervise_loop_foldl list_all_iff)
  then show ?thesis by (cases "supervise_loop ?sv es") simp_all
qed

text \<open>
  C18. The retry of candidates before the first handshake ends: a tick a minute after the device
  came up, or later, ends it with the handshake seen or the candidates given up, unless it
  was stopped or had ended before. Up to then it has only switched to endpoints of the queue
  or to a nominated one, never to an empty one, and at most once for every entry of the queue
  and once for the nomination; it has sent no more probes than that, and no more handshake
  initiations than it has switched.
\<close>

theorem retryEndpoint_correct:
  assumes "\<exists>env \<in> set envs. re_event env = RetryTick \<and> up + 60 * second \<le> re_now env"
  shows "\<exists>st. retryEndpointOnHandshakeTimeout conf current queue types haveNomination up envs
                \<in> {RetryStopped st, RetryHandshake st, RetryExhausted st} \<and>
    set (rt_switches st) \<subseteq> (set queue \<union> re_selected ` set envs) - {[]} \<and>
    length (rt_switches st) \<le> length queue + 1 \<and> length (rt_probes st) \<le> length queue + 1 \<and>
    rt_initiations st \<le> length (rt_switches st)"
proof -
  let ?st = "\<lparr>rt_current = current, rt_queueIdx = 0, rt_lastSwitch = up, rt_listening = haveNomination, rt_switches = [],
     rt_probes = [], rt_initiations = 0\<rparr>"
  let ?r = "retry_loop conf queue types up envs ?st"
  have "retry_inv queue (re_selected ` set envs) (retry_state ?r)"
    by (rule retry_loop_inv) (auto simp: retry_inv_def)
  moreover have "\<forall>st'. ?r \<noteq> RetryNext st'"
    using assms by (intro retry_loop_ends) (simp add: candidateRetryMaxDuration_def)
  ultimately show ?thesis
    by (cases ?r) (auto simp: retryEndpointOnHandshakeTimeout_def retry_inv_def split: if_splits)
qed

definition ex_switch_conf :: "byte list switch_conf" where
  "ex_switch_conf = \<lparr>sc_lib = ex_stun, sc_sockets = None, sc_stunSecret = [], sc_peerPubHex = ''00ff''\<rparr>"

definition ex_switch :: switch_env where
  "ex_switch = \<lparr>sw_os = \<lparr>po_resolve = \<lambda>_ _. None, po_writeOk = \<lambda>_ _. True\<rparr>, sw_tx = [], sw_ipcSet = \<lambda>_. True\<rparr>"

definition ex_tick :: "instant \<Rightarrow> retry_env" where
  "ex_tick now = \<lparr>re_event = RetryTick, re_selected = [], re_nomSwitch = ex_switch, re_nomNow = now, re_ipc = Some [],
     re_now = now, re_dwellNow = now, re_switch = ex_switch, re_switchNow = now, re_lookupPeer = (\<lambda>_. True)\<rparr>"

theorem retryEndpoint_correct_witness:
  "\<exists>st. retryEndpointOnHandshakeTimeout ex_switch_conf ''192.168.1.9:51820'' [''192.0.2.7:4000''] Map.empty True 0
           [ex_tick (4 * second), ex_tick (61 * second)] \<in> {RetryStopped st, RetryHandshake st, RetryExhausted st} \<and>
     set (rt_switches st) \<subseteq> {''192.0.2.7:4000''} \<and> length (rt_switches st) \<le> 2"
  using retryEndpoint_correct [of "[ex_tick (4 * second), ex_tick (61 * second)]" 0
      ex_switch_conf "''192.168.1.9:51820''" "[''192.0.2.7:4000'']" Map.empty True]
  by (auto simp: ex_tick_def)

text \<open>
  C19. A recovery that is not cancelled ends after two rounds by asking for a new negotiation.
  Each round starts with the endpoint in use and tries every known endpoint once; it waits 15
  seconds after every try, 5 seconds after the first round and 10 after the second.
\<close>

theorem recoverWireGuardEndpoints_correct:
  assumes "\<forall>n. alive n"
  shows "\<exists>st current2. recoverWireGuardEndpoints alive env conf current known = (st, RecoveryExhausted) \<and>
    current2 \<in> insert current (set known) \<and>
    rc_tried st = buildEndpointRecoveryOrder current known @ buildEndpointRecoveryOrder current2 known \<and>
    rc_waits st =
      replicate (length (buildEndpointRecoveryOrder current known)) (15 * second) @ [5 * second] @
      replicate (length (buildEndpointRecoveryOrder current2 known)) (15 * second) @ [10 * second] \<and>
    (\<forall>e. e \<in> set known \<and> e \<noteq> [] \<longrightarrow> count_list (rc_tried st) e = 2)"
proof -
  let ?st0 = "\<lparr>rc_current = current, rc_tried = [], rc_waits = [], rc_looks = 0, rc_probes = []\<rparr>"
  obtain st1 where r1: "recover_rounds alive env conf known (Suc 1) (5 * second) ?st0 =
      recover_rounds alive env conf known 1 (recovery_nextBackoff (5 * second)) st1"
    and st1: "rc_current st1 \<in> insert current (set known)" "rc_tried st1 = buildEndpointRecoveryOrder current known"
    "rc_waits st1 =
       replicate (length (buildEndpointRecoveryOrder current known)) endpointRecoveryInterval @ [5 * second]"
    using recover_rounds_undisturbed [OF assms, of ?st0 known "5 * second" env conf 1]
    unfolding recovery.simps append_Nil by blast
  obtain st2 where r2: "recover_rounds alive env conf known (Suc 0) (10 * second) st1 =
      recover_rounds alive env conf known 0 (recovery_nextBackoff (10 * second)) st2"
    and st2: "rc_tried st2 = rc_tried st1 @ buildEndpointRecoveryOrder (rc_current st1) known"
    "rc_waits st2 = rc_waits st1 @
       replicate (length (buildEndpointRecoveryOrder (rc_current st1) known)) endpointRecoveryInterval @ [10 * second]"
    using recover_rounds_undisturbed [OF assms, of st1 known "10 * second" env conf 0] by blast
  have "recovery_nextBackoff (5 * second) = 10 * second"
    by (simp add: recovery_nextBackoff_def endpointRecoveryMaxBackoff_def)
  with r1 r2 assms have "recoverWireGuardEndpoints alive env conf current known = (st2, RecoveryExhausted)"
    by (simp add: recoverWireGuardEndpoints_def endpointRecoveryRounds_def numeral_2_eq_2)
  moreover have "count_list (rc_tried st2) e = 2" if "e \<in> set known" "e \<noteq> []" for e
    using that by (simp add: st1 st2 count_recovery_order)
  ultimately show ?thesis using st1 st2 by (intro exI [of _ st2] exI [of _ "rc_current st1"])
     (simp add: endpointRecoveryInterval_def)
qed

theorem recoverWireGuardEndpoints_correct_witness:
  "\<exists>st. recoverWireGuardEndpoints (\<lambda>_. True) (\<lambda>_. ex_switch) ex_switch_conf ''a'' [''a'', ''b'', []] = (st, RecoveryExhausted) \<and>
     count_list (rc_tried st) ''a'' = 2 \<and> count_list (rc_tried st) ''b'' = 2"
proof -
  have "\<forall>n. (\<lambda>_ :: nat. True) n" by simp
  from recoverWireGuardEndpoints_correct [OF this, of "\<lambda>_. ex_switch" ex_switch_conf "''a''" "[''a'', ''b'', []]"]
  show ?thesis by fastforce
qed

text \<open>
  C20. The tunnel is given up on exactly four occasions: it is cancelled, the echo pinger stops,
  the endpoints are exhausted, or no echo was ever answered. The first of them in the sequence
  of events decides how the tunnel ends; a loss of health never ends it by itself.
\<close>

theorem supervise_ends_correct:
  "case supervise_loop sv es of
     SupervisionEnds x sv' \<Rightarrow> (case List.map_filter fatal es of y # _ \<Rightarrow> x = y | [] \<Rightarrow> False)
   | Supervising sv' \<Rightarrow> List.map_filter fatal es = []"
proof (induction es arbitrary: sv)
  case Nil
  then show ?case by (simp add: List.map_filter_simps)
next
  case (Cons e es)
  show ?case
    using supervise_fatal [of sv e] Cons [of "case supervise sv e of Supervising s \<Rightarrow> s | SupervisionEnds x s \<Rightarrow> s"]
    by (cases "fatal e") (auto simp: List.map_filter_simps split: supervise_result.splits)
qed

text \<open>
  The statistics read from the text of WireGuard's interface: the endpoint, the time of the
  last handshake and the bytes received are the ones on their lines; a handshake time of 0
  stands for no handshake, and the statistics count as known unless all three are missing.
\<close>

theorem parseWireGuardPeerStats_correct:
  assumes "CHR 0x0A \<notin> set pub" and "CHR 0x0A \<notin> set ep" and "sec < 2 ^ 63" and "rx < 2 ^ 64"
  shows "parseWireGuardPeerStats
      (''public_key='' @ pub @ nl @ ''endpoint='' @ ep @ nl @ ''last_handshake_time_sec='' @ nat_str sec @ nl @
       ''rx_bytes='' @ nat_str rx @ nl) =
    \<lparr>ws_endpoint = ep, ws_lastHandshake = (if sec = 0 then None else Some (int sec * second)),
     ws_rxBytes = rx, ws_valid = (ep \<noteq> [] \<or> sec \<noteq> 0 \<or> rx \<noteq> 0)\<rparr>"
proof -
  let ?l1 = "''public_key='' @ pub" and ?l2 = "''endpoint='' @ ep"
  let ?l3 = "''last_handshake_time_sec='' @ nat_str sec" and ?l4 = "''rx_bytes='' @ nat_str rx"
  have n: "CHR 0x0A \<notin> set ?l1" "CHR 0x0A \<notin> set ?l2" "CHR 0x0A \<notin> set ?l3" "CHR 0x0A \<notin> set ?l4"
    using assms by (simp_all add: nl_notin_nat_str)
  have "split_on (CHR 0x0A) (?l1 @ nl @ ?l2 @ nl @ ?l3 @ nl @ ?l4 @ nl) = [?l1, ?l2, ?l3, ?l4, []]"
    using n by (rule split_on_lines)
  moreover have "peerStats_line st ?l1 = st" "peerStats_line st ?l2 = st\<lparr>ws_endpoint := ep\<rparr>" for st
    by (simp_all add: stat_lines)
  moreover have "atoi (nat_str sec) = Some (int sec)"
    using assms(3) atoi_int_str [of "int sec"] by (simp add: int_str_nonneg)
  then have "peerStats_line st ?l3 = (if sec = 0 then st else st\<lparr>ws_lastHandshake := Some (int sec * second)\<rparr>)" for st
    by (simp add: stat_lines)
  moreover have "parseUint 64 (nat_str rx) = Some rx"
    using assms(4) by (rule parseUint_nat_str)
  then have "peerStats_line st ?l4 = st\<lparr>ws_rxBytes := rx\<rparr>" for st
    by (simp add: stat_lines)
  ultimately show ?thesis
    unfolding parseWireGuardPeerStats_def append_assoc by (simp add: stat_line_Nil noPeerStats_def Let_def del: append_Cons)
qed

theorem parseWireGuardPeerStats_correct_witness:
  "parseWireGuardPeerStats
      (''public_key='' @ ''ab'' @ nl @ ''endpoint='' @ ''192.0.2.7:4000'' @ nl @ ''last_handshake_time_sec='' @
       nat_str 1700000000 @ nl @ ''rx_bytes='' @ nat_str 0 @ nl) =
    \<lparr>ws_endpoint = ''192.0.2.7:4000'', ws_lastHandshake = Some (1700000000 * second), ws_rxBytes = 0, ws_valid = True\<rparr>"
  using parseWireGuardPeerStats_correct [of "''ab''" "''192.0.2.7:4000''" 1700000000 0] by simp

end
