(* ===== verification/Flags.thy ===== *)
theory Flags
  imports Tunnel Api
begin

text \<open>
  The command line (\<^verbatim>\<open>parseFlags\<close> of \<^verbatim>\<open>main.go\<close>). The values that Go's \<^verbatim>\<open>flag\<close> package has parsed, the
  environment and \<^verbatim>\<open>os.Stat\<close> are arguments; a usage error, with which the program exits, is a value.
\<close>

section \<open>Flags\<close>

record cliFlags =
  cf_invite :: string
  cf_name :: string
  cf_endpointOverride :: string
  cf_forceTurn :: bool
  cf_printConfig :: bool
  cf_socks5Addr :: string
  cf_socks5User :: string
  cf_socks5Pass :: string
  cf_family :: networkFamily
  cf_debug :: bool
  cf_sessionFile :: string
  cf_mtu :: int
  cf_tcpCongestionControl :: string

record flag_values =
  fv_args :: "string list"
  fv_invite :: string
  fv_name :: string
  fv_endpoint :: string
  fv_turn :: bool
  fv_printConfig :: bool
  fv_socks5 :: string
  fv_socks5User :: string
  fv_socks5Pass :: string
  fv_4 :: bool
  fv_6 :: bool
  fv_debug :: bool
  fv_sessionFile :: string
  fv_mtu :: int

text \<open>\<open>None\<close>: the host name cannot be read.\<close>

definition defaultClientName :: "string option \<Rightarrow> string" where
  "defaultClientName hostname =
     (case hostname of Some h \<Rightarrow> (if h \<noteq> [] then h else ''Device'') | None \<Rightarrow> ''Device'')"

definition flag_defaults :: "string option \<Rightarrow> flag_values" where
  "flag_defaults hostname =
     \<lparr>fv_args = [], fv_invite = [], fv_name = defaultClientName hostname, fv_endpoint = [], fv_turn = False,
      fv_printConfig = False, fv_socks5 = ''127.0.0.1:1080'', fv_socks5User = [], fv_socks5Pass = [], fv_4 = False,
      fv_6 = False, fv_debug = False, fv_sessionFile = ''sessions/teleport-session.json'', fv_mtu = 0\<rparr>"

datatype usage_error =
    UnexpectedArgs
  | NameEmpty
  | NameTooLong
  | BadSocks5 socks_error
  | AuthPair
  | UserBlank
  | UserTooLong
  | PassTooLong string \<comment> \<open>where the password came from\<close>
  | BothFamilies
  | EndpointFormat
  | EndpointPort
  | TurnAndEndpoint
  | BadInvite invite_error
  | NoSession
  | SessionUnreadable
  | SessionDirectory
  | BadMTU mtu_error
  | BadCongestionControl string

section \<open>Validation\<close>

text \<open>The password and where it comes from.\<close>

definition socks5_password :: "(string \<Rightarrow> string) \<Rightarrow> flag_values \<Rightarrow> string \<times> string" where
  "socks5_password getenv v =
     (if fv_socks5Pass v = [] \<and> fv_socks5User v \<noteq> [] \<and> getenv ''TELEPORT_SOCKS5_PASS'' \<noteq> []
      then (getenv ''TELEPORT_SOCKS5_PASS'', ''TELEPORT_SOCKS5_PASS'')
      else (fv_socks5Pass v, ''--socks5-pass''))"

definition socks5_password_ignored :: "(string \<Rightarrow> string) \<Rightarrow> flag_values \<Rightarrow> bool" where
  "socks5_password_ignored getenv v =
     (getenv ''TELEPORT_SOCKS5_PASS'' \<noteq> [] \<and> fv_socks5User v = [] \<and> fv_socks5Pass v = [])"

definition endpoint_usage :: "string \<Rightarrow> usage_error option" where
  "endpoint_usage endpointOverride =
     (if endpointOverride = [] then None
      else case splitHostPort endpointOverride of
        None \<Rightarrow> Some EndpointFormat
      | Some (host, port) \<Rightarrow>
          (if host = [] then Some EndpointFormat
           else if \<not> validatePort port then Some EndpointPort
           else None))"

text \<open>The invite that is used: normalised, or none with a session file (\<open>stat\<close>: whether it is a
  directory, \<open>None\<close> for an error).\<close>

definition invite_usage ::
  "(string \<Rightarrow> url option) \<Rightarrow> (string \<Rightarrow> bool option) \<Rightarrow> string \<Rightarrow> string \<Rightarrow> usage_error + string" where
  "invite_usage urlParse stat invite sessionFile =
     (if invite \<noteq> [] then map_sum BadInvite id (normalizeInviteSecret urlParse invite)
      else if sessionFile = [] then Inl NoSession
      else case stat sessionFile of
        None \<Rightarrow> Inl SessionUnreadable
      | Some isDir \<Rightarrow> (if isDir then Inl SessionDirectory else Inr []))"

definition flag_family :: "flag_values \<Rightarrow> networkFamily" where
  "flag_family v = (let family = (if fv_4 v then FamilyIPv4 else FamilyDual) in if fv_6 v then FamilyIPv6 else family)"

definition parseFlags ::
  "(string \<Rightarrow> url option) \<Rightarrow> (string \<Rightarrow> bool option) \<Rightarrow> (string \<Rightarrow> string) \<Rightarrow> flag_values \<Rightarrow> usage_error + cliFlags" where
  "parseFlags urlParse stat getenv v =
     (if fv_args v \<noteq> [] then Inl UnexpectedArgs
      else if trimSpace (fv_name v) = [] then Inl NameEmpty
      else if length (fv_name v) > 128 then Inl NameTooLong
      else case validateSocks5Addr (fv_socks5 v) of
        Some e \<Rightarrow> Inl (BadSocks5 e)
      | None \<Rightarrow>
     (let (pass, source) = socks5_password getenv v; user = fv_socks5User v in
      if (user = []) \<noteq> (pass = []) then Inl AuthPair
      else if user \<noteq> [] \<and> trimSpace user = [] then Inl UserBlank
      else if length user > 255 then Inl UserTooLong
      else if length pass > 255 then Inl (PassTooLong source)
      else if fv_4 v \<and> fv_6 v then Inl BothFamilies
      else case endpoint_usage (fv_endpoint v) of
        Some e \<Rightarrow> Inl e
      | None \<Rightarrow>
     (if fv_turn v \<and> fv_endpoint v \<noteq> [] then Inl TurnAndEndpoint
      else case invite_usage urlParse stat (fv_invite v) (fv_sessionFile v) of
        Inl e \<Rightarrow> Inl e
      | Inr invite \<Rightarrow>
     (case resolveConfiguredMTU (fv_mtu v) (getenv ''TELEPORT_MTU'') of
        Inl e \<Rightarrow> Inl (BadMTU e)
      | Inr configuredMTU \<Rightarrow>
     (case resolveTCPCongestionControl (getenv ''TELEPORT_TCP_CONGESTION_CONTROL'') of
        Inl e \<Rightarrow> Inl (BadCongestionControl e)
      | Inr tcpCC \<Rightarrow>
          Inr \<lparr>cf_invite = invite, cf_name = fv_name v, cf_endpointOverride = fv_endpoint v, cf_forceTurn = fv_turn v,
               cf_printConfig = fv_printConfig v, cf_socks5Addr = fv_socks5 v, cf_socks5User = user, cf_socks5Pass = pass,
               cf_family = flag_family v, cf_debug = fv_debug v, cf_sessionFile = fv_sessionFile v, cf_mtu = configuredMTU,
               cf_tcpCongestionControl = tcpCC\<rparr>)))))"

section \<open>Lemmas\<close>

lemma validateSocks5Addr_None:
  "validateSocks5Addr addr = None \<longleftrightarrow>
   (\<exists>host port p. splitHostPort addr = Some (host, port) \<and> host \<noteq> [] \<and> atoi port = Some p \<and> 1 \<le> p \<and> p \<le> 65535)"
  by (auto simp: validateSocks5Addr_def validatePort_def split: option.splits)

lemma endpoint_usage_None:
  "endpoint_usage ep = None \<longleftrightarrow>
   ep = [] \<or> (\<exists>host port p. splitHostPort ep = Some (host, port) \<and> host \<noteq> [] \<and> atoi port = Some p \<and> 1 \<le> p \<and> p \<le> 65535)"
  by (auto simp: endpoint_usage_def validatePort_def split: option.splits)

lemma parseFlags_guards:
  assumes "parseFlags urlParse stat getenv v = Inr f"
  shows "fv_args v = []" "trimSpace (fv_name v) \<noteq> []" "length (fv_name v) \<le> 128" "validateSocks5Addr (fv_socks5 v) = None"
    "(fv_socks5User v = []) = (fst (socks5_password getenv v) = [])" "fv_socks5User v = [] \<or> trimSpace (fv_socks5User v) \<noteq> []"
    "length (fv_socks5User v) \<le> 255" "length (fst (socks5_password getenv v)) \<le> 255" "\<not> (fv_4 v \<and> fv_6 v)"
    "endpoint_usage (fv_endpoint v) = None" "\<not> (fv_turn v \<and> fv_endpoint v \<noteq> [])"
    "invite_usage urlParse stat (fv_invite v) (fv_sessionFile v) = Inr (cf_invite f)"
    "resolveConfiguredMTU (fv_mtu v) (getenv ''TELEPORT_MTU'') = Inr (cf_mtu f)"
    "resolveTCPCongestionControl (getenv ''TELEPORT_TCP_CONGESTION_CONTROL'') = Inr (cf_tcpCongestionControl f)"
    "f = \<lparr>cf_invite = cf_invite f, cf_name = fv_name v, cf_endpointOverride = fv_endpoint v, cf_forceTurn = fv_turn v,
       cf_printConfig = fv_printConfig v, cf_socks5Addr = fv_socks5 v, cf_socks5User = fv_socks5User v,
       cf_socks5Pass = fst (socks5_password getenv v), cf_family = flag_family v, cf_debug = fv_debug v,
       cf_sessionFile = fv_sessionFile v, cf_mtu = cf_mtu f, cf_tcpCongestionControl = cf_tcpCongestionControl f\<rparr>"
  using assms
  by (auto simp: parseFlags_def Let_def split: if_split_asm option.split_asm sum.split_asm prod.split_asm)

lemma resolveConfiguredMTU_range:
  "resolveConfiguredMTU cliMTU envMTU = Inr m \<Longrightarrow> m = 0 \<or> 1280 \<le> m \<and> m \<le> 1500"
  by (auto simp: resolveConfiguredMTU_def Let_def minConfiguredMTU_def maxConfiguredMTU_def split: option.splits if_splits)

lemma resolveTCPCongestionControl_range:
  "resolveTCPCongestionControl env = Inr cc \<Longrightarrow> cc \<in> {[], ''reno'', ''cubic''}"
  by (auto simp: resolveTCPCongestionControl_def Let_def split: if_splits)

text \<open>What the rest of the client relies on.\<close>

definition flags_ok :: "(string \<Rightarrow> bool option) \<Rightarrow> cliFlags \<Rightarrow> bool" where
  "flags_ok stat f =
     (trimSpace (cf_name f) \<noteq> [] \<and> length (cf_name f) \<le> 128 \<and>
      validateSocks5Addr (cf_socks5Addr f) = None \<and>
      (cf_socks5User f = [] \<longleftrightarrow> cf_socks5Pass f = []) \<and>
      length (cf_socks5User f) \<le> 255 \<and> length (cf_socks5Pass f) \<le> 255 \<and>
      endpoint_usage (cf_endpointOverride f) = None \<and> \<not> (cf_forceTurn f \<and> cf_endpointOverride f \<noteq> []) \<and>
      (if cf_invite f = [] then cf_sessionFile f \<noteq> [] \<and> stat (cf_sessionFile f) = Some False
       else is_uuid_text (cf_invite f) \<and> toLower (cf_invite f) = cf_invite f) \<and>
      (cf_mtu f = 0 \<or> 1280 \<le> cf_mtu f \<and> cf_mtu f \<le> 1500) \<and>
      cf_tcpCongestionControl f \<in> {[], ''reno'', ''cubic''})"

section \<open>Properties of the command line\<close>

text \<open>
  C34. A configuration that the command line yields is well formed: the name, the SOCKS address,
  the credentials (a user exactly when there is a password, both within one octet of length),
  the endpoint, the invite (a lower-case UUID, or else a session file that is there), the MTU
  and the congestion control. The password is the one of the flag, or the one of the
  environment when a user is given without one; the family is the one asked for.
\<close>

theorem parseFlags_correct:
  assumes "parseFlags urlParse stat getenv v = Inr f"
  shows "flags_ok stat f \<and>
    (cf_socks5Pass f = fv_socks5Pass v \<or> fv_socks5Pass v = [] \<and> fv_socks5User v \<noteq> [] \<and> cf_socks5Pass f = getenv ''TELEPORT_SOCKS5_PASS'') \<and>
    (cf_invite f = [] \<longleftrightarrow> fv_invite v = []) \<and>
    (cf_family f = FamilyIPv4 \<longleftrightarrow> fv_4 v) \<and> (cf_family f = FamilyIPv6 \<longleftrightarrow> fv_6 v)"
proof -
  note g = parseFlags_guards [OF assms]
  from g(15) have f: "cf_name f = fv_name v" "cf_socks5Addr f = fv_socks5 v" "cf_socks5User f = fv_socks5User v"
    "cf_socks5Pass f = fst (socks5_password getenv v)" "cf_endpointOverride f = fv_endpoint v" "cf_forceTurn f = fv_turn v"
    "cf_sessionFile f = fv_sessionFile v" "cf_family f = flag_family v"
    by (metis cliFlags.select_convs)+
  have i: "if cf_invite f = [] then fv_invite v = [] \<and> fv_sessionFile v \<noteq> [] \<and> stat (fv_sessionFile v) = Some False
      else fv_invite v \<noteq> [] \<and> is_uuid_text (cf_invite f) \<and> toLower (cf_invite f) = cf_invite f"
  proof (cases "fv_invite v = []")
    case True
    with g(12) show ?thesis by (auto simp: invite_usage_def split: if_splits option.splits)
  next
    case False
    with g(12) have "normalizeInviteSecret urlParse (fv_invite v) = Inr (cf_invite f)"
      by (cases "normalizeInviteSecret urlParse (fv_invite v)") (simp_all add: invite_usage_def)
    from normalize_ok [OF this] False show ?thesis by (auto simp: is_uuid_text_def)
  qed
  have "flags_ok stat f"
    unfolding flags_ok_def f using g i resolveConfiguredMTU_range [OF g(13)] resolveTCPCongestionControl_range [OF g(14)]
    by (auto split: if_splits)
  moreover have "fst (socks5_password getenv v) = fv_socks5Pass v \<or>
      fv_socks5Pass v = [] \<and> fv_socks5User v \<noteq> [] \<and> fst (socks5_password getenv v) = getenv ''TELEPORT_SOCKS5_PASS''"
    by (simp add: socks5_password_def)
  moreover have "(flag_family v = FamilyIPv4 \<longleftrightarrow> fv_4 v) \<and> (flag_family v = FamilyIPv6 \<longleftrightarrow> fv_6 v)"
    using g(9) by (auto simp: flag_family_def Let_def)
  ultimately show ?thesis using i by (auto simp: f split: if_splits)
qed

lemma ex_parse:
  assumes "path \<noteq> []"
  obtains f where "parseFlags urlParse (\<lambda>_. Some False) (\<lambda>_. []) ((flag_defaults None)\<lparr>fv_4 := True, fv_mtu := 1300, fv_sessionFile := path\<rparr>) = Inr f"
    "cf_invite f = []" "cf_sessionFile f = path"
proof -
  have "splitHostPort ''127.0.0.1:1080'' = Some (''127.0.0.1'', ''1080'')" by (simp add: addr_eval)
  moreover have "nat_str 1080 = ''1080''"
    by (simp add: nat_str.simps [of 1080] nat_str.simps [of 108] nat_str.simps [of 10] nat_str.simps [of "Suc 0"] nat_str.simps [of 0] char_of_def bit_0)
  then have "atoi ''1080'' = Some 1080" using atoi_nat_str [of 1080] by simp
  ultimately have v: "validateSocks5Addr ''127.0.0.1:1080'' = None" by (simp add: validateSocks5Addr_None)
  have trim: "trimSpace ''Device'' = ''Device''" "trimSpace [] = []"
    by (rule trimSpace_hex_ends; simp add: is_hex_digit_def is_digit_def char_in_def)
      (simp add: trimSpace_def trimLeftSpace.simps [of "[]"] trimRightSpace.simps [of "[]"])
  have "\<exists>f. parseFlags urlParse (\<lambda>_. Some False) (\<lambda>_. []) ((flag_defaults None)\<lparr>fv_4 := True, fv_mtu := 1300, fv_sessionFile := path\<rparr>) = Inr f \<and>
      cf_invite f = [] \<and> cf_sessionFile f = path"
    using assms by (simp add: parseFlags_def flag_defaults_def defaultClientName_def v socks5_password_def endpoint_usage_def
        invite_usage_def resolveConfiguredMTU_def minConfiguredMTU_def maxConfiguredMTU_def resolveTCPCongestionControl_def
        trim toLower_ascii)
  with that show thesis by blast
qed

theorem parseFlags_correct_witness:
  "\<exists>f. parseFlags (\<lambda>_. None) (\<lambda>_. Some False) (\<lambda>_. []) ((flag_defaults None)\<lparr>fv_4 := True, fv_mtu := 1300, fv_sessionFile := ''f''\<rparr>) = Inr f \<and>
     flags_ok (\<lambda>_. Some False) f \<and> cf_family f = FamilyIPv4"
proof -
  obtain f where "parseFlags (\<lambda>_. None) (\<lambda>_. Some False) (\<lambda>_. []) ((flag_defaults None)\<lparr>fv_4 := True, fv_mtu := 1300, fv_sessionFile := ''f''\<rparr>) = Inr f"
    using ex_parse [of "''f''" "\<lambda>_. None"] by auto
  with parseFlags_correct [OF this] show ?thesis by auto
qed

end
