(* ===== verification/Session.thy ===== *)
theory Session
  imports Api
begin

text \<open>
  The session file (\<^verbatim>\<open>session.go\<close>): what is written, the sequence of system calls that replaces
  the file, and reading it back.

  \<open>saveSession\<close> yields the system calls it makes; whether a call succeeds, how much of a failing
  write went through and the name of the temporary file are arguments. What the calls do is defined
  twice: on the files that programs see (\<open>fs_call\<close>), and on a disk behind a cache (\<open>disk_call\<close>), where
  data is durable only once its file was synced and a change of the directory only once the
  directory was, so that a power failure can be told from the end of the process. A time is its RFC
  3339 text; \<open>timeOk\<close> says which texts the time package reads.
\<close>

section \<open>The session\<close>

record pairedSession =
  ps_SessionToken :: string
  ps_SessionSecret :: string
  ps_SavedAt :: string

definition indent_member :: "string \<Rightarrow> string \<Rightarrow> string" where
  "indent_member k v = CHR 0x0A # ''  '' @ json_quote k @ '': '' @ json_quote v"

text \<open>\<^verbatim>\<open>json.MarshalIndent(s, "", "  ")\<close>.\<close>

definition session_text :: "pairedSession \<Rightarrow> string" where
  "session_text s =
     CHR 0x7B # indent_member ''session_token'' (ps_SessionToken s) @ CHR '','' #
     indent_member ''session_secret'' (ps_SessionSecret s) @ CHR '','' #
     indent_member ''saved_at'' (ps_SavedAt s) @ [CHR 0x0A, CHR 0x7D]"

fun dec_time :: "(string \<Rightarrow> bool) \<Rightarrow> string decoder" where
  "dec_time timeOk cur (JStr s) = (if timeOk s then Some s else None)"
| "dec_time timeOk cur JNull = Some cur"
| "dec_time timeOk cur _ = None"

text \<open>The zero time as text.\<close>

definition zero_time :: string where
  "zero_time = ''0001-01-01T00:00:00Z''"

definition dec_pairedSession :: "(string \<Rightarrow> bool) \<Rightarrow> pairedSession decoder" where
  "dec_pairedSession timeOk = dec_struct (\<lambda>ms s. do {
     t \<leftarrow> dec_member ms ''session_token'' dec_string (ps_SessionToken s);
     c \<leftarrow> dec_member ms ''session_secret'' dec_string (ps_SessionSecret s);
     a \<leftarrow> dec_member ms ''saved_at'' (dec_time timeOk) (ps_SavedAt s);
     Some \<lparr>ps_SessionToken = t, ps_SessionSecret = c, ps_SavedAt = a\<rparr> })"

section \<open>Files\<close>

record disk_file =
  f_data :: string
  f_mode :: nat

type_synonym fs = "string \<rightharpoonup> disk_file"

definition mode_0600 :: nat where
  "mode_0600 = 384"

datatype load_error = LoadRead | LoadJson | LoadMissing

definition loadSession :: "(string \<Rightarrow> bool) \<Rightarrow> fs \<Rightarrow> string \<Rightarrow> load_error + pairedSession" where
  "loadSession timeOk fs path =
     (case fs path of
        None \<Rightarrow> Inl LoadRead
      | Some f \<Rightarrow>
          (case Option.bind (json_unmarshal (f_data f))
                  (dec_pairedSession timeOk \<lparr>ps_SessionToken = [], ps_SessionSecret = [], ps_SavedAt = zero_time\<rparr>) of
             None \<Rightarrow> Inl LoadJson
           | Some s \<Rightarrow>
               (if ps_SessionToken s = [] \<or> ps_SessionSecret s = [] then Inl LoadMissing else Inr s)))"

section \<open>Saving\<close>

record save_os =
  so_marshal :: bool
  so_mkdirAll :: bool
  so_createTemp :: "string option"
  so_chmod :: bool
  so_write :: "nat option" \<comment> \<open>\<open>Some n\<close>: the write fails after \<open>n\<close> bytes\<close>
  so_sync :: bool
  so_close :: bool
  so_rename :: bool
  so_remove :: bool
  so_openDir :: bool
  so_syncDir :: bool

datatype save_error =
  SaveMarshal | SaveMkdir | SaveTemp | SaveChmod | SaveWrite | SaveSync | SaveClose | SaveRename

datatype sys_call =
    SysCreate string \<comment> \<open>\<^verbatim>\<open>os.CreateTemp\<close>, which creates with mode 0600\<close>
  | SysChmod string nat
  | SysWrite string string
  | SysSync string
  | SysClose string
  | SysRename string string
  | SysRemove string
  | SysSyncDir

text \<open>The deferred function: a temporary file that was not committed is closed and removed.\<close>

definition save_abort :: "save_os \<Rightarrow> string \<Rightarrow> sys_call list \<Rightarrow> save_error \<Rightarrow> sys_call list \<times> save_error option" where
  "save_abort os tmp calls e = (calls @ SysClose tmp # (if so_remove os then [SysRemove tmp] else []), Some e)"

text \<open>A write can be interrupted at any byte.\<close>

definition save_write :: "string \<Rightarrow> string \<Rightarrow> sys_call list" where
  "save_write tmp data = map (\<lambda>c. SysWrite tmp [c]) data"

definition saveSession :: "save_os \<Rightarrow> string \<Rightarrow> pairedSession \<Rightarrow> sys_call list \<times> save_error option" where
  "saveSession os path s =
     (let data = session_text s in
      if \<not> so_marshal os then ([], Some SaveMarshal)
      else if \<not> so_mkdirAll os then ([], Some SaveMkdir)
      else case so_createTemp os of
        None \<Rightarrow> ([], Some SaveTemp)
      | Some tmp \<Rightarrow>
     (let created = [SysCreate tmp] in
      if \<not> so_chmod os then save_abort os tmp created SaveChmod
      else let private = created @ [SysChmod tmp mode_0600] in
      case so_write os of
        Some n \<Rightarrow> save_abort os tmp (private @ save_write tmp (take n data)) SaveWrite
      | None \<Rightarrow>
     (let written = private @ save_write tmp data in
      if \<not> so_sync os then save_abort os tmp written SaveSync
      else let synced = written @ [SysSync tmp] in
      if \<not> so_close os then save_abort os tmp synced SaveClose
      else let closed = synced @ [SysClose tmp] in
      if \<not> so_rename os then save_abort os tmp closed SaveRename
      else (closed @ SysRename tmp path # (if so_openDir os \<and> so_syncDir os then [SysSyncDir] else []), None))))"

section \<open>What the calls do\<close>

subsection \<open>To the files that programs see\<close>

fun fs_call :: "fs \<Rightarrow> sys_call \<Rightarrow> fs" where
  "fs_call fs (SysCreate n) = fs(n \<mapsto> \<lparr>f_data = [], f_mode = mode_0600\<rparr>)"
| "fs_call fs (SysChmod n m) = fs(n := map_option (\<lambda>f. f\<lparr>f_mode := m\<rparr>) (fs n))"
| "fs_call fs (SysWrite n d) = fs(n := map_option (\<lambda>f. f\<lparr>f_data := f_data f @ d\<rparr>) (fs n))"
| "fs_call fs (SysRename a b) = (case fs a of None \<Rightarrow> fs | Some f \<Rightarrow> fs(a := None, b \<mapsto> f))"
| "fs_call fs (SysRemove n) = fs(n := None)"
| "fs_call fs (SysSync n) = fs"
| "fs_call fs (SysClose n) = fs"
| "fs_call fs SysSyncDir = fs"

definition fs_calls :: "fs \<Rightarrow> sys_call list \<Rightarrow> fs" where
  "fs_calls fs cs = foldl fs_call fs cs"

subsection \<open>To a disk behind a cache\<close>

text \<open>
  Names lead to numbered files. \<open>dk_dirty\<close> are the files with data that is not on the disk yet,
  \<open>dk_dirDisk\<close> is the directory on the disk and \<open>dk_dirOps\<close> are the changes of the directory that are
  not on the disk yet; the names that one call changes are one operation of the journal.
\<close>

type_synonym dir = "string \<rightharpoonup> nat"
type_synonym dir_op = "(string \<times> nat option) list"

record disk =
  dk_file :: "nat \<Rightarrow> disk_file"
  dk_next :: nat
  dk_dirty :: "nat set"
  dk_dir :: dir
  dk_dirDisk :: dir
  dk_dirOps :: "dir_op list"

definition dir_apply :: "dir \<Rightarrow> dir_op \<Rightarrow> dir" where
  "dir_apply = foldl (\<lambda>dir (name, file). dir(name := file))"

definition dir_change :: "disk \<Rightarrow> dir_op \<Rightarrow> disk" where
  "dir_change d change = d\<lparr>dk_dir := dir_apply (dk_dir d) change, dk_dirOps := dk_dirOps d @ [change]\<rparr>"

definition file_change :: "disk \<Rightarrow> string \<Rightarrow> (disk_file \<Rightarrow> disk_file) \<Rightarrow> disk" where
  "file_change d name f =
     (case dk_dir d name of
        None \<Rightarrow> d
      | Some i \<Rightarrow> d\<lparr>dk_file := (dk_file d)(i := f (dk_file d i)), dk_dirty := insert i (dk_dirty d)\<rparr>)"

fun disk_call :: "disk \<Rightarrow> sys_call \<Rightarrow> disk" where
  "disk_call d (SysCreate n) =
     dir_change (d\<lparr>dk_file := (dk_file d)(dk_next d := \<lparr>f_data = [], f_mode = mode_0600\<rparr>),
                   dk_dirty := insert (dk_next d) (dk_dirty d), dk_next := Suc (dk_next d)\<rparr>) [(n, Some (dk_next d))]"
| "disk_call d (SysChmod n m) = file_change d n (\<lambda>f. f\<lparr>f_mode := m\<rparr>)"
| "disk_call d (SysWrite n x) = file_change d n (\<lambda>f. f\<lparr>f_data := f_data f @ x\<rparr>)"
| "disk_call d (SysSync n) = (case dk_dir d n of None \<Rightarrow> d | Some i \<Rightarrow> d\<lparr>dk_dirty := dk_dirty d - {i}\<rparr>)"
| "disk_call d (SysClose n) = d"
| "disk_call d (SysRename a b) =
     (case dk_dir d a of None \<Rightarrow> d | Some i \<Rightarrow> dir_change d [(a, None), (b, Some i)])"
| "disk_call d (SysRemove n) = dir_change d [(n, None)]"
| "disk_call d SysSyncDir = d\<lparr>dk_dirDisk := dk_dir d, dk_dirOps := []\<rparr>"

definition disk_calls :: "disk \<Rightarrow> sys_call list \<Rightarrow> disk" where
  "disk_calls d cs = foldl disk_call d cs"

definition disk_view :: "disk \<Rightarrow> fs" where
  "disk_view d = (\<lambda>p. map_option (dk_file d) (dk_dir d p))"

text \<open>
  After a power failure some of the pending changes of the directory are on the disk, and a file
  with data that was not synced has any data at all. A crash of the process alone leaves what
  programs see.
\<close>

definition power_failure :: "disk \<Rightarrow> fs \<Rightarrow> bool" where
  "power_failure d fs =
     (\<exists>ops file. subseq ops (dk_dirOps d) \<and> (\<forall>i. i \<notin> dk_dirty d \<longrightarrow> file i = dk_file d i) \<and>
        (\<forall>i. f_mode (file i) = f_mode (dk_file d i)) \<and>
        fs = (\<lambda>p. map_option file (foldl dir_apply (dk_dirDisk d) ops p)))"

definition crash :: "disk \<Rightarrow> fs \<Rightarrow> bool" where
  "crash d fs = (fs = disk_view d \<or> power_failure d fs)"

text \<open>A disk on which everything is durable.\<close>

definition disk_settled :: "disk \<Rightarrow> bool" where
  "disk_settled d =
     (dk_dirty d = {} \<and> dk_dirOps d = [] \<and> dk_dirDisk d = dk_dir d \<and> (\<forall>i \<in> ran (dk_dir d). i < dk_next d))"

section \<open>Lemmas\<close>

lemma skip_ws_ws: "c \<in> {CHR 0x20, CHR 0x09, CHR 0x0A, CHR 0x0D} \<Longrightarrow> skip_ws (c # s) = skip_ws s"
  by (auto simp: skip_ws_def)

lemma json_value_ws:
  "c \<in> {CHR 0x20, CHR 0x09, CHR 0x0A, CHR 0x0D} \<Longrightarrow> json_value n (c # s) = json_value n s"
  by (cases n) (simp_all add: json_value.simps skip_ws_ws)

lemma json_members_ws:
  "c \<in> {CHR 0x20, CHR 0x09, CHR 0x0A, CHR 0x0D} \<Longrightarrow> json_members n (c # s) = json_members n s"
  by (cases n) (simp_all add: json_members.simps skip_ws_ws)

lemma indent_member_step:
  assumes "ascii k" "ascii v" "0 < n"
  shows "json_members (Suc n) (indent_member k v @ r) =
    (case skip_ws r of
       [] \<Rightarrow> None
     | c # cs \<Rightarrow> if c = CHR 0x2C then prepend [(k, JStr v)] (json_members n cs)
                 else if c = CHR 0x7D then Some ([(k, JStr v)], cs) else None)"
proof -
  obtain m where n: "n = Suc m" using assms(3) by (cases n) auto
  have "json_members (Suc n) (indent_member k v @ r) = json_members (Suc n) (json_quote k @ '': '' @ json_quote v @ r)"
    by (simp add: indent_member_def json_members_ws)
  also have "\<dots> = (case skip_ws r of
       [] \<Rightarrow> None
     | c # cs \<Rightarrow> if c = CHR 0x2C then prepend [(k, JStr v)] (json_members n cs)
                 else if c = CHR 0x7D then Some ([(k, JStr v)], cs) else None)"
  proof -
    have "skip_ws (json_quote k @ u) = CHR 0x22 # json_escape k @ CHR 0x22 # u" for u
      by (simp add: json_quote_def skip_ws_def)
    moreover have "json_value n (CHR '' '' # json_quote v @ r) = Some (JStr v, r)"
      using assms(2) by (simp add: n json_value_ws json_value_quote)
    ultimately show ?thesis
      using assms(1) by (simp add: json_members.simps json_chars_escape skip_ws_def)
  qed
  finally show ?thesis .
qed

text \<open>The text of a session is read back as its three members.\<close>

definition ascii_session :: "pairedSession \<Rightarrow> bool" where
  "ascii_session s = (ascii (ps_SessionToken s) \<and> ascii (ps_SessionSecret s) \<and> ascii (ps_SavedAt s))"

lemma session_keys_ascii: "ascii ''session_token''" "ascii ''session_secret''" "ascii ''saved_at''"
  by (simp_all add: ascii_def)

lemma session_text_read:
  assumes "ascii_session s"
  shows "json_unmarshal (session_text s) = Some (JObj [(''session_token'', JStr (ps_SessionToken s)),
    (''session_secret'', JStr (ps_SessionSecret s)), (''saved_at'', JStr (ps_SavedAt s))])"
proof -
  let ?n = "2 * length (session_text s)"
  have members: "json_members (Suc (Suc (Suc (Suc ?n)))) (tl (session_text s)) =
      Some ([(''session_token'', JStr (ps_SessionToken s)), (''session_secret'', JStr (ps_SessionSecret s)),
        (''saved_at'', JStr (ps_SavedAt s))], [])"
    using assms
    by (simp add: session_text_def indent_member_step session_keys_ascii ascii_session_def skip_ws_def prepend_def)
  have "skip_ws (session_text s) = session_text s" "hd (session_text s) = CHR 0x7B" "session_text s \<noteq> []"
    by (simp_all add: session_text_def skip_ws_def)
  moreover have "hd (skip_ws (tl (session_text s))) = CHR 0x22"
    by (simp add: session_text_def indent_member_def skip_ws_def json_quote_def)
  ultimately have "json_value (Suc (Suc (Suc (Suc (Suc ?n))))) (session_text s) =
      Some (JObj [(''session_token'', JStr (ps_SessionToken s)), (''session_secret'', JStr (ps_SessionSecret s)),
        (''saved_at'', JStr (ps_SavedAt s))], [])"
    using members by (cases "session_text s") (simp_all add: json_value.simps(2))
  then show ?thesis by (rule json_unmarshalI) simp
qed

lemma session_keys_fold:
  "equalFold ''session_token'' ''session_token''" "\<not> equalFold ''session_token'' ''session_secret''"
  "\<not> equalFold ''session_token'' ''saved_at''" "\<not> equalFold ''session_secret'' ''session_token''"
  "equalFold ''session_secret'' ''session_secret''" "\<not> equalFold ''session_secret'' ''saved_at''"
  "\<not> equalFold ''saved_at'' ''session_token''" "\<not> equalFold ''saved_at'' ''session_secret''" "equalFold ''saved_at'' ''saved_at''"
  by (simp_all add: equalFold_ascii to_lower_char_def is_upper_def char_in_def)

lemma load_saved:
  assumes "ascii_session s" "timeOk (ps_SavedAt s)" "ps_SessionToken s \<noteq> []" "ps_SessionSecret s \<noteq> []"
    "fs path = Some \<lparr>f_data = session_text s, f_mode = m\<rparr>"
  shows "loadSession timeOk fs path = Inr s"
  using assms
  by (simp add: loadSession_def session_text_read dec_pairedSession_def dec_field_def session_keys_fold)

text \<open>All the file systems of a save agree with the first one outside two names.\<close>

definition saved_file :: "pairedSession \<Rightarrow> disk_file" where
  "saved_file s = \<lparr>f_data = session_text s, f_mode = mode_0600\<rparr>"

definition save_state :: "string \<Rightarrow> string \<Rightarrow> pairedSession \<Rightarrow> fs \<Rightarrow> fs \<Rightarrow> bool" where
  "save_state path tmp s fs fs' =
     ((\<forall>p. p \<noteq> path \<and> p \<noteq> tmp \<longrightarrow> fs' p = fs p) \<and>
      (fs' path = fs path \<or> fs' path = Some (saved_file s)) \<and>
      (\<forall>f. fs' tmp = Some f \<longrightarrow> f_mode f = mode_0600))"

text \<open>The calls before the rename concern the temporary file only.\<close>

definition tmp_call :: "string \<Rightarrow> sys_call \<Rightarrow> bool" where
  "tmp_call tmp c =
     (c \<in> {SysChmod tmp mode_0600, SysSync tmp, SysClose tmp, SysRemove tmp} \<or> (\<exists>x. c = SysWrite tmp x))"

definition staged :: "string \<Rightarrow> pairedSession \<Rightarrow> sys_call list" where
  "staged tmp s = [SysChmod tmp mode_0600] @ save_write tmp (session_text s) @ [SysSync tmp, SysClose tmp]"

lemma save_write_tmp: "list_all (tmp_call tmp) (save_write tmp d)"
  by (auto simp: save_write_def tmp_call_def list_all_iff)

lemma staged_tmp: "list_all (tmp_call tmp) (staged tmp s)"
  using save_write_tmp [of tmp "session_text s"] by (simp add: staged_def tmp_call_def)

lemma saveSession_cases:
  assumes "so_createTemp os = Some tmp"
  obtains (early) e where "saveSession os path s = ([], Some e)"
  | (late) cs e where "saveSession os path s = save_abort os tmp (SysCreate tmp # cs) e" "list_all (tmp_call tmp) cs"
  | (ok) "saveSession os path s = (SysCreate tmp # staged tmp s @
        SysRename tmp path # (if so_openDir os \<and> so_syncDir os then [SysSyncDir] else []), None)"
proof -
  have "list_all (tmp_call tmp) (save_write tmp d)" for d by (rule save_write_tmp)
  moreover have "tmp_call tmp (SysChmod tmp mode_0600)" "tmp_call tmp (SysSync tmp)" "tmp_call tmp (SysClose tmp)"
    by (simp_all add: tmp_call_def)
  ultimately have "(\<exists>e. saveSession os path s = ([], Some e)) \<or>
      (\<exists>cs e. saveSession os path s = save_abort os tmp (SysCreate tmp # cs) e \<and> list_all (tmp_call tmp) cs) \<or>
      saveSession os path s = (SysCreate tmp # staged tmp s @
        SysRename tmp path # (if so_openDir os \<and> so_syncDir os then [SysSyncDir] else []), None)"
    by (auto simp: saveSession_def Let_def assms staged_def split: option.split intro!: exI)
  then show thesis using that by blast
qed

section \<open>The files that programs see: lemmas\<close>

lemma fs_calls_simps [simp]: "fs_calls fs [] = fs" "fs_calls fs (c # cs) = fs_calls (fs_call fs c) cs"
  "fs_calls fs (as @ bs) = fs_calls (fs_calls fs as) bs"
  by (simp_all add: fs_calls_def)

lemma fs_calls_write:
  "fs_calls (fs(tmp \<mapsto> f)) (save_write tmp x) = fs(tmp \<mapsto> f\<lparr>f_data := f_data f @ x\<rparr>)"
  by (induction x arbitrary: f) (simp_all add: save_write_def)

lemma fs_calls_staged: "fs_calls (fs_call fs (SysCreate tmp)) (staged tmp s) = fs(tmp \<mapsto> saved_file s)"
  by (simp add: staged_def fs_calls_write saved_file_def)

lemma fs_tmp_call: "tmp_call tmp c \<Longrightarrow> p \<noteq> tmp \<Longrightarrow> fs_call fs c p = fs p"
  by (auto simp: tmp_call_def)

lemma fs_tmp_calls: "list_all (tmp_call tmp) cs \<Longrightarrow> p \<noteq> tmp \<Longrightarrow> fs_calls fs cs p = fs p"
  by (induction cs arbitrary: fs) (auto simp: fs_tmp_call)

lemma fs_save_abort:
  assumes "save_abort os tmp (SysCreate tmp # cs) e = (calls, r)" "list_all (tmp_call tmp) cs" "fs tmp = None"
  shows "r = Some e \<and> (\<forall>p. p \<noteq> tmp \<longrightarrow> fs_calls fs calls p = fs p) \<and> (so_remove os \<longrightarrow> fs_calls fs calls = fs)"
proof -
  have "fs_calls (fs_call fs (SysCreate tmp)) cs p = fs p" if "p \<noteq> tmp" for p
    using fs_tmp_calls [OF assms(2) that] that by simp
  with assms(1,3) show ?thesis by (auto simp: save_abort_def fun_eq_iff)
qed

lemma fs_saved:
  assumes "so_createTemp os = Some tmp" "fs tmp = None" "tmp \<noteq> path" "snd (saveSession os path s) = None"
  shows "fs_calls fs (fst (saveSession os path s)) = fs(path \<mapsto> saved_file s)"
  using assms(1)
proof (cases rule: saveSession_cases [of os tmp path s])
  case ok
  have "(fs(tmp \<mapsto> saved_file s))(tmp := None) = fs" using assms(2) by auto
  with ok show ?thesis by (simp add: fs_calls_staged del: fs_call.simps(1))
qed (use assms(4) in \<open>auto simp: save_abort_def\<close>)

section \<open>The disk: lemmas\<close>

lemma disk_calls_simps [simp]: "disk_calls d [] = d" "disk_calls d (c # cs) = disk_calls (disk_call d c) cs"
  "disk_calls d (as @ bs) = disk_calls (disk_calls d as) bs"
  by (simp_all add: disk_calls_def)

text \<open>
  Until the rename only the new file is touched: every file system that a crash leaves is the old
  one but for the temporary name.
\<close>

definition staging :: "disk \<Rightarrow> string \<Rightarrow> disk \<Rightarrow> bool" where
  "staging d0 tmp d =
     ((\<forall>i. i \<noteq> dk_next d0 \<longrightarrow> dk_file d i = dk_file d0 i) \<and> f_mode (dk_file d (dk_next d0)) = mode_0600 \<and>
      dk_dirty d \<subseteq> {dk_next d0} \<and> dk_dirDisk d = dk_dir d0 \<and>
      (\<exists>x \<in> {None, Some (dk_next d0)}. dk_dir d = (dk_dir d0)(tmp := x)) \<and>
      set (dk_dirOps d) \<subseteq> {[(tmp, Some (dk_next d0))], [(tmp, None)]})"

lemmas disk_defs = dir_change_def dir_apply_def file_change_def disk_settled_def

lemma settled_fresh: "disk_settled d0 \<Longrightarrow> dk_dir d0 p \<noteq> Some (dk_next d0)"
  by (fastforce simp: disk_settled_def ran_def)

lemma synced_crash:
  assumes "dk_dirty d = {}" "crash d fs"
  obtains (view) "fs = disk_view d"
  | (ops) ops where "ops \<in> set (subseqs (dk_dirOps d))"
      "fs = (\<lambda>p. map_option (dk_file d) (foldl dir_apply (dk_dirDisk d) ops p))"
proof (cases "fs = disk_view d")
  case False
  with assms obtain ops fl where "subseq ops (dk_dirOps d)" "\<forall>i. fl i = dk_file d i"
    "fs = (\<lambda>p. map_option fl (foldl dir_apply (dk_dirDisk d) ops p))"
    by (auto simp: crash_def power_failure_def)
  moreover from this(2) have "fl = dk_file d" by (intro ext) simp
  ultimately show thesis using ops by simp
qed (rule view)

lemma settled_crash:
  assumes "disk_settled d" "crash d fs"
  shows "fs = disk_view d"
proof -
  have "dk_dirty d = {}" using assms(1) by (simp add: disk_settled_def)
  from this assms(2) show ?thesis
    by (rule synced_crash) (use assms(1) in \<open>auto simp: disk_settled_def disk_view_def simp del: in_set_subseqs\<close>)
qed

lemma staging_create: "disk_settled d0 \<Longrightarrow> staging d0 tmp (disk_call d0 (SysCreate tmp))"
  by (auto simp: staging_def disk_defs)

lemma staging_step:
  assumes "staging d0 tmp d" "tmp_call tmp c"
  shows "staging d0 tmp (disk_call d c)"
proof -
  from assms(1) obtain x where x: "x = None \<or> x = Some (dk_next d0)" "dk_dir d = (dk_dir d0)(tmp := x)"
    by (auto simp: staging_def)
  consider "c = SysChmod tmp mode_0600" | "c = SysSync tmp" | "c = SysClose tmp" | "c = SysRemove tmp" | y where "c = SysWrite tmp y"
    using assms(2) by (auto simp: tmp_call_def)
  then show ?thesis
    by cases (use assms(1) x in \<open>auto simp: staging_def disk_defs\<close>)
qed

lemma staging_steps: "staging d0 tmp d \<Longrightarrow> list_all (tmp_call tmp) cs \<Longrightarrow> staging d0 tmp (disk_calls d cs)"
  by (induction cs arbitrary: d) (auto simp: staging_step)

lemma set_subseq_subset: "subseq xs ys \<Longrightarrow> set xs \<subseteq> set ys"
  by (induction rule: list_emb.induct) auto

lemma dir_apply_simps: "dir_apply dir [] = dir" "dir_apply dir ((n, x) # ops) = dir_apply (dir(n := x)) ops"
  by (simp_all add: dir_apply_def)

lemma staged_ops:
  "set ops \<subseteq> {[(tmp, Some i)], [(tmp, None)]} \<Longrightarrow> \<exists>x \<in> {dir tmp, None, Some i}. foldl dir_apply dir ops = dir(tmp := x)"
proof (induction ops arbitrary: dir)
  case (Cons a ops)
  from Cons.prems consider "a = [(tmp, Some i)]" | "a = [(tmp, None)]" by auto
  then show ?case
  proof cases
    case 1
    with Cons.IH [of "dir(tmp \<mapsto> i)"] Cons.prems show ?thesis by (simp add: dir_apply_simps fun_upd_def cong: if_cong) blast
  next
    case 2
    with Cons.IH [of "dir(tmp := None)"] Cons.prems show ?thesis by (simp add: dir_apply_simps fun_upd_def cong: if_cong)
  qed
qed simp

lemma staging_crash:
  assumes "disk_settled d0" "dk_dir d0 tmp = None" "staging d0 tmp d" "crash d fs"
  shows "(\<forall>p. p \<noteq> tmp \<longrightarrow> fs p = disk_view d0 p) \<and> (\<forall>f. fs tmp = Some f \<longrightarrow> f_mode f = mode_0600)"
proof -
  let ?n = "dk_next d0"
  obtain x fl where x: "x = None \<or> x = Some ?n" and fs: "fs = (\<lambda>p. map_option fl (((dk_dir d0)(tmp := x)) p))"
    and fl: "\<forall>i. i \<noteq> ?n \<longrightarrow> fl i = dk_file d0 i" "f_mode (fl ?n) = mode_0600"
  proof (cases "fs = disk_view d")
    case True
    from assms(3) obtain x where "x = None \<or> x = Some ?n" "dk_dir d = (dk_dir d0)(tmp := x)"
      by (auto simp: staging_def)
    with True assms(3) that [of x "dk_file d"] show thesis by (simp add: staging_def disk_view_def)
  next
    case False
    with assms(4) obtain ops fl where pf: "subseq ops (dk_dirOps d)" "\<forall>i. i \<notin> dk_dirty d \<longrightarrow> fl i = dk_file d i"
      "\<forall>i. f_mode (fl i) = f_mode (dk_file d i)" "fs = (\<lambda>p. map_option fl (foldl dir_apply (dk_dirDisk d) ops p))"
      by (auto simp: crash_def power_failure_def)
    have "set ops \<subseteq> {[(tmp, Some ?n)], [(tmp, None)]}"
      using set_mp [OF set_subseq_subset [OF pf(1)]] assms(3) by (auto simp: staging_def)
    from staged_ops [OF this, of "dk_dir d0"] obtain x where "x = None \<or> x = Some ?n"
      "foldl dir_apply (dk_dir d0) ops = (dk_dir d0)(tmp := x)" using assms(2) by auto
    moreover have "\<forall>i. i \<noteq> ?n \<longrightarrow> fl i = dk_file d0 i" using pf(2) assms(3) by (auto simp: staging_def)
    ultimately show thesis using pf(3,4) assms(3) by (intro that [of x fl]) (simp_all add: staging_def)
  qed
  have "fs p = disk_view d0 p" if "p \<noteq> tmp" for p
    using settled_fresh [OF assms(1), of p] fs fl(1) that by (cases "dk_dir d0 p") (auto simp: disk_view_def)
  with x fs fl(2) show ?thesis by auto
qed

text \<open>The new file is complete and durable before it gets its name.\<close>

lemma disk_write:
  assumes "dk_dir d tmp = Some i" "i \<in> dk_dirty d"
  shows "disk_calls d (save_write tmp x) = d\<lparr>dk_file := (dk_file d)(i := (dk_file d i)\<lparr>f_data := f_data (dk_file d i) @ x\<rparr>)\<rparr>"
  using assms
proof (induction x arbitrary: d)
  case (Cons c x)
  let ?d = "d\<lparr>dk_file := (dk_file d)(i := (dk_file d i)\<lparr>f_data := f_data (dk_file d i) @ [c]\<rparr>)\<rparr>"
  have "disk_call d (SysWrite tmp [c]) = ?d"
    using Cons.prems by (simp add: file_change_def insert_absorb)
  moreover have "disk_calls ?d (save_write tmp x) =
      ?d\<lparr>dk_file := (dk_file ?d)(i := (dk_file ?d i)\<lparr>f_data := f_data (dk_file ?d i) @ x\<rparr>)\<rparr>"
    using Cons.prems by (intro Cons.IH) simp_all
  moreover have "disk_calls d (save_write tmp (c # x)) = disk_calls (disk_call d (SysWrite tmp [c])) (save_write tmp x)"
    by (simp add: save_write_def)
  ultimately show ?case by (simp add: fun_upd_def cong: if_cong)
qed (simp add: save_write_def)

definition committed :: "disk \<Rightarrow> string \<Rightarrow> string \<Rightarrow> pairedSession \<Rightarrow> disk \<Rightarrow> bool" where
  "committed d0 tmp path s d =
     (dk_file d = (dk_file d0)(dk_next d0 := saved_file s) \<and> dk_dirty d = {} \<and> dk_dir d = (dk_dir d0)(path \<mapsto> dk_next d0) \<and>
      (dk_dirDisk d = dk_dir d0 \<and> dk_dirOps d = [[(tmp, Some (dk_next d0))], [(tmp, None), (path, Some (dk_next d0))]] \<or>
       dk_dirDisk d = dk_dir d \<and> dk_dirOps d = []))"

lemma committed_rename:
  assumes "disk_settled d0" "dk_dir d0 tmp = None" "tmp \<noteq> path"
  shows "committed d0 tmp path s (disk_calls d0 (SysCreate tmp # staged tmp s @ [SysRename tmp path]))"
proof -
  let ?n = "dk_next d0"
  have dir: "(dk_dir d0)(tmp := None, path \<mapsto> ?n) = (dk_dir d0)(path \<mapsto> ?n)" using assms(2) by auto
  from assms show ?thesis
    by (simp add: staged_def disk_write disk_defs committed_def saved_file_def dir fun_upd_twist)
qed

lemma committed_sync: "committed d0 tmp path s d \<Longrightarrow> committed d0 tmp path s (disk_call d SysSyncDir)"
  by (simp add: committed_def)

lemma committed_view:
  assumes "disk_settled d0" "committed d0 tmp path s d"
  shows "disk_view d = (disk_view d0)(path \<mapsto> saved_file s)"
proof -
  have "disk_view d p = ((disk_view d0)(path \<mapsto> saved_file s)) p" for p
    using settled_fresh [OF assms(1), of p] assms(2) by (cases "dk_dir d0 p") (auto simp: committed_def disk_view_def)
  then show ?thesis by (rule ext)
qed

text \<open>A power failure after the rename keeps the new name or loses it; the data behind it is complete.\<close>

lemma committed_crash:
  assumes "disk_settled d0" "dk_dir d0 tmp = None" "tmp \<noteq> path" "committed d0 tmp path s d" "crash d fs"
  shows "save_state path tmp s (disk_view d0) fs"
proof -
  let ?n = "dk_next d0"
  let ?fl = "(dk_file d0)(?n := saved_file s)"
  obtain dir where dir: "fs = (\<lambda>p. map_option ?fl (dir p))"
    "dir \<in> {dk_dir d0, (dk_dir d0)(tmp \<mapsto> ?n), (dk_dir d0)(path \<mapsto> ?n)}"
  proof -
    have "dk_dirty d = {}" using assms(4) by (simp add: committed_def)
    from this assms(5) show thesis
    proof (cases rule: synced_crash)
      case view
      with assms(4) that [of "(dk_dir d0)(path \<mapsto> ?n)"] show thesis by (simp add: committed_def disk_view_def)
    next
      case (ops ops)
      have "(dk_dir d0)(tmp := None) = dk_dir d0" using assms(2) by auto
      then have "foldl dir_apply (dk_dirDisk d) ops \<in> {dk_dir d0, (dk_dir d0)(tmp \<mapsto> ?n), (dk_dir d0)(path \<mapsto> ?n)}"
        using assms(4) ops(1)
        by (auto simp: committed_def Let_def dir_apply_simps fun_upd_def simp del: in_set_subseqs cong: if_cong)
      with ops(2) assms(4) that show thesis by (simp add: committed_def)
    qed
  qed
  have "map_option ?fl (dk_dir d0 p) = disk_view d0 p" for p
    using settled_fresh [OF assms(1), of p] by (cases "dk_dir d0 p") (auto simp: disk_view_def)
  with dir assms(2,3) show ?thesis by (auto simp: save_state_def saved_file_def)
qed

lemma staging_prefix:
  assumes "disk_settled d0" "dk_dir d0 tmp = None" "tmp \<noteq> path" "list_all (tmp_call tmp) cs"
    "crash (disk_calls d0 (take n (SysCreate tmp # cs))) fs"
  shows "save_state path tmp s (disk_view d0) fs \<and> fs path = disk_view d0 path"
proof (cases n)
  case 0
  with assms(1,2,5) settled_crash [of d0 fs] show ?thesis by (simp add: save_state_def disk_view_def)
next
  case (Suc m)
  have "list_all (tmp_call tmp) (take m cs)" using assms(4) by (auto simp: list_all_iff dest: in_set_takeD)
  from staging_steps [OF staging_create [OF assms(1)] this] Suc assms(5) staging_crash [OF assms(1,2)] assms(3)
  show ?thesis by (auto simp: save_state_def simp del: disk_call.simps)
qed

lemma staging_removed:
  assumes "disk_settled d0" "dk_dir d0 tmp = None" "staging d0 tmp d"
  shows "disk_view (disk_call d (SysRemove tmp)) = disk_view d0"
proof -
  have "tmp_call tmp (SysRemove tmp)" by (simp add: tmp_call_def)
  from staging_crash [OF assms(1,2) staging_step [OF assms(3) this]]
  have "disk_view (disk_call d (SysRemove tmp)) p = disk_view d0 p" if "p \<noteq> tmp" for p
    using that by (simp add: crash_def)
  moreover have "disk_view (disk_call d (SysRemove tmp)) tmp = disk_view d0 tmp"
    using assms(2) by (simp add: disk_view_def disk_defs)
  ultimately show ?thesis by (metis ext)
qed

lemma save_committed:
  fixes dirSync :: bool and s :: pairedSession
  assumes "disk_settled d0" "dk_dir d0 tmp = None" "tmp \<noteq> path"
  defines "calls \<equiv> SysCreate tmp # staged tmp s @ SysRename tmp path # (if dirSync then [SysSyncDir] else [])"
  shows "committed d0 tmp path s (disk_calls d0 calls)"
    "crash (disk_calls d0 (take n calls)) fs \<Longrightarrow> save_state path tmp s (disk_view d0) fs"
    "dirSync \<Longrightarrow> crash (disk_calls d0 calls) fs \<Longrightarrow> fs = (disk_view d0)(path \<mapsto> saved_file s)"
proof -
  let ?cs = "SysCreate tmp # staged tmp s"
  have renamed: "committed d0 tmp path s (disk_calls d0 (?cs @ [SysRename tmp path]))"
    using committed_rename [OF assms(1-3)] by simp
  show dn: "committed d0 tmp path s (disk_calls d0 calls)"
    using renamed committed_sync [OF renamed] by (simp add: calls_def del: disk_call.simps)
  show "save_state path tmp s (disk_view d0) fs" if crash: "crash (disk_calls d0 (take n calls)) fs"
  proof -
    consider "n \<le> length ?cs" | "n = Suc (length ?cs)" | "Suc (length ?cs) < n" by linarith
    then show ?thesis
    proof cases
      case 1
      then have "take n calls = take n ?cs" by (simp add: calls_def take_Cons split: nat.split)
      with crash staging_prefix [OF assms(1-3) staged_tmp] show ?thesis by metis
    next
      case 2
      then have "take n calls = ?cs @ [SysRename tmp path]" by (simp add: calls_def)
      with crash committed_crash [OF assms(1-3) renamed] show ?thesis by metis
    next
      case 3
      then have "take n calls = calls" by (simp add: calls_def)
      with crash committed_crash [OF assms(1-3) dn] show ?thesis by metis
    qed
  qed
  show "fs = (disk_view d0)(path \<mapsto> saved_file s)" if dirSync "crash (disk_calls d0 calls) fs"
  proof -
    let ?d = "disk_calls d0 calls"
    have "dk_dirty ?d = {}" using dn by (simp add: committed_def)
    moreover have "dk_dirOps ?d = []" "dk_dirDisk ?d = dk_dir ?d" using that(1) by (simp_all add: calls_def)
    ultimately have "fs = disk_view ?d"
      using that(2) by (auto elim!: synced_crash simp: disk_view_def simp del: in_set_subseqs)
    with committed_view [OF assms(1) dn] show ?thesis by simp
  qed
qed

section \<open>Properties of the session file\<close>

text \<open>
  C4. Saving a session is atomic and durable. Whatever number of system calls were made when the
  process or the machine stops, and whichever of the changes that were not synced yet then reach the
  disk, the session file is the old one or the complete new one, never a part of it, no other file
  has changed, and a temporary file that is left is readable by its owner only. After an error the
  session file is the old one, also after a later power failure, and the temporary file is gone when
  it could be removed. Without an error the new file is in place and the temporary one is gone, and
  when the directory could be synced too, no power failure can bring the old one back.
\<close>

theorem saveSession_atomic:
  assumes "disk_settled d" and "so_createTemp os = Some tmp" and "dk_dir d tmp = None" and "tmp \<noteq> path"
  shows "case saveSession os path s of
      (calls, r) \<Rightarrow>
        (\<forall>n fs'. crash (disk_calls d (take n calls)) fs' \<longrightarrow> save_state path tmp s (disk_view d) fs') \<and>
        (case r of
           Some e \<Rightarrow>
             (\<forall>fs'. crash (disk_calls d calls) fs' \<longrightarrow> fs' path = disk_view d path) \<and>
             (so_remove os \<longrightarrow> disk_view (disk_calls d calls) = disk_view d)
         | None \<Rightarrow>
             disk_view (disk_calls d calls) = (disk_view d)(path \<mapsto> saved_file s) \<and>
             (so_openDir os \<and> so_syncDir os \<longrightarrow>
                (\<forall>fs'. crash (disk_calls d calls) fs' \<longrightarrow> fs' = (disk_view d)(path \<mapsto> saved_file s))))"
  using assms(2)
proof (cases rule: saveSession_cases [of os tmp path s])
  case (early e)
  with assms(3) show ?thesis by (auto simp: save_state_def disk_view_def dest!: settled_crash [OF assms(1)])
next
  case (late cs e)
  let ?last = "SysClose tmp # (if so_remove os then [SysRemove tmp] else [])"
  have tmp: "list_all (tmp_call tmp) (cs @ ?last)" "list_all (tmp_call tmp) (cs @ [SysClose tmp])"
    using late(2) by (simp_all add: tmp_call_def)
  note prefix = staging_prefix [OF assms(1,3,4) tmp(1)]
  have calls: "saveSession os path s = (SysCreate tmp # cs @ ?last, Some e)"
    using late(1) by (simp add: save_abort_def)
  have gone: "disk_view (disk_calls d (SysCreate tmp # cs @ ?last)) = disk_view d" if "so_remove os"
    using staging_removed [OF assms(1,3) staging_steps [OF staging_create [OF assms(1)] tmp(2)]] that
    by (simp del: disk_call.simps)
  have old: "fs' path = disk_view d path" if "crash (disk_calls d (SysCreate tmp # cs @ ?last)) fs'" for fs'
    using prefix [of "length (SysCreate tmp # cs @ ?last)" fs'] that by (simp only: take_all order_refl)
  show ?thesis
    unfolding calls prod.case option.case using prefix gone old by (intro conjI allI impI) simp_all
next
  case ok
  note sc = save_committed [OF assms(1,3,4), where s = s and dirSync = "so_openDir os \<and> so_syncDir os"]
  show ?thesis
    unfolding ok prod.case option.case
  proof (intro conjI allI impI)
    show "disk_view (disk_calls d (SysCreate tmp # staged tmp s @ SysRename tmp path #
        (if so_openDir os \<and> so_syncDir os then [SysSyncDir] else []))) = (disk_view d)(path \<mapsto> saved_file s)"
      by (rule committed_view [OF assms(1) sc(1)])
  qed (erule sc(2), erule sc(3))
qed

text \<open>
  A session that was saved without an error is the one that is loaded.
\<close>

theorem saveSession_load:
  assumes "snd (saveSession os path s) = None" and "fs tmp = None" and "tmp \<noteq> path"
    and "so_createTemp os = Some tmp" and "ascii_session s" and "timeOk (ps_SavedAt s)"
    and "ps_SessionToken s \<noteq> []" and "ps_SessionSecret s \<noteq> []"
  shows "loadSession timeOk (fs_calls fs (fst (saveSession os path s))) path = Inr s"
  using fs_saved [of os tmp fs path s] assms(1-4) assms(5-8) by (intro load_saved [of s timeOk]) (simp_all add: saved_file_def)

definition ex_session :: pairedSession where
  "ex_session = \<lparr>ps_SessionToken = ''tok'', ps_SessionSecret = ''sec'', ps_SavedAt = ''2026-01-02T03:04:05Z''\<rparr>"

definition ex_save_os :: save_os where
  "ex_save_os = \<lparr>so_marshal = True, so_mkdirAll = True, so_createTemp = Some ''s.tmp-1'', so_chmod = True, so_write = None,
     so_sync = True, so_close = True, so_rename = True, so_remove = True, so_openDir = True, so_syncDir = True\<rparr>"

definition ex_settled :: disk where
  "ex_settled = \<lparr>dk_file = (\<lambda>_. \<lparr>f_data = ''old'', f_mode = mode_0600\<rparr>), dk_next = 1, dk_dirty = {},
     dk_dir = [''s'' \<mapsto> 0], dk_dirDisk = [''s'' \<mapsto> 0], dk_dirOps = []\<rparr>"

theorem saveSession_atomic_witness:
  "disk_view (disk_calls ex_settled (fst (saveSession ex_save_os ''s'' ex_session))) ''s'' = Some (saved_file ex_session)"
proof -
  have "disk_settled ex_settled" by (simp add: ex_settled_def disk_settled_def)
  moreover have "so_createTemp ex_save_os = Some ''s.tmp-1''" "dk_dir ex_settled ''s.tmp-1'' = None"
    by (simp_all add: ex_save_os_def ex_settled_def)
  moreover have "snd (saveSession ex_save_os ''s'' ex_session) = None"
    by (simp add: saveSession_def ex_save_os_def Let_def)
  ultimately show ?thesis
    using saveSession_atomic [of ex_settled ex_save_os "''s.tmp-1''" "''s''" ex_session]
    by (cases "saveSession ex_save_os ''s'' ex_session") auto
qed

theorem saveSession_load_witness:
  "loadSession (\<lambda>_. True) (fs_calls Map.empty (fst (saveSession ex_save_os ''s'' ex_session))) ''s'' = Inr ex_session"
proof -
  have "snd (saveSession ex_save_os ''s'' ex_session) = None"
    by (simp add: saveSession_def ex_save_os_def Let_def)
  from saveSession_load [OF this, of Map.empty "''s.tmp-1''" "\<lambda>_. True"] show ?thesis
    by (simp add: ex_save_os_def ex_session_def ascii_session_def ascii_def)
qed

end
