(* ===== verification/Client.thy ===== *)
theory Client
  imports Negotiation Flags Session
begin

text \<open>
  The client (\<^verbatim>\<open>main.go\<close>): pairing or reuse of a session, the requests of a connection attempt,
  the attempt from the keys to the end of its tunnel, and the loop that renegotiates.

  What an attempt meets (random bytes, sockets, interfaces, datagrams, events of the tunnel) is a
  record; the HTTP answers and the context are those of the API's world. Progress messages of the
  log are left out. \<open>None\<close> as the result of an attempt means that it has not returned.
\<close>

section \<open>Requests\<close>

definition json_object :: "(string \<times> string) list \<Rightarrow> string" where
  "json_object ms = CHR 0x7B # sep_by '','' (map (\<lambda>(k, v). json_member k v) ms) @ [CHR 0x7D]"

definition json_array :: "string list \<Rightarrow> string" where
  "json_array vs = CHR ''['' # sep_by '','' vs @ '']''"

text \<open>The bodies of the requests; a Go map is written with its keys in order. A server without
  URLs is written as the nil slice it is decoded to when the member is missing.\<close>

definition access_body :: "string \<Rightarrow> string \<Rightarrow> string \<Rightarrow> string \<Rightarrow> string" where
  "access_body token invite clientID name =
     apiEnvelope token (json_object
       [(''client_id'', json_quote clientID), (''client_name'', json_quote name),
        (''request_type'', json_quote ''REQUEST_ACCESS''), (''secret'', json_quote invite)])"

definition ice_body :: "string \<Rightarrow> string \<Rightarrow> string" where
  "ice_body token secret =
     apiEnvelope token (json_object [(''request_type'', json_quote ''GET_ICE_CONFIGURATION''), (''secret'', json_quote secret)])"

definition candidate_json :: "candidate \<Rightarrow> string" where
  "candidate_json c = json_object [(''type'', json_quote (cand_Type c)), (''addr'', json_quote (cand_Addr c))]"

definition iceServer_json :: "iceServer \<Rightarrow> string" where
  "iceServer_json s =
     json_object [(''urls'', if ice_URLs s = [] then ''null'' else json_array (map json_quote (ice_URLs s))),
                  (''username'', json_quote (ice_Username s)), (''credential'', json_quote (ice_Credential s))]"

definition peerDesc_json :: "candidate list \<Rightarrow> iceServer list \<Rightarrow> string" where
  "peerDesc_json local ice =
     json_object ([(''candidates'', if local = [] then ''null'' else json_array (map candidate_json local))] @
                  (if ice = [] then [] else [(''ice_config'', json_array (map iceServer_json ice))]) @
                  [(''is_master'', ''false'')])"

record sessionResult =
  sr_Token :: string
  sr_Secret :: string
  sr_DeviceToken :: string
  sr_Access :: "apiResponse option"

definition connect_body :: "sessionResult \<Rightarrow> string \<Rightarrow> string \<Rightarrow> string \<Rightarrow> candidate list \<Rightarrow> iceServer list \<Rightarrow> string" where
  "connect_body session name pub stunSecret local ice =
     apiEnvelope (sr_Token session) (json_object
       [(''client_info'', json_object
           [(''peer_desc'', peerDesc_json local ice), (''stun_session_secret'', json_quote stunSecret), (''wg_pub_key'', json_quote pub)]),
        (''client_name'', json_quote name), (''request_type'', json_quote ''CONNECT''), (''secret'', json_quote (sr_Secret session))])"

datatype client_error =
    ClientApi api_error
  | ClientLoad load_error
  | ClientPanic
  | AccessTimeout
  | IceTimeout
  | ConnectTimeout
  | ClientCanceled
  | ClientKey
  | ClientSockets
  | NoLocalCandidate networkFamily
  | TurnNoStun
  | TurnNoTurn
  | TurnNoReflex
  | TurnNoRelay
  | NoEndpoint
  | ClientTunnel tunnel_error
  | ClientExit tunnel_exit

text \<open>\<^verbatim>\<open>errors.Is(err, context.Canceled)\<close>\<close>

fun client_canceled :: "client_error \<Rightarrow> bool" where
  "client_canceled (ClientApi e) = isCanceled e"
| "client_canceled ClientCanceled = True"
| "client_canceled (ClientExit x) = (x = TunnelCancelled)"
| "client_canceled _ = False"

section \<open>The session\<close>

record session_env =
  se_kdf :: "string \<Rightarrow> byte list option"
  se_uuid :: "byte list"
  se_timeOk :: "string \<Rightarrow> bool"
  se_readErr :: "string option"
  se_now :: string
  se_save :: save_os

definition establishSession ::
  "session_env \<Rightarrow> cliFlags \<Rightarrow> api_world \<Rightarrow> fs \<Rightarrow> api_world \<times> fs \<times> (client_error + sessionResult)" where
  "establishSession env flags w fs =
     (if cf_invite flags = [] then
        (case loadSession (se_timeOk env) fs (cf_sessionFile flags) of
           Inl e \<Rightarrow> (w, fs, Inl (ClientLoad e))
         | Inr sess \<Rightarrow> (w, fs, Inr \<lparr>sr_Token = ps_SessionToken sess, sr_Secret = ps_SessionSecret sess, sr_DeviceToken = [], sr_Access = None\<rparr>))
      else case secretToToken (se_kdf env) (cf_invite flags) of
        None \<Rightarrow> (w, fs, Inl ClientPanic)
      | Some token \<Rightarrow>
     (case apiRequestContext w ''POST'' ''/'' [] (Some (access_body token (cf_invite flags) (randomUUID (se_uuid env)) (cf_name flags))) of
        (w1, Inl e) \<Rightarrow> (w1, fs, Inl (ClientApi e))
      | (w1, Inr access) \<Rightarrow>
     (case pollForResponseWithContext w1 token (ar_TeleportRequestID access) ''ACCESS_GRANTED'' 60 of
        (w2, Inl e) \<Rightarrow> (w2, fs, Inl (ClientApi e))
      | (w2, Inr poll) \<Rightarrow>
     (let sessionToken = (case poll of None \<Rightarrow> [] | Some r \<Rightarrow> ar_Token r);
          sessionSecret = (case poll of None \<Rightarrow> [] | Some r \<Rightarrow> ar_Secret r)
      in if sessionToken = [] then (w2, fs, Inl AccessTimeout)
         else
           let w3 = fst (fetchMetadataContext w2 sessionToken (se_readErr env))
           in case ctx_Err w3 of
                (w4, True) \<Rightarrow> (w4, fs, Inl ClientCanceled)
              | (w4, False) \<Rightarrow>
                  (let fs1 = (if cf_sessionFile flags \<noteq> []
                              then fs_calls fs (fst (saveSession (se_save env) (cf_sessionFile flags)
                                     \<lparr>ps_SessionToken = sessionToken, ps_SessionSecret = sessionSecret, ps_SavedAt = se_now env\<rparr>))
                              else fs)
                   in (w4, fs1, Inr \<lparr>sr_Token = sessionToken, sr_Secret = sessionSecret, sr_DeviceToken = token,
                                    sr_Access = Some access\<rparr>))))))"

section \<open>A connection attempt\<close>

definition fetchICEConfiguration :: "api_world \<Rightarrow> string \<Rightarrow> string \<Rightarrow> api_world \<times> (client_error + iceServer list)" where
  "fetchICEConfiguration w sessionToken sessionSecret =
     (case apiRequestContext w ''POST'' ''/'' [] (Some (ice_body sessionToken sessionSecret)) of
        (w1, Inl e) \<Rightarrow> (w1, Inl (ClientApi e))
      | (w1, Inr iceReq) \<Rightarrow>
     (case pollForResponseWithContext w1 sessionToken (ar_TeleportRequestID iceReq) ''ICE_CONFIGURATION'' 100 of
        (w2, Inl e) \<Rightarrow> (w2, Inl (ClientApi e))
      | (w2, Inr poll) \<Rightarrow>
     (let ice = (case poll of None \<Rightarrow> [] | Some r \<Rightarrow> ar_IceConfiguration r)
      in if ice = [] then (w2, Inl IceTimeout)
         else (fst (apiRequestContext w2 ''DELETE'' (CHR ''/'' # ar_TeleportRequestID iceReq) sessionToken None), Inr ice))))"

record gather_env =
  ge_ifaces :: "net_iface list"
  ge_os4 :: reflex_os
  ge_os6 :: reflex_os
  ge_reads4 :: "stun_read list"
  ge_reads6 :: "stun_read list"

definition reflex_found :: "reflex_run \<Rightarrow> candidate list" where
  "reflex_found r = (case rr_result r of Inl _ \<Rightarrow> [] | Inr c \<Rightarrow> [c])"

definition gatherLocalCandidates ::
  "'m stun_lib \<Rightarrow> (string \<Rightarrow> url option) \<Rightarrow> gather_env \<Rightarrow> udpSockets \<Rightarrow> int \<Rightarrow> networkFamily \<Rightarrow> iceServer list \<Rightarrow>
   (udpSockets \<times> candidate list) option" where
  "gatherLocalCandidates lib urlParse env sockets port family ice =
     (let local = localCandidates (ge_ifaces env) port family in
      case (if family \<noteq> FamilyIPv6
            then map_option (\<lambda>r. (sockets\<lparr>us_V4 := rr_conn r\<rparr>, local @ reflex_found r))
                   (reflexiveCandidateFromConn urlParse lib (ge_os4 env) (us_V4 sockets) ice FamilyIPv4 (ge_reads4 env))
            else Some (sockets, local)) of
        None \<Rightarrow> None
      | Some (sockets1, local1) \<Rightarrow>
          (if family \<noteq> FamilyIPv4
           then map_option (\<lambda>r. (sockets1\<lparr>us_V6 := rr_conn r\<rparr>, local1 @ reflex_found r))
                  (reflexiveCandidateFromConn urlParse lib (ge_os6 env) (us_V6 sockets1) ice FamilyIPv6 (ge_reads6 env))
           else Some (sockets1, local1)))"

definition validateLocalCandidates :: "candidate list \<Rightarrow> networkFamily \<Rightarrow> client_error option" where
  "validateLocalCandidates local family = (if local = [] then Some (NoLocalCandidate family) else None)"

definition validateTurnPrerequisites ::
  "(string \<Rightarrow> url option) \<Rightarrow> iceServer list \<Rightarrow> candidate list \<Rightarrow> client_error option" where
  "validateTurnPrerequisites urlParse ice local =
     (if stunServerFromIce urlParse ice = None then Some TurnNoStun
      else if turnServerFromIce urlParse ice = None then Some TurnNoTurn
      else if list_ex (\<lambda>c. cand_Type c = ''reflex'') local then None
      else Some TurnNoReflex)"

definition connectAndAwaitResponse ::
  "api_world \<Rightarrow> sessionResult \<Rightarrow> string \<Rightarrow> string \<Rightarrow> string \<Rightarrow> candidate list \<Rightarrow> iceServer list \<Rightarrow>
   api_world \<times> (client_error + apiResponse)" where
  "connectAndAwaitResponse w session name pub stunSecret local ice =
     (case apiRequestContext w ''POST'' ''/'' [] (Some (connect_body session name pub stunSecret local ice)) of
        (w1, Inl e) \<Rightarrow> (w1, Inl (ClientApi e))
      | (w1, Inr connectReq) \<Rightarrow>
     (case pollForResponseWithContext w1 (sr_Token session) (ar_TeleportRequestID connectReq) ''CONNECT_RESPONSE'' 200 of
        (w2, Inl e) \<Rightarrow> (w2, Inl (ClientApi e))
      | (w2, Inr None) \<Rightarrow> (w2, Inl ConnectTimeout)
      | (w2, Inr (Some connResp)) \<Rightarrow>
          (fst (apiRequestContext w2 ''DELETE'' (CHR ''/'' # ar_TeleportRequestID connectReq) (sr_Token session) None), Inr connResp)))"

record attempt_env =
  at_x25519 :: "byte list \<Rightarrow> byte list option"
  at_keyRandom :: "byte list option"
  at_port0 :: byte
  at_port1 :: byte
  at_listen4 :: "udp_conn option"
  at_listen6 :: "udp_conn option"
  at_gather :: gather_env
  at_secretRandom :: "byte list"
  at_pkts :: "(byte list \<times> udp_addr) list" \<comment> \<open>read by the early listener before the negotiation\<close>
  at_neg :: negotiate_env
  at_stop :: instant \<comment> \<open>when the listener is stopped before the tunnel\<close>
  at_tunnel :: tunnel_os
  at_events :: "supervise_event list"
  at_duration :: duration

record connectionAttemptResult =
  ca_printedConfig :: "string option" \<comment> \<open>the configuration that was printed\<close>
  ca_tunnelStarted :: bool
  ca_tunnelDuration :: duration

definition noResult :: connectionAttemptResult where
  "noResult = \<lparr>ca_printedConfig = None, ca_tunnelStarted = False, ca_tunnelDuration = 0\<rparr>"

text \<open>
  The early listener when the negotiation starts. Without \<^verbatim>\<open>--turn\<close> it listens from before CONNECT;
  with it, it starts after the answer and is restricted to the relays.
\<close>

definition early_listener ::
  "'m stun_lib \<Rightarrow> attempt_env \<Rightarrow> bool \<Rightarrow> udpSockets \<Rightarrow> apiResponse \<Rightarrow> string \<Rightarrow> candidate list \<Rightarrow> client_error + earlyNominationListener" where
  "early_listener lib env forceTurn sockets connResp stunSecret local =
     (let new = newEarlyNominationListener sockets stunSecret newNominationTracker;
          turnCandidates = compatibleCandidates (Some sockets)
            (candidatesOfType (pd_Candidates (si_PeerDesc (ar_ServerInfo connResp))) ''turn'') local
      in if forceTurn \<and> turnCandidates = [] then Inl TurnNoRelay
         else case listener_readLoop lib (listener_Start (if forceTurn then restrictToCandidates new turnCandidates else new)) (at_pkts env) of
           Inl _ \<Rightarrow> Inl ClientPanic
         | Inr l \<Rightarrow> Inr l)"

fun negotiate_client_error :: "negotiate_error \<Rightarrow> client_error" where
  "negotiate_client_error NegCanceled = ClientCanceled"
| "negotiate_client_error NegNoEndpoint = NoEndpoint"
| "negotiate_client_error NegPanic = ClientPanic"

text \<open>The access request is deleted once the first negotiation has succeeded.\<close>

definition delete_access :: "api_world \<Rightarrow> sessionResult \<Rightarrow> api_world \<times> sessionResult" where
  "delete_access w session =
     (case sr_Access session of
        None \<Rightarrow> (w, session)
      | Some a \<Rightarrow> (fst (apiRequestContext w ''DELETE'' (CHR ''/'' # ar_TeleportRequestID a) (sr_DeviceToken session) None),
                   session\<lparr>sr_Access := None\<rparr>))"

definition printed_config :: "tunnel_os \<Rightarrow> string \<Rightarrow> int \<Rightarrow> string \<Rightarrow> apiResponse \<Rightarrow> int \<Rightarrow> string" where
  "printed_config os priv port endpoint connResp mtu =
     (let effectiveMTU = (if mtu = 0
        then (case tos_resolve os endpoint of Some ep \<Rightarrow> discoverPathMTU (tos_path os) (Some ep) | None \<Rightarrow> fallbackMTU)
        else mtu)
      in buildConfig priv port endpoint (ar_ServerInfo connResp) (ar_DNSAddrs connResp) (ar_ClientIP connResp) effectiveMTU)"

definition tunnel_params ::
  "cliFlags \<Rightarrow> string \<Rightarrow> int \<Rightarrow> string \<Rightarrow> udpSockets \<Rightarrow> apiResponse \<Rightarrow> negotiation \<Rightarrow> tunnelParams" where
  "tunnel_params flags priv port stunSecret sockets connResp n =
     \<lparr>tp_priv = priv, tp_port = port, tp_endpoint = ne_endpoint n, tp_connResp = connResp, tp_stunSecret = stunSecret,
      tp_sockets = sockets, tp_nomination = Some (en_nomination (ne_listener n)), tp_socks5Addr = cf_socks5Addr flags,
      tp_socks5Auth = \<lparr>sa_user = cf_socks5User flags, sa_pass = cf_socks5Pass flags\<rparr>, tp_debug = cf_debug flags,
      tp_candidateQueue = ne_candidateQueue n, tp_candidateTypes = ne_candidateTypes n, tp_mtu = cf_mtu flags,
      tp_tcpCongestionControl = cf_tcpCongestionControl flags\<rparr>"

text \<open>An attempt once the endpoint is chosen.\<close>

definition attempt_tunnel ::
  "attempt_env \<Rightarrow> cliFlags \<Rightarrow> tunnelParams \<Rightarrow> (connectionAttemptResult \<times> client_error option) option" where
  "attempt_tunnel env flags p =
     (if cf_printConfig flags
      then Some (noResult\<lparr>ca_printedConfig :=
             Some (printed_config (at_tunnel env) (tp_priv p) (tp_port p) (tp_endpoint p) (tp_connResp p) (cf_mtu flags))\<rparr>, None)
      else
        let started = \<lparr>ca_printedConfig = None, ca_tunnelStarted = True, ca_tunnelDuration = at_duration env\<rparr>
        in case runTunnel (at_tunnel env) p (at_events env) of
             TunnelNotStarted e \<Rightarrow> Some (started, Some (ClientTunnel e))
           | TunnelRan (SupervisionEnds x _) \<Rightarrow> Some (started, Some (ClientExit x))
           | TunnelRan (Supervising _) \<Rightarrow> None)"

text \<open>
  An attempt. Its deferred calls stop the listener and close the sockets (\<open>listener_Stop\<close>,
  \<open>udpSockets_Close\<close>); nothing uses them after it, so they are not part of its result.
\<close>

definition runConnectionAttempt ::
  "'m stun_lib \<Rightarrow> (string \<Rightarrow> url option) \<Rightarrow> attempt_env \<Rightarrow> cliFlags \<Rightarrow> sessionResult \<Rightarrow> api_world \<Rightarrow>
   (api_world \<times> sessionResult \<times> connectionAttemptResult \<times> client_error option) option" where
  "runConnectionAttempt lib urlParse env flags session w =
     (let failed = (\<lambda>w e. Some (w, session, noResult, Some e)) in
      case wgKeypair (at_x25519 env) (at_keyRandom env) of
        None \<Rightarrow> failed w ClientKey
      | Some (priv, pub) \<Rightarrow>
     (case fetchICEConfiguration w (sr_Token session) (sr_Secret session) of
        (w1, Inl e) \<Rightarrow> failed w1 e
      | (w1, Inr ice) \<Rightarrow>
     (let port = listenPort (at_port0 env) (at_port1 env) in
      case openUDPSockets (at_listen4 env) (at_listen6 env) (cf_family flags) of
        None \<Rightarrow> failed w1 ClientSockets
      | Some sockets0 \<Rightarrow>
     (case gatherLocalCandidates lib urlParse (at_gather env) sockets0 port (cf_family flags) ice of
        None \<Rightarrow> None
      | Some (sockets, local) \<Rightarrow>
     (case validateLocalCandidates local (cf_family flags) of
        Some e \<Rightarrow> failed w1 e
      | None \<Rightarrow>
     (case (if cf_forceTurn flags then validateTurnPrerequisites urlParse ice local else None) of
        Some e \<Rightarrow> failed w1 e
      | None \<Rightarrow>
     (let stunSecret = randomB64 (at_secretRandom env) in
      case connectAndAwaitResponse w1 session (cf_name flags) pub stunSecret local ice of
        (w2, Inl e) \<Rightarrow> failed w2 e
      | (w2, Inr connResp) \<Rightarrow>
     (case early_listener lib env (cf_forceTurn flags) sockets connResp stunSecret local of
        Inl e \<Rightarrow> failed w2 e
      | Inr early \<Rightarrow>
     (case negotiateEndpoint lib (at_neg env) w2 (cf_endpointOverride flags) (cf_forceTurn flags) sockets connResp stunSecret early local of
        None \<Rightarrow> None
      | Some (w3, Inl e) \<Rightarrow> failed w3 (negotiate_client_error e)
      | Some (w3, Inr n) \<Rightarrow>
     (let (w4, session1) = delete_access w3 session
      in map_option (\<lambda>(result, err). (w4, session1, result, err))
           (attempt_tunnel env flags (tunnel_params flags priv port stunSecret
             (rs_sockets (en_stop (listener_Stop (at_stop env) (ne_listener n)))) connResp n))))))))))))"

section \<open>The client\<close>

definition reconnect_nextBackoff :: "duration \<Rightarrow> duration" where
  "reconnect_nextBackoff b = (let b2 = b * 2 in if b2 > 30 * second then 30 * second else b2)"

datatype client_exit = ClientPrinted string | ClientFailed "client_error option"

text \<open>
  The loop, with one environment for every attempt, and the waits between attempts. Without an
  exit it is still running.
\<close>

fun client_loop ::
  "'m stun_lib \<Rightarrow> (string \<Rightarrow> url option) \<Rightarrow> cliFlags \<Rightarrow> attempt_env list \<Rightarrow> sessionResult \<Rightarrow> duration \<Rightarrow> duration list \<Rightarrow> api_world \<Rightarrow>
   api_world \<times> duration list \<times> client_exit option" where
  "client_loop lib urlParse flags [] session reconnectBackoff waits w = (w, waits, None)"
| "client_loop lib urlParse flags (env # envs) session reconnectBackoff waits w =
     (case ctx_Err w of
        (w1, True) \<Rightarrow> (w1, waits, Some (ClientFailed (Some ClientCanceled)))
      | (w1, False) \<Rightarrow>
     (case runConnectionAttempt lib urlParse env flags session w1 of
        None \<Rightarrow> (w1, waits, None)
      | Some (w2, session1, result, err) \<Rightarrow>
     (case ca_printedConfig result of
        Some conf \<Rightarrow> (w2, waits, Some (ClientPrinted conf))
      | None \<Rightarrow>
     (if (case err of None \<Rightarrow> False | Some e \<Rightarrow> client_canceled e) then (w2, waits, Some (ClientFailed err))
      else if \<not> ca_tunnelStarted result then (w2, waits, Some (ClientFailed err))
      else
        let backoff = (if ca_tunnelDuration result \<ge> 5 * minute then 2 * second else reconnectBackoff)
        in case waitForContext w2 of
             (w3, False) \<Rightarrow> (w3, waits @ [backoff], Some (ClientFailed (Some ClientCanceled)))
           | (w3, True) \<Rightarrow>
               client_loop lib urlParse flags envs session1 (reconnect_nextBackoff backoff) (waits @ [backoff]) w3))))"

definition runClient ::
  "'m stun_lib \<Rightarrow> (string \<Rightarrow> url option) \<Rightarrow> session_env \<Rightarrow> cliFlags \<Rightarrow> attempt_env list \<Rightarrow> api_world \<Rightarrow> fs \<Rightarrow>
   api_world \<times> fs \<times> duration list \<times> client_exit option" where
  "runClient lib urlParse senv flags envs w fs =
     (case establishSession senv flags w fs of
        (w1, fs1, Inl e) \<Rightarrow> (w1, fs1, [], Some (ClientFailed (Some e)))
      | (w1, fs1, Inr session) \<Rightarrow>
          (let (w2, waits, r) = client_loop lib urlParse flags envs session (2 * second) [] w1 in (w2, fs1, waits, r)))"

text \<open>
  The program: its exit status, \<open>None\<close> while it runs. \<^verbatim>\<open>flag.Parse\<close> itself ends the program for a request
  for help and for a command line it cannot read. \<open>profile\<close> says whether the CPU profile can be created
  and started; a signal closes the context; a panic that nothing recovers ends a Go program with
  status 2.
\<close>

datatype flag_parse = FlagHelp | FlagBad | FlagsRead flag_values

definition main_exit :: "client_exit \<Rightarrow> int" where
  "main_exit x =
     (case x of
        ClientPrinted _ \<Rightarrow> 0
      | ClientFailed None \<Rightarrow> 0
      | ClientFailed (Some e) \<Rightarrow> if e = ClientPanic then 2 else if client_canceled e then 0 else 1)"

definition main_run ::
  "'m stun_lib \<Rightarrow> (string \<Rightarrow> url option) \<Rightarrow> (string \<Rightarrow> bool option) \<Rightarrow> (string \<Rightarrow> string) \<Rightarrow> (string \<Rightarrow> bool) \<Rightarrow> flag_parse \<Rightarrow>
   session_env \<Rightarrow> attempt_env list \<Rightarrow> api_world \<Rightarrow> fs \<Rightarrow> api_world \<times> fs \<times> int option" where
  "main_run lib urlParse stat getenv profile parsed senv envs w fs =
     (case parsed of
        FlagHelp \<Rightarrow> (w, fs, Some 0)
      | FlagBad \<Rightarrow> (w, fs, Some 2)
      | FlagsRead v \<Rightarrow>
     (case parseFlags urlParse stat getenv v of
        Inl e \<Rightarrow> (w, fs, Some 2)
      | Inr flags \<Rightarrow>
          (let cpuProfile = getenv ''TELEPORT_CPUPROFILE''
           in if cpuProfile \<noteq> [] \<and> \<not> profile cpuProfile then (w, fs, Some 1)
              else (let (w1, fs1, waits, r) = runClient lib urlParse senv flags envs w fs in (w1, fs1, map_option main_exit r)))))"

section \<open>Lemmas\<close>

interpretation reconnect_backoff: capped_backoff reconnect_nextBackoff "2 * second" "30 * second"
  by unfold_locales (auto simp: reconnect_nextBackoff_def Let_def)

text \<open>Errors of an attempt that has not come to its tunnel.\<close>

fun pre_tunnel :: "client_error \<Rightarrow> bool" where
  "pre_tunnel (ClientTunnel _) = False"
| "pre_tunnel (ClientExit _) = False"
| "pre_tunnel _ = True"

lemma fetchICE_pre_tunnel: "fetchICEConfiguration w tok sec = (w', Inl e) \<Longrightarrow> pre_tunnel e"
  by (auto simp: fetchICEConfiguration_def Let_def split: prod.splits sum.splits if_splits)

lemma connect_pre_tunnel: "connectAndAwaitResponse w s n pub sec local ice = (w', Inl e) \<Longrightarrow> pre_tunnel e"
  by (auto simp: connectAndAwaitResponse_def split: prod.splits sum.splits option.splits)

lemma early_listener_pre_tunnel: "early_listener lib env turn sockets resp sec local = Inl e \<Longrightarrow> pre_tunnel e"
  by (auto simp: early_listener_def Let_def split: sum.splits if_splits)

lemma negotiate_pre_tunnel: "pre_tunnel (negotiate_client_error e)"
  by (cases e) simp_all

lemma validate_pre_tunnel:
  "validateLocalCandidates local f = Some e \<Longrightarrow> pre_tunnel e"
  "validateTurnPrerequisites urlParse ice local = Some e \<Longrightarrow> pre_tunnel e"
  by (auto simp: validateLocalCandidates_def validateTurnPrerequisites_def split: if_splits)

lemmas pre_tunnel_errors =
  fetchICE_pre_tunnel connect_pre_tunnel early_listener_pre_tunnel validate_pre_tunnel

text \<open>An attempt fails before its tunnel, or runs \<open>attempt_tunnel\<close>.\<close>

lemma runConnectionAttempt_cases:
  assumes "runConnectionAttempt lib urlParse env flags session w = Some (w', session', result, err)"
  obtains (failed) e where "result = noResult" "err = Some e" "pre_tunnel e"
  | (tunnel) p where "attempt_tunnel env flags p = Some (result, err)"
proof -
  have "(\<exists>e. result = noResult \<and> err = Some e \<and> pre_tunnel e) \<or> (\<exists>p. attempt_tunnel env flags p = Some (result, err))"
    using assms unfolding runConnectionAttempt_def Let_def
    by (auto intro: negotiate_pre_tunnel dest: pre_tunnel_errors
        split: option.split_asm prod.split_asm sum.split_asm if_split_asm) (metis validate_pre_tunnel(1))
  then show thesis using that by blast
qed

lemma attempt_tunnel_result:
  assumes "attempt_tunnel env flags p = Some (result, err)"
  shows "if cf_printConfig flags then ca_printedConfig result \<noteq> None \<and> err = None
    else ca_printedConfig result = None \<and> ca_tunnelStarted result \<and> ca_tunnelDuration result = at_duration env \<and> (\<exists>e. err = Some e)"
  using assms by (auto simp: attempt_tunnel_def Let_def split: tunnel_run.splits supervise_result.splits)

lemma attempt_result:
  assumes "runConnectionAttempt lib urlParse env flags session w = Some (w', session', result, err)"
  shows "(ca_printedConfig result \<noteq> None \<longrightarrow> cf_printConfig flags) \<and>
    (ca_printedConfig result = None \<longrightarrow> (\<exists>e. err = Some e \<and> (\<not> ca_tunnelStarted result \<longrightarrow> pre_tunnel e))) \<and>
    (ca_tunnelStarted result \<longrightarrow> ca_tunnelDuration result = at_duration env)"
  using assms
proof (cases rule: runConnectionAttempt_cases)
  case (failed e)
  then show ?thesis by (simp add: noResult_def)
next
  case (tunnel p)
  from attempt_tunnel_result [OF this] tunnel show ?thesis
    by (auto simp: attempt_tunnel_def noResult_def split: if_splits)
qed

text \<open>
  The waits between attempts, the first one of \<open>b\<close>: the \<open>i\<close>th is 2 seconds when the tunnel of the \<open>i\<close>th
  attempt lasted five minutes, and otherwise grows from the one before.
\<close>

definition backoff_waits :: "duration \<Rightarrow> attempt_env list \<Rightarrow> duration list \<Rightarrow> bool" where
  "backoff_waits b envs xs =
     (length xs \<le> length envs \<and>
      (\<forall>i < length xs. xs ! i =
         (if 5 * minute \<le> at_duration (envs ! i) then 2 * second
          else if i = 0 then b else reconnect_nextBackoff (xs ! (i - 1)))))"

lemma backoff_waits_Cons:
  assumes "x = (if 5 * minute \<le> at_duration env then 2 * second else b)" "backoff_waits (reconnect_nextBackoff x) envs xs"
  shows "backoff_waits b (env # envs) (x # xs)"
proof -
  have "(x # xs) ! i = (if 5 * minute \<le> at_duration ((env # envs) ! i) then 2 * second
      else if i = 0 then b else reconnect_nextBackoff ((x # xs) ! (i - 1)))" if "i < length (x # xs)" for i
  proof (cases i)
    case 0
    with assms(1) show ?thesis by simp
  next
    case (Suc j)
    with that assms(2) show ?thesis by (cases j) (simp_all add: backoff_waits_def)
  qed
  moreover have "length (x # xs) \<le> length (env # envs)" using assms(2) by (simp add: backoff_waits_def)
  ultimately show ?thesis unfolding backoff_waits_def by blast
qed

lemma backoff_waits_bounds:
  assumes "backoff_waits b envs xs" "2 * second \<le> b" "b \<le> 30 * second" "i < length xs"
  shows "2 * second \<le> xs ! i \<and> xs ! i \<le> 30 * second"
  using assms(4)
proof (induction i)
  case 0
  with assms(1-3) show ?case by (auto simp: backoff_waits_def)
next
  case (Suc i)
  then have "2 * second \<le> reconnect_nextBackoff (xs ! i)" "reconnect_nextBackoff (xs ! i) \<le> 30 * second"
    using reconnect_backoff.grow_bounds [of "xs ! i"] by auto
  moreover have "xs ! Suc i = (if 5 * minute \<le> at_duration (envs ! Suc i) then 2 * second else reconnect_nextBackoff (xs ! i))"
    using assms(1) Suc.prems by (simp add: backoff_waits_def)
  ultimately show ?case by auto
qed

definition short_tunnels :: "attempt_env list \<Rightarrow> bool" where
  "short_tunnels envs = list_all (\<lambda>e. at_duration e < 5 * minute) envs"

lemma backoff_waits_short:
  assumes "backoff_waits b envs xs" "short_tunnels envs"
  shows "xs = map (\<lambda>n. (reconnect_nextBackoff ^^ n) b) [0..<length xs]"
proof (rule nth_equalityI)
  have step: "xs ! i = (if i = 0 then b else reconnect_nextBackoff (xs ! (i - 1)))" if "i < length xs" for i
  proof -
    from that assms(1) have "i < length envs" by (simp add: backoff_waits_def)
    with assms(2) have "\<not> 5 * minute \<le> at_duration (envs ! i)" by (auto simp: short_tunnels_def list_all_length)
    with that assms(1) show ?thesis by (simp add: backoff_waits_def)
  qed
  have "xs ! i = (reconnect_nextBackoff ^^ i) b" if "i < length xs" for i
    using that by (induction i) (simp_all add: step)
  then show "xs ! i = map (\<lambda>n. (reconnect_nextBackoff ^^ n) b) [0..<length xs] ! i" if "i < length xs" for i
    using that by simp
qed simp

text \<open>How the loop goes on from an attempt.\<close>

lemma client_loop_step:
  obtains (ends) w' r where "client_loop lib urlParse flags (env # envs) session b ws w = (w', ws, r)"
      "\<forall>c. r = Some (ClientPrinted c) \<longrightarrow> cf_printConfig flags"
      "\<forall>err. r = Some (ClientFailed err) \<longrightarrow> (\<exists>e. err = Some e \<and> (client_canceled e \<or> pre_tunnel e))"
      "r = None \<longrightarrow> (\<exists>w1. runConnectionAttempt lib urlParse env flags session w1 = None)"
  | (waits) x w3 session1 where "x = (if 5 * minute \<le> at_duration env then 2 * second else b)"
      "client_loop lib urlParse flags (env # envs) session b ws w = (w3, ws @ [x], Some (ClientFailed (Some ClientCanceled))) \<or>
       client_loop lib urlParse flags (env # envs) session b ws w =
         client_loop lib urlParse flags envs session1 (reconnect_nextBackoff x) (ws @ [x]) w3"
proof (cases "ctx_Err w")
  case (Pair w1 stopped)
  show thesis
  proof (cases stopped)
    case True
    with Pair show thesis by (intro ends [of w1 "Some (ClientFailed (Some ClientCanceled))"]) auto
  next
    case False
    show thesis
    proof (cases "runConnectionAttempt lib urlParse env flags session w1")
      case None
      with Pair False show thesis by (intro ends [of w1 None]) auto
    next
      case (Some a)
      obtain w2 session1 result err where a: "a = (w2, session1, result, err)" by (cases a)
      note att = attempt_result [OF Some [unfolded a]]
      show thesis
      proof (cases "ca_printedConfig result = None \<and> ca_tunnelStarted result \<and> (\<forall>e. err = Some e \<longrightarrow> \<not> client_canceled e)")
        case True
        obtain w3 alive where w3: "waitForContext w2 = (w3, alive)" by force
        with True Pair False Some a att show thesis
          by (intro waits [of "if 5 * minute \<le> at_duration env then 2 * second else b" w3 session1])
            (cases alive; auto simp: Let_def split: option.splits)+
      next
        case stop: False
        with Pair False Some a att show thesis
          by (intro ends [of w2 "Some (case ca_printedConfig result of Some c \<Rightarrow> ClientPrinted c | None \<Rightarrow> ClientFailed err)"])
            (auto split: option.splits if_splits)
      qed
    qed
  qed
qed

lemma client_loop_waits:
  assumes "client_loop lib urlParse flags envs session b ws w = (w', ws', r)"
  shows "\<exists>xs. ws' = ws @ xs \<and> backoff_waits b envs xs \<and>
    (r = None \<and> (\<forall>env \<in> set envs. \<forall>session w. runConnectionAttempt lib urlParse env flags session w \<noteq> None) \<longrightarrow> length xs = length envs)"
  using assms
proof (induction envs arbitrary: session b ws w)
  case Nil
  then show ?case by (simp add: backoff_waits_def)
next
  case (Cons env envs)
  show ?case
  proof (cases rule: client_loop_step [of lib urlParse flags env envs session b ws w])
    case (ends w1 r1)
    from Cons.prems ends(1) have "ws' = ws" "r = r1" by (simp_all del: client_loop.simps)
    moreover have "\<not> (\<forall>env \<in> set (env # envs). \<forall>session w. runConnectionAttempt lib urlParse env flags session w \<noteq> None)" if "r1 = None"
      using ends(4) that by (meson list.set_intros(1))
    ultimately show ?thesis by (auto simp: backoff_waits_def simp del: not_None_eq)
  next
    case (waits x w3 session1)
    from waits(2) show ?thesis
    proof
      assume "client_loop lib urlParse flags (env # envs) session b ws w = (w3, ws @ [x], Some (ClientFailed (Some ClientCanceled)))"
      with Cons.prems waits(1) backoff_waits_Cons [of x env b envs "[]"] show ?thesis
        by (intro exI [of _ "[x]"]) (auto simp: backoff_waits_def)
    next
      assume "client_loop lib urlParse flags (env # envs) session b ws w =
        client_loop lib urlParse flags envs session1 (reconnect_nextBackoff x) (ws @ [x]) w3"
      with Cons.prems have "client_loop lib urlParse flags envs session1 (reconnect_nextBackoff x) (ws @ [x]) w3 = (w', ws', r)"
        by (simp only:)
      from Cons.IH [OF this] obtain xs where
        "ws' = (ws @ [x]) @ xs" "backoff_waits (reconnect_nextBackoff x) envs xs"
        "r = None \<and> (\<forall>env \<in> set envs. \<forall>session w. runConnectionAttempt lib urlParse env flags session w \<noteq> None) \<longrightarrow> length xs = length envs"
        by blast
      with backoff_waits_Cons [OF waits(1)] show ?thesis by (intro exI [of _ "x # xs"]) simp
    qed
  qed
qed

lemma client_loop_exit:
  assumes "client_loop lib urlParse flags envs session b ws w = (w', ws', Some x)"
  shows "case x of
      ClientPrinted c \<Rightarrow> cf_printConfig flags
    | ClientFailed err \<Rightarrow> (\<exists>e. err = Some e \<and> (client_canceled e \<or> pre_tunnel e))"
  using assms
proof (induction envs arbitrary: session b ws w)
  case (Cons env envs)
  show ?case
  proof (cases rule: client_loop_step [of lib urlParse flags env envs session b ws w])
    case (ends w1 r1)
    with Cons.prems show ?thesis by (cases x) auto
  next
    case (waits y w3 session1)
    from waits(2) show ?thesis
    proof
      assume "client_loop lib urlParse flags (env # envs) session b ws w = (w3, ws @ [y], Some (ClientFailed (Some ClientCanceled)))"
      with Cons.prems show ?thesis by auto
    qed (use Cons in auto)
  qed
qed simp

lemma reconnect_delay: "(reconnect_nextBackoff ^^ n) (2 * second) = (if n < 4 then second * [2, 4, 8, 16] ! n else 30 * second)"
proof (induction n)
  case (Suc n)
  consider "n = 0" | "n = 1" | "n = 2" | "n = 3" | "4 \<le> n" by linarith
  then show ?case unfolding funpow.simps(2) comp_apply Suc.IH by cases (simp_all add: reconnect_nextBackoff_def)
qed simp

lemma reconnect_delays:
  "map (\<lambda>n. (reconnect_nextBackoff ^^ n) (2 * second)) [0..<k] =
   take k (map ((*) second) [2, 4, 8, 16] @ replicate k (30 * second))"
proof (rule nth_equalityI)
  fix i
  assume "i < length (map (\<lambda>n. (reconnect_nextBackoff ^^ n) (2 * second)) [0..<k])"
  then have "i < k" by simp
  then have "map (\<lambda>n. (reconnect_nextBackoff ^^ n) (2 * second)) [0..<k] ! i = (reconnect_nextBackoff ^^ i) (2 * second)"
    by (simp only: nth_map_upt diff_zero add_0)
  also have "\<dots> = take k (map ((*) second) [2, 4, 8, 16] @ replicate k (30 * second)) ! i"
    unfolding reconnect_delay nth_take [OF \<open>i < k\<close>] nth_append
    using \<open>i < k\<close> by (cases "i < 4") (auto simp: nth_Cons split: nat.splits)
  finally show "map (\<lambda>n. (reconnect_nextBackoff ^^ n) (2 * second)) [0..<k] ! i =
      take k (map ((*) second) [2, 4, 8, 16] @ replicate k (30 * second)) ! i" .
qed simp

text \<open>What a pairing leaves behind.\<close>

lemma establishSession_paired:
  assumes "establishSession env flags w fs = (w1, fs1, Inr s)" "cf_invite flags \<noteq> []"
  shows "sr_Token s \<noteq> []"
    "fs1 = (if cf_sessionFile flags \<noteq> []
       then fs_calls fs (fst (saveSession (se_save env) (cf_sessionFile flags)
         \<lparr>ps_SessionToken = sr_Token s, ps_SessionSecret = sr_Secret s, ps_SavedAt = se_now env\<rparr>)) else fs)"
  using assms
  by (auto simp: establishSession_def Let_def split: option.splits prod.splits sum.splits if_splits bool.splits)

lemma runClient_ends:
  assumes "runClient lib urlParse senv flags envs w fs = (w', fs', waits, Some x)"
  shows "(\<exists>conf. x = ClientPrinted conf \<and> cf_printConfig flags) \<or> (\<exists>e. x = ClientFailed (Some e))"
proof -
  obtain w1 fs1 s where es: "establishSession senv flags w fs = (w1, fs1, s)" by (metis prod_cases3)
  show ?thesis
  proof (cases s)
    case (Inl e)
    with assms es show ?thesis by (auto simp: runClient_def)
  next
    case (Inr session)
    obtain w2 ws y where cl: "client_loop lib urlParse flags envs session (2 * second) [] w1 = (w2, ws, y)" by (metis prod_cases3)
    with assms es Inr have "y = Some x" by (simp add: runClient_def)
    from client_loop_exit [OF cl [unfolded this]] show ?thesis by (auto split: client_exit.splits)
  qed
qed

section \<open>Properties of the client\<close>

text \<open>
  C21. The client waits between connection attempts. The wait after an attempt is 2 seconds after the
  first one and whenever the tunnel of that attempt lasted five minutes, and otherwise twice the wait
  before it, but at most 30 seconds; so all waits are from 2 to 30 seconds, and when no tunnel lasts
  five minutes they are exactly 2, 4, 8, 16, 30, 30, \<dots> seconds. There is one wait for each attempt as
  long as the client goes on.
\<close>

theorem runClient_backoff:
  assumes "runClient lib urlParse senv flags envs w fs = (w', fs', waits, r)"
  shows "length waits \<le> length envs \<and>
    (\<forall>i < length waits. waits ! i =
       (if i = 0 \<or> 5 * minute \<le> at_duration (envs ! i) then 2 * second else min (30 * second) (2 * waits ! (i - 1)))) \<and>
    (\<forall>x \<in> set waits. 2 * second \<le> x \<and> x \<le> 30 * second) \<and>
    (short_tunnels envs \<longrightarrow> waits = take (length waits) (map ((*) second) [2, 4, 8, 16] @ replicate (length waits) (30 * second))) \<and>
    (r = None \<and> (\<forall>env \<in> set envs. \<forall>session w. runConnectionAttempt lib urlParse env flags session w \<noteq> None) \<longrightarrow>
       length waits = length envs)"
proof -
  obtain w1 fs1 s where es: "establishSession senv flags w fs = (w1, fs1, s)" by (metis prod_cases3)
  show ?thesis
  proof (cases s)
    case (Inl e)
    with assms es show ?thesis by (auto simp: runClient_def)
  next
    case (Inr session)
    obtain w2 ws x where cl: "client_loop lib urlParse flags envs session (2 * second) [] w1 = (w2, ws, x)" by (metis prod_cases3)
    with assms es Inr have ws: "waits = ws" "r = x" by (simp_all add: runClient_def)
    from client_loop_waits [OF cl] have bw: "backoff_waits (2 * second) envs waits"
      and all: "r = None \<and> (\<forall>env \<in> set envs. \<forall>session w. runConnectionAttempt lib urlParse env flags session w \<noteq> None) \<longrightarrow> length waits = length envs"
      by (simp_all add: ws)
    have "\<forall>x \<in> set waits. 2 * second \<le> x \<and> x \<le> 30 * second"
      using backoff_waits_bounds [OF bw] by (auto simp: in_set_conv_nth)
    moreover have "reconnect_nextBackoff y = min (30 * second) (2 * y)" for y
      by (simp add: reconnect_nextBackoff_def Let_def min_def)
    then have "\<forall>i < length waits. waits ! i =
        (if i = 0 \<or> 5 * minute \<le> at_duration (envs ! i) then 2 * second else min (30 * second) (2 * waits ! (i - 1)))"
      using bw unfolding backoff_waits_def by (metis (full_types))
    moreover have "short_tunnels envs \<longrightarrow> waits = take (length waits) (map ((*) second) [2, 4, 8, 16] @ replicate (length waits) (30 * second))"
      using backoff_waits_short [OF bw] unfolding reconnect_delays by blast
    ultimately show ?thesis using all bw by (simp add: backoff_waits_def)
  qed
qed

definition ex_flags :: cliFlags where
  "ex_flags = \<lparr>cf_invite = [], cf_name = ''n'', cf_endpointOverride = [], cf_forceTurn = False, cf_printConfig = False,
     cf_socks5Addr = [], cf_socks5User = [], cf_socks5Pass = [], cf_family = FamilyDual, cf_debug = False,
     cf_sessionFile = ''f'', cf_mtu = 0, cf_tcpCongestionControl = []\<rparr>"

definition ex_senv :: session_env where
  "ex_senv = \<lparr>se_kdf = (\<lambda>_. None), se_uuid = [], se_timeOk = (\<lambda>_. True), se_readErr = None, se_now = ps_SavedAt ex_session,
     se_save = ex_save_os\<rparr>"

text \<open>
  C22. The client ends only for a printed configuration, which it was asked for, for a cancelled
  context, or for an error of an attempt before its tunnel: the end of a tunnel, or a tunnel
  that could not be set up, never ends it.
\<close>

theorem runClient_exit:
  assumes "runClient lib urlParse senv flags envs w fs = (w', fs', waits, Some x)"
    and "establishSession senv flags w fs = (w1, fs1, Inr session)"
  shows "case x of
      ClientPrinted c \<Rightarrow> cf_printConfig flags
    | ClientFailed err \<Rightarrow> (\<exists>e. err = Some e \<and> (client_canceled e \<or> (\<forall>t. e \<noteq> ClientTunnel t) \<and> (\<forall>t. e \<noteq> ClientExit t)))"
proof -
  obtain w2 ws y where cl: "client_loop lib urlParse flags envs session (2 * second) [] w1 = (w2, ws, y)" by (metis prod_cases3)
  with assms have "y = Some x" by (simp add: runClient_def)
  from client_loop_exit [OF cl [unfolded this]] show ?thesis by (auto split: client_exit.splits)
qed

text \<open>
  C24. The exit status of the program. It is 2 for a command line that is refused, and then nothing was
  sent or written, and otherwise only for a panic of the client; it is 0 only for a request for help,
  when the configuration was printed, as it was asked to, or when the run was cancelled; it is 1 when
  the profile could not be started or the client failed with an error. The program never stops
  silently.
\<close>

theorem main_status:
  assumes "main_run lib urlParse stat getenv profile parsed senv envs w fs = (w', fs', Some status)"
  shows "case parsed of
      FlagHelp \<Rightarrow> status = 0 \<and> w' = w \<and> fs' = fs
    | FlagBad \<Rightarrow> status = 2 \<and> w' = w \<and> fs' = fs
    | FlagsRead v \<Rightarrow>
        (case parseFlags urlParse stat getenv v of
           Inl e \<Rightarrow> status = 2 \<and> w' = w \<and> fs' = fs
         | Inr flags \<Rightarrow>
             status = 1 \<and> w' = w \<and> fs' = fs \<and> getenv ''TELEPORT_CPUPROFILE'' \<noteq> [] \<and> \<not> profile (getenv ''TELEPORT_CPUPROFILE'') \<or>
             (\<exists>waits x. runClient lib urlParse senv flags envs w fs = (w', fs', waits, Some x) \<and>
                ((\<exists>conf. x = ClientPrinted conf \<and> cf_printConfig flags \<and> status = 0) \<or>
                 x = ClientFailed (Some ClientPanic) \<and> status = 2 \<or>
                 (\<exists>e. x = ClientFailed (Some e) \<and> client_canceled e \<and> status = 0) \<or>
                 (\<exists>e. x = ClientFailed (Some e) \<and> e \<noteq> ClientPanic \<and> \<not> client_canceled e \<and> status = 1))))"
proof (cases parsed)
  case (FlagsRead v)
  show ?thesis
  proof (cases "parseFlags urlParse stat getenv v")
    case (Inl e)
    with assms FlagsRead show ?thesis by (simp add: main_run_def)
  next
    case (Inr flags)
    obtain w1 fs1 waits r where rc: "runClient lib urlParse senv flags envs w fs = (w1, fs1, waits, r)" by (metis prod_cases4)
    show ?thesis
    proof (cases "getenv ''TELEPORT_CPUPROFILE'' \<noteq> [] \<and> \<not> profile (getenv ''TELEPORT_CPUPROFILE'')")
      case True
      with assms FlagsRead Inr show ?thesis by (simp add: main_run_def)
    next
      case False
      with assms FlagsRead Inr rc obtain x where x: "w' = w1" "fs' = fs1" "r = Some x" "status = main_exit x"
        by (auto simp: main_run_def Let_def)
      have "(\<exists>conf. x = ClientPrinted conf \<and> cf_printConfig flags) \<or> (\<exists>e. x = ClientFailed (Some e))"
        using runClient_ends [OF rc [unfolded x(3)]] .
      with x rc Inr FlagsRead show ?thesis by (auto simp: main_exit_def split: if_splits)
    qed
  qed
qed (use assms in \<open>simp_all add: main_run_def\<close>)

text \<open>
  C23. Pairing and reconnecting: after a pairing whose session could be saved, a run without an
  invite gets the very token and secret that the console granted, from the session file and
  without any request.
\<close>

theorem pairing_reconnect:
  assumes "establishSession env flags w fs = (w1, fs1, Inr s)" and "cf_invite flags \<noteq> []" and "cf_sessionFile flags \<noteq> []"
    and "snd (saveSession (se_save env) (cf_sessionFile flags)
           \<lparr>ps_SessionToken = sr_Token s, ps_SessionSecret = sr_Secret s, ps_SavedAt = se_now env\<rparr>) = None"
    and "so_createTemp (se_save env) = Some tmp" and "fs tmp = None" and "tmp \<noteq> cf_sessionFile flags"
    and "ascii_session \<lparr>ps_SessionToken = sr_Token s, ps_SessionSecret = sr_Secret s, ps_SavedAt = se_now env\<rparr>"
    and "sr_Secret s \<noteq> []" and "se_timeOk env2 (se_now env)"
  shows "establishSession env2 (flags\<lparr>cf_invite := []\<rparr>) w2 fs1 =
    (w2, fs1, Inr \<lparr>sr_Token = sr_Token s, sr_Secret = sr_Secret s, sr_DeviceToken = [], sr_Access = None\<rparr>)"
proof -
  let ?s = "\<lparr>ps_SessionToken = sr_Token s, ps_SessionSecret = sr_Secret s, ps_SavedAt = se_now env\<rparr>"
  from establishSession_paired [OF assms(1,2)] assms(3)
  have tok: "sr_Token s \<noteq> []" and fs1: "fs1 = fs_calls fs (fst (saveSession (se_save env) (cf_sessionFile flags) ?s))" by simp_all
  from fs_saved [of "se_save env" tmp fs "cf_sessionFile flags", OF assms(5-7,4)] fs1
  have "fs1 (cf_sessionFile flags) = Some \<lparr>f_data = session_text ?s, f_mode = mode_0600\<rparr>" by (simp add: saved_file_def)
  from load_saved [of ?s "se_timeOk env2" fs1, OF assms(8) _ _ _ this] tok assms(9,10) show ?thesis
    by (simp add: establishSession_def)
qed

text \<open>A console that grants access, for the pairing of the witnesses.\<close>

definition ex_granted :: string where
  "ex_granted = CHR 0x7B # json_member ''response_type'' (json_quote ''ACCESS_GRANTED'') @ CHR '','' #
     json_member ''token'' (json_quote ''tok'') @ CHR '','' # json_member ''secret'' (json_quote ''sec'') @ [CHR 0x7D]"

lemma ex_granted_members:
  "json_unmarshal ex_granted =
     Some (JObj [(''response_type'', JStr ''ACCESS_GRANTED''), (''token'', JStr ''tok''), (''secret'', JStr ''sec'')])"
proof -
  have a: "ascii ''response_type''" "ascii ''token''" "ascii ''secret''" "ascii ''ACCESS_GRANTED''" "ascii ''tok''" "ascii ''sec''"
    by (simp_all add: ascii_def)
  let ?n = "2 * length ex_granted"
  have "json_value (Suc (Suc (Suc (Suc (Suc ?n))))) ex_granted =
      Some (JObj [(''response_type'', JStr ''ACCESS_GRANTED''), (''token'', JStr ''tok''), (''secret'', JStr ''sec'')], [])"
    unfolding ex_granted_def
    by (rule json_object_value) (simp add: json_members_more json_members_last json_value_quote a prepend_def)
  then show ?thesis by (rule json_unmarshalI) simp
qed

lemma ex_granted_read:
  "\<exists>r. unmarshal_apiResponse num ex_granted = Some r \<and> ar_ResponseType r = ''ACCESS_GRANTED'' \<and> ar_Token r = ''tok'' \<and> ar_Secret r = ''sec''"
  unfolding unmarshal_apiResponse_def ex_granted_members
  by (simp add: dec_apiResponse_def dec_field_def equalFold_ascii to_lower_char_def is_upper_def char_in_def zero_apiResponse_def)

definition ex_pair_flags :: cliFlags where
  "ex_pair_flags = ex_flags\<lparr>cf_invite := ''i''\<rparr>"

definition ex_http :: "(nat \<Rightarrow> string) \<Rightarrow> api_world" where
  "ex_http bodies = ex_world\<lparr>aw_http := \<lambda>n. HttpAnswer 200 ''200 OK'' (bodies n)\<rparr>"

text \<open>Such a world after some requests.\<close>

definition ex_after :: "(nat \<Rightarrow> string) \<Rightarrow> nat \<Rightarrow> api_world \<Rightarrow> bool" where
  "ex_after bodies n w =
     (aw_http w = (\<lambda>n. HttpAnswer 200 ''200 OK'' (bodies n)) \<and> aw_alive w = (\<lambda>_. True) \<and> aw_num w = (\<lambda>_. None) \<and> aw_calls w = n)"

lemma ex_after_http: "ex_after bodies 0 (ex_http bodies)"
  by (simp add: ex_after_def ex_http_def ex_world_def)

lemma ex_after_empty:
  assumes "ex_after bodies n w" "bodies n = []"
  obtains w' where "apiRequestContext w m path tok b = (w', Inr (zero_apiResponse\<lparr>ar_StatusCode := 200\<rparr>))" "ex_after bodies (Suc n) w'"
  using assms that by (simp add: ex_after_def apiRequestContext_def Let_def api_result_def)

lemma ex_after_delete: "ex_after bodies n w \<Longrightarrow> ex_after bodies (Suc n) (fst (apiRequestContext w m path tok b))"
  by (simp add: ex_after_def apiRequestContext_def Let_def)

lemma ex_after_look:
  assumes "ex_after bodies n w"
  obtains w' where "ctx_Err w = (w', False)" "waitForContext w = (w', True)" "ex_after bodies n w'"
  using assms that by (simp add: ex_after_def ctx_Err_def waitForContext_def)

lemma ex_after_poll:
  assumes "ex_after bodies n w" "bodies n \<noteq> []" "unmarshal_apiResponse (\<lambda>_. None) (bodies n) = Some r" "ar_ResponseType r = want" "0 < tries"
  obtains w' where "pollForResponseWithContext w tok i want tries = (w', Inr (Some r))" "ex_after bodies (Suc n) w'"
proof -
  obtain k where k: "tries = Suc k" using assms(5) by (cases tries) auto
  obtain w1 where w1: "waitForContext w = (w1, True)" "ex_after bodies n w1" using ex_after_look [OF assms(1)] by blast
  obtain w2 where w2: "apiRequestContext w1 ''GET'' (CHR ''/'' # i) tok None = (w2, Inr r)" "ex_after bodies (Suc n) w2"
    using w1(2) assms(2,3) by (simp add: ex_after_def apiRequestContext_def Let_def api_result_def)
  show thesis using that [of w2] w1 w2 assms(4) by (simp add: pollForResponseWithContext_def k)
qed

lemma ex_pairing:
  "\<exists>w1 fs1 s. establishSession (ex_senv\<lparr>se_kdf := \<lambda>_. Some []\<rparr>) ex_pair_flags (ex_http (\<lambda>n. if n = 1 then ex_granted else [])) Map.empty =
     (w1, fs1, Inr s) \<and> sr_Token s = ''tok'' \<and> sr_Secret s = ''sec''"
proof -
  let ?b = "\<lambda>n :: nat. if n = 1 then ex_granted else []" and ?r0 = "zero_apiResponse\<lparr>ar_StatusCode := 200\<rparr>"
  let ?tok = "the (secretToToken (\<lambda>_. Some []) ''i'')"
  obtain r where r: "unmarshal_apiResponse (\<lambda>_. None) ex_granted = Some r" "ar_ResponseType r = ''ACCESS_GRANTED''"
    "ar_Token r = ''tok''" "ar_Secret r = ''sec''" using ex_granted_read by blast
  obtain w1 where w1: "apiRequestContext (ex_http ?b) ''POST'' ''/'' [] (Some (access_body ?tok ''i'' (randomUUID []) ''n'')) = (w1, Inr ?r0)"
    "ex_after ?b 1 w1"
    using ex_after_empty [OF ex_after_http, of ?b "''POST''" "''/''" "[]"] by (metis One_nat_def zero_neq_one)
  have "?b 1 \<noteq> []" "unmarshal_apiResponse (\<lambda>_. None) (?b 1) = Some r" using r by (simp_all add: ex_granted_def)
  from ex_after_poll [OF w1(2) this r(2), of 60] obtain w2 where
    w2: "pollForResponseWithContext w1 ?tok (ar_TeleportRequestID ?r0) ''ACCESS_GRANTED'' 60 = (w2, Inr (Some r))" "ex_after ?b 2 w2"
    by (auto simp: numeral_2_eq_2)
  have "ex_after ?b 3 (fst (fetchMetadataContext w2 ''tok'' None))"
    using w2(2) by (simp add: ex_after_def fetchMetadataContext_def Let_def)
  from ex_after_look [OF this] obtain w3 where "ctx_Err (fst (fetchMetadataContext w2 ''tok'' None)) = (w3, False)" by blast
  with w1 w2 r show ?thesis
    by (simp add: establishSession_def ex_pair_flags_def ex_flags_def ex_senv_def secretToToken_def Let_def)
qed

theorem pairing_reconnect_witness:
  "\<exists>w1 fs1 s. establishSession (ex_senv\<lparr>se_kdf := \<lambda>_. Some []\<rparr>) ex_pair_flags (ex_http (\<lambda>n. if n = 1 then ex_granted else [])) Map.empty =
     (w1, fs1, Inr s) \<and>
     establishSession ex_senv (ex_pair_flags\<lparr>cf_invite := []\<rparr>) ex_world fs1 =
       (ex_world, fs1, Inr \<lparr>sr_Token = ''tok'', sr_Secret = ''sec'', sr_DeviceToken = [], sr_Access = None\<rparr>)"
proof -
  obtain w1 fs1 s where s: "establishSession (ex_senv\<lparr>se_kdf := \<lambda>_. Some []\<rparr>) ex_pair_flags
      (ex_http (\<lambda>n. if n = 1 then ex_granted else [])) Map.empty = (w1, fs1, Inr s)"
    and tok: "sr_Token s = ''tok''" "sr_Secret s = ''sec''"
    using ex_pairing by blast
  from pairing_reconnect [OF s, of "''s.tmp-1''" ex_senv ex_world] s show ?thesis
    by (simp add: tok ex_pair_flags_def ex_flags_def ex_senv_def ex_save_os_def ex_session_def saveSession_def Let_def
        ascii_session_def ascii_def)
qed

text \<open>
  A run that reconnects: the console answers the first attempt, whose tunnel fails because the
  response has no key; the second attempt has no random bytes.
\<close>

definition ex_ice_text :: string where
  "ex_ice_text = CHR 0x7B # json_member ''response_type'' (json_quote ''ICE_CONFIGURATION'') @ CHR '','' #
     json_member ''ice_configuration'' [CHR ''['', CHR 0x7B, CHR 0x7D, CHR '']''] @ [CHR 0x7D]"

definition ex_connect_text :: string where
  "ex_connect_text = CHR 0x7B # json_member ''response_type'' (json_quote ''CONNECT_RESPONSE'') @ [CHR 0x7D]"

lemma ex_ice_members:
  "json_unmarshal ex_ice_text = Some (JObj [(''response_type'', JStr ''ICE_CONFIGURATION''), (''ice_configuration'', JArr [JObj []])])"
proof -
  have a: "ascii ''response_type''" "ascii ''ice_configuration''" "ascii ''ICE_CONFIGURATION''" by (simp_all add: ascii_def)
  let ?n = "2 * length ex_ice_text"
  have arr: "json_value (Suc (Suc (Suc m))) (CHR ''['' # CHR 0x7B # CHR 0x7D # CHR '']'' # r) = Some (JArr [JObj []], r)" for m r
    by (simp add: json_value.simps(2) json_elems.simps(2) skip_ws_def)
  have "json_value (Suc (Suc (Suc (Suc (Suc (Suc ?n)))))) ex_ice_text =
      Some (JObj [(''response_type'', JStr ''ICE_CONFIGURATION''), (''ice_configuration'', JArr [JObj []])], [])"
    unfolding ex_ice_text_def
    by (rule json_object_value) (simp add: json_members_more json_members_last json_value_quote a arr prepend_def)
  then show ?thesis by (rule json_unmarshalI) simp
qed

lemma ex_connect_members: "json_unmarshal ex_connect_text = Some (JObj [(''response_type'', JStr ''CONNECT_RESPONSE'')])"
proof -
  have a: "ascii ''response_type''" "ascii ''CONNECT_RESPONSE''" by (simp_all add: ascii_def)
  have "json_value (Suc (Suc (Suc (2 * length ex_connect_text)))) ex_connect_text =
      Some (JObj [(''response_type'', JStr ''CONNECT_RESPONSE'')], [])"
    unfolding ex_connect_text_def
    by (rule json_object_value) (simp add: json_members_last json_value_quote a prepend_def)
  then show ?thesis by (rule json_unmarshalI) simp
qed

lemma ex_replies_read:
  "\<exists>r. unmarshal_apiResponse num ex_ice_text = Some r \<and> ar_ResponseType r = ''ICE_CONFIGURATION'' \<and> ar_IceConfiguration r = [zero_iceServer]"
  "\<exists>r. unmarshal_apiResponse num ex_connect_text = Some r \<and> ar_ResponseType r = ''CONNECT_RESPONSE'' \<and>
     si_WGPubKey (ar_ServerInfo r) = []"
  unfolding unmarshal_apiResponse_def ex_ice_members ex_connect_members
  by (simp_all add: dec_apiResponse_def dec_iceServer_def zero_iceServer_def dec_field_def equalFold_ascii to_lower_char_def is_upper_def
      char_in_def zero_apiResponse_def)

definition ex_run_flags :: cliFlags where
  "ex_run_flags = ex_flags\<lparr>cf_endpointOverride := ''192.0.2.1:5''\<rparr>"

definition ex_bodies :: "nat \<Rightarrow> string" where
  "ex_bodies n = (if n = 1 then ex_ice_text else if n = 4 then ex_connect_text else [])"

definition ex_iface :: net_iface where
  "ex_iface = \<lparr>if_up = True, if_loopback = False, if_MTU = 1500, if_addrs = Some [IPAddr [203, 0, 113, 9]]\<rparr>"

definition ex_tunnel_os :: tunnel_os where
  "ex_tunnel_os = \<lparr>tos_path = \<lparr>ps_goos = [], ps_exec = (\<lambda>_. None), ps_dialUDP = (\<lambda>_. None), ps_interfaces = None\<rparr>,
     tos_resolve = (\<lambda>_. None), tos_stack = undefined, tos_tcp = undefined, tos_ipcSet = (\<lambda>_. True), tos_up = True,
     tos_listen = (\<lambda>_. None), tos_logger = \<lparr>al_debug = False\<rparr>, tos_ipc = None\<rparr>"

definition ex_attempt :: "byte list option \<Rightarrow> attempt_env" where
  "ex_attempt key = \<lparr>at_x25519 = Some, at_keyRandom = key, at_port0 = 0, at_port1 = 0,
     at_listen4 = Some \<lparr>uc_readDeadline = None, uc_closed = False\<rparr>, at_listen6 = None,
     at_gather = \<lparr>ge_ifaces = [ex_iface], ge_os4 = ex_reflex_os, ge_os6 = ex_reflex_os, ge_reads4 = [], ge_reads6 = []\<rparr>,
     at_secretRandom = [], at_pkts = [], at_neg = ex_neg, at_stop = 0, at_tunnel = ex_tunnel_os, at_events = [], at_duration = 0\<rparr>"

definition ex_disk :: fs where
  "ex_disk = [''f'' \<mapsto> \<lparr>f_data = session_text ex_session, f_mode = mode_0600\<rparr>]"

definition ex_session_result :: sessionResult where
  "ex_session_result = \<lparr>sr_Token = ''tok'', sr_Secret = ''sec'', sr_DeviceToken = [], sr_Access = None\<rparr>"

lemma ex_establish: "establishSession ex_senv ex_run_flags w ex_disk = (w, ex_disk, Inr ex_session_result)"
proof -
  have "loadSession (\<lambda>_. True) ex_disk ''f'' = Inr ex_session"
    by (rule load_saved) (simp_all add: ex_disk_def ex_session_def ascii_session_def ascii_def)
  then show ?thesis by (simp add: establishSession_def ex_run_flags_def ex_flags_def ex_senv_def ex_session_result_def ex_session_def)
qed

lemma ex_ice_fetched:
  assumes "ex_after ex_bodies 0 w"
  obtains w' where "fetchICEConfiguration w tok sec = (w', Inr [zero_iceServer])" "ex_after ex_bodies 3 w'"
proof -
  obtain w1 where w1: "apiRequestContext w ''POST'' ''/'' [] (Some (ice_body tok sec)) = (w1, Inr (zero_apiResponse\<lparr>ar_StatusCode := 200\<rparr>))"
    "ex_after ex_bodies (Suc 0) w1"
    by (rule ex_after_empty [OF assms]) (simp_all add: ex_bodies_def)
  obtain r where r: "unmarshal_apiResponse (\<lambda>_. None) (ex_bodies (Suc 0)) = Some r" "ar_ResponseType r = ''ICE_CONFIGURATION''"
    "ar_IceConfiguration r = [zero_iceServer]" using ex_replies_read(1) by (auto simp: ex_bodies_def)
  have "ex_bodies (Suc 0) \<noteq> []" by (simp add: ex_bodies_def ex_ice_text_def)
  from ex_after_poll [OF w1(2) this r(1,2), of 100] obtain w2 where
    w2: "pollForResponseWithContext w1 tok [] ''ICE_CONFIGURATION'' 100 = (w2, Inr (Some r))" "ex_after ex_bodies (Suc (Suc 0)) w2" by auto
  show thesis
    using that [of "fst (apiRequestContext w2 ''DELETE'' (CHR ''/'' # []) tok None)"] w1(1) w2 r(3) ex_after_delete [OF w2(2)]
    by (simp add: fetchICEConfiguration_def zero_apiResponse_def numeral_3_eq_3)
qed

lemma ex_connected:
  assumes "ex_after ex_bodies 3 w" "sr_Token s = tok"
  obtains w' r where "connectAndAwaitResponse w s n pub sec local ice = (w', Inr r)" "ex_after ex_bodies 6 w'"
    "si_WGPubKey (ar_ServerInfo r) = []"
proof -
  obtain w1 where w1: "apiRequestContext w ''POST'' ''/'' [] (Some (connect_body s n pub sec local ice)) =
      (w1, Inr (zero_apiResponse\<lparr>ar_StatusCode := 200\<rparr>))" "ex_after ex_bodies (Suc 3) w1"
    by (rule ex_after_empty [OF assms(1)]) (simp_all add: ex_bodies_def)
  obtain r where r: "unmarshal_apiResponse (\<lambda>_. None) (ex_bodies (Suc 3)) = Some r" "ar_ResponseType r = ''CONNECT_RESPONSE''"
    "si_WGPubKey (ar_ServerInfo r) = []" using ex_replies_read(2) by (auto simp: ex_bodies_def)
  have "ex_bodies (Suc 3) \<noteq> []" by (simp add: ex_bodies_def ex_connect_text_def)
  from ex_after_poll [OF w1(2) this r(1,2), of 200] obtain w2 where
    w2: "pollForResponseWithContext w1 tok [] ''CONNECT_RESPONSE'' 200 = (w2, Inr (Some r))" "ex_after ex_bodies (Suc (Suc 3)) w2" by auto
  show thesis
    using that [of "fst (apiRequestContext w2 ''DELETE'' (CHR ''/'' # []) tok None)" r] w1(1) w2 r(3) ex_after_delete [OF w2(2)] assms(2)
    by (simp add: connectAndAwaitResponse_def zero_apiResponse_def)
qed

lemma ex_local:
  assumes "us_V4 s = at_listen4 (ex_attempt key)" "us_V6 s = None"
  shows "\<exists>local. gatherLocalCandidates lib urlParse (at_gather (ex_attempt key)) s port FamilyDual [zero_iceServer] = Some (s, local) \<and> local \<noteq> []"
proof -
  have "stunServerFromIce urlParse [zero_iceServer] = None" by (simp add: zero_iceServer_def)
  moreover have "localCandidates [ex_iface] port FamilyDual \<noteq> []"
  proof -
    have r: "isRoutableCandidateIP [203, 0, 113, 9] FamilyDual" by code_simp
    then show ?thesis
      by (simp add: localCandidates_def localCandidates_iface_def localCandidates_addr_def ex_iface_def Let_def)
  qed
  ultimately show ?thesis using assms
    by (simp add: gatherLocalCandidates_def ex_attempt_def reflexiveCandidateFromConn_def reflexiveCandidateFromConnWithTimeout_def
        reflex_found_def Let_def)
qed

lemma ex_tunnel_fails:
  assumes "si_WGPubKey (ar_ServerInfo (tp_connResp p)) = []"
  shows "\<exists>e. attempt_tunnel (ex_attempt key) ex_run_flags p =
    Some (\<lparr>ca_printedConfig = None, ca_tunnelStarted = True, ca_tunnelDuration = 0\<rparr>, Some (ClientTunnel e))"
proof -
  have "\<exists>e. b64KeyToHex [] = Inl e" by (simp add: b64KeyToHex_def b64_decode_def split: option.split)
  with assms show ?thesis
    by (cases "b64KeyToHex (tp_priv p)")
      (auto simp: attempt_tunnel_def runTunnel_def runTunnel_setup_def ex_run_flags_def ex_flags_def ex_attempt_def)
qed

lemma ex_attempt_runs:
  assumes "ex_after ex_bodies 0 w"
  obtains w' e where "runConnectionAttempt lib urlParse (ex_attempt (Some key)) ex_run_flags ex_session_result w =
      Some (w', ex_session_result, \<lparr>ca_printedConfig = None, ca_tunnelStarted = True, ca_tunnelDuration = 0\<rparr>, Some (ClientTunnel e))"
    "ex_after ex_bodies 6 w'"
proof -
  let ?env = "ex_attempt (Some key)" and ?sec = "randomB64 []"
  let ?s = "\<lparr>us_V4 = at_listen4 ?env, us_V6 = None\<rparr>" and ?port = "listenPort 0 0"
  obtain w1 where w1: "fetchICEConfiguration w ''tok'' ''sec'' = (w1, Inr [zero_iceServer])" "ex_after ex_bodies 3 w1"
    using ex_ice_fetched [OF assms] by blast
  have sockets: "openUDPSockets (at_listen4 ?env) (at_listen6 ?env) FamilyDual = Some ?s"
    by (simp add: openUDPSockets_def ex_attempt_def)
  obtain local where local: "gatherLocalCandidates lib urlParse (at_gather ?env) ?s ?port FamilyDual [zero_iceServer] = Some (?s, local)"
    "local \<noteq> []" using ex_local [of ?s "Some key" lib urlParse ?port] by auto
  obtain priv pub where key: "wgKeypair Some (Some key) = Some (priv, pub)" by (auto simp: wgKeypair_def)
  obtain w2 r where w2: "connectAndAwaitResponse w1 ex_session_result ''n'' pub ?sec local [zero_iceServer] = (w2, Inr r)"
    "ex_after ex_bodies 6 w2" "si_WGPubKey (ar_ServerInfo r) = []"
    by (rule ex_connected [OF w1(2) refl])
  obtain l where l: "early_listener lib ?env False ?s r ?sec local = Inr l"
    by (simp add: early_listener_def ex_attempt_def)
  obtain n where n: "negotiateEndpoint lib ex_neg w2 ''192.0.2.1:5'' False ?s r ?sec l local = Some (w2, Inr n)"
    by (simp add: negotiateEndpoint_def Let_def)
  let ?s' = "rs_sockets (en_stop (listener_Stop (at_stop ?env) (ne_listener n)))"
  have "tp_connResp (tunnel_params ex_run_flags priv ?port ?sec ?s' r n) = r" by (simp add: tunnel_params_def)
  with ex_tunnel_fails [of "tunnel_params ex_run_flags priv ?port ?sec ?s' r n" "Some key"] w2(3) obtain e where
    e: "attempt_tunnel ?env ex_run_flags (tunnel_params ex_run_flags priv ?port ?sec ?s' r n) =
      Some (\<lparr>ca_printedConfig = None, ca_tunnelStarted = True, ca_tunnelDuration = 0\<rparr>, Some (ClientTunnel e))" by auto
  have c: "at_x25519 ?env = Some" "at_keyRandom ?env = Some key" "at_port0 ?env = 0" "at_port1 ?env = 0" "at_secretRandom ?env = []"
    "at_neg ?env = ex_neg" by (simp_all add: ex_attempt_def)
  have f: "cf_family ex_run_flags = FamilyDual" "cf_forceTurn ex_run_flags = False" "cf_name ex_run_flags = ''n''"
    "cf_endpointOverride ex_run_flags = ''192.0.2.1:5''" by (simp_all add: ex_run_flags_def ex_flags_def)
  have "sr_Token ex_session_result = ''tok''" "sr_Secret ex_session_result = ''sec''" "sr_Access ex_session_result = None"
    by (simp_all add: ex_session_result_def)
  with that [of w2 e] key w1 sockets local w2 l n e show thesis
    by (simp add: runConnectionAttempt_def c f validateLocalCandidates_def delete_access_def)
qed

lemma ex_run:
  "\<exists>w'. runClient ex_stun ex_ice_url ex_senv ex_run_flags [ex_attempt (Some []), ex_attempt None] (ex_http ex_bodies) ex_disk =
     (w', ex_disk, [2 * second], Some (ClientFailed (Some ClientKey)))"
proof -
  let ?r = "\<lparr>ca_printedConfig = None, ca_tunnelStarted = True, ca_tunnelDuration = 0\<rparr>"
  obtain w1 where w1: "ctx_Err (ex_http ex_bodies) = (w1, False)" "ex_after ex_bodies 0 w1"
    using ex_after_look [OF ex_after_http] by blast
  obtain w2 e where w2: "runConnectionAttempt ex_stun ex_ice_url (ex_attempt (Some [])) ex_run_flags ex_session_result w1 =
      Some (w2, ex_session_result, ?r, Some (ClientTunnel e))" "ex_after ex_bodies 6 w2"
    using ex_attempt_runs [OF w1(2)] by blast
  obtain w3 where w3: "waitForContext w2 = (w3, True)" "ex_after ex_bodies 6 w3" using ex_after_look [OF w2(2)] by blast
  obtain w4 where w4: "ctx_Err w3 = (w4, False)" using ex_after_look [OF w3(2)] by blast
  have "runConnectionAttempt ex_stun ex_ice_url (ex_attempt None) ex_run_flags ex_session_result w4 =
      Some (w4, ex_session_result, noResult, Some ClientKey)"
    by (simp add: runConnectionAttempt_def wgKeypair_def ex_attempt_def)
  with w1 w2 w3 w4 show ?thesis by (simp add: runClient_def ex_establish Let_def noResult_def)
qed

theorem runClient_backoff_witness:
  "\<exists>w'. runClient ex_stun ex_ice_url ex_senv ex_run_flags [ex_attempt (Some []), ex_attempt None] (ex_http ex_bodies) ex_disk =
     (w', ex_disk, [2 * second], Some (ClientFailed (Some ClientKey))) \<and>
     [2 * second] = take 1 (map ((*) second) [2, 4, 8, 16] @ replicate 1 (30 * second))"
proof -
  obtain w' where run: "runClient ex_stun ex_ice_url ex_senv ex_run_flags [ex_attempt (Some []), ex_attempt None] (ex_http ex_bodies) ex_disk =
     (w', ex_disk, [2 * second], Some (ClientFailed (Some ClientKey)))" using ex_run by blast
  moreover have "short_tunnels [ex_attempt (Some []), ex_attempt None]" by (simp add: short_tunnels_def ex_attempt_def)
  ultimately show ?thesis using runClient_backoff [OF run] by auto
qed

theorem runClient_exit_witness:
  "\<exists>w'. runClient ex_stun ex_ice_url ex_senv ex_run_flags [ex_attempt (Some []), ex_attempt None] (ex_http ex_bodies) ex_disk =
     (w', ex_disk, [2 * second], Some (ClientFailed (Some ClientKey))) \<and> (\<forall>t. ClientKey \<noteq> ClientTunnel t)"
proof -
  obtain w' where "runClient ex_stun ex_ice_url ex_senv ex_run_flags [ex_attempt (Some []), ex_attempt None] (ex_http ex_bodies) ex_disk =
     (w', ex_disk, [2 * second], Some (ClientFailed (Some ClientKey)))" using ex_run by blast
  from this runClient_exit [OF this ex_establish] show ?thesis by auto
qed

theorem main_status_witness:
  "\<exists>w' f. main_run ex_stun ex_ice_url (\<lambda>_. Some False) (\<lambda>_. []) (\<lambda>_. True)
      (FlagsRead ((flag_defaults None)\<lparr>fv_4 := True, fv_mtu := 1300, fv_sessionFile := ''f''\<rparr>))
      ex_senv [ex_attempt None] (ex_world\<lparr>aw_alive := \<lambda>_. False\<rparr>) ex_disk = (w', ex_disk, Some 0) \<and>
    parseFlags ex_ice_url (\<lambda>_. Some False) (\<lambda>_. []) ((flag_defaults None)\<lparr>fv_4 := True, fv_mtu := 1300, fv_sessionFile := ''f''\<rparr>) = Inr f \<and>
    (\<exists>waits x. runClient ex_stun ex_ice_url ex_senv f [ex_attempt None] (ex_world\<lparr>aw_alive := \<lambda>_. False\<rparr>) ex_disk =
       (w', ex_disk, waits, Some x) \<and> main_exit x = 0)"
proof -
  let ?v = "(flag_defaults None)\<lparr>fv_4 := True, fv_mtu := 1300, fv_sessionFile := ''f''\<rparr>" and ?w = "ex_world\<lparr>aw_alive := \<lambda>_. False\<rparr>"
  obtain f where f: "parseFlags ex_ice_url (\<lambda>_. Some False) (\<lambda>_. []) ?v = Inr f" "cf_invite f = []" "cf_sessionFile f = ''f''"
    using ex_parse [of "''f''" ex_ice_url] by auto
  have "establishSession ex_senv f ?w ex_disk = (?w, ex_disk, Inr ex_session_result)"
    using ex_establish [of ?w] f(2, 3) by (simp add: establishSession_def ex_run_flags_def ex_flags_def)
  then have "\<exists>w'. main_run ex_stun ex_ice_url (\<lambda>_. Some False) (\<lambda>_. []) (\<lambda>_. True) (FlagsRead ?v) ex_senv [ex_attempt None] ?w ex_disk = (w', ex_disk, Some 0)"
    by (simp add: main_run_def f(1) runClient_def ctx_Err_def main_exit_def)
  then obtain w' where w': "main_run ex_stun ex_ice_url (\<lambda>_. Some False) (\<lambda>_. []) (\<lambda>_. True) (FlagsRead ?v) ex_senv [ex_attempt None] ?w ex_disk = (w', ex_disk, Some 0)"
    by blast
  from main_status [OF this] obtain waits x where "runClient ex_stun ex_ice_url ex_senv f [ex_attempt None] ?w ex_disk = (w', ex_disk, waits, Some x)"
    "(\<exists>conf. x = ClientPrinted conf) \<or> (\<exists>e. x = ClientFailed (Some e) \<and> client_canceled e)"
    unfolding flag_parse.case f(1) sum.case by auto
  with w' f(1) show ?thesis by (auto simp: main_exit_def)
qed

end
