(* ===== verification/Tun_Queue.thy ===== *)
theory Tun_Queue
  imports Tun_Device "HOL-Library.Multiset"
begin

text \<open>
  The way out of the userspace device (\<^verbatim>\<open>internal/tunnet/tun.go\<close>): the network stack queues a
  packet on its channel endpoint and calls \<^verbatim>\<open>WriteNotify\<close>, which takes a packet from the queue
  and hands it over the unbuffered channel \<^verbatim>\<open>incomingPacket\<close> to WireGuard's \<^verbatim>\<open>Read\<close>.

  Goroutines of the stack call \<^verbatim>\<open>WriteNotify\<close> concurrently with each other, with \<^verbatim>\<open>Read\<close> and with
  \<^verbatim>\<open>Close\<close>: the model is a step relation whose labels are what the goroutines do. The queue of the
  endpoint (gVisor) is not part of the repository; of it the steps use what its documentation
  says: packets leave in the order in which they were queued, a queue that is full or closed
  takes none, and closing it discards what it holds.
\<close>

section \<open>Operations\<close>

text \<open>\<open>tq_sending\<close> are the views that calls of \<^verbatim>\<open>WriteNotify\<close> hold while they wait in their send.\<close>

record tun_queue =
  tq_dev :: netTun
  tq_queue :: "byte list list"
  tq_sending :: "byte list list"

definition tun_queue_cap :: nat where
  "tun_queue_cap = 1024"

definition newTunQueue :: "netTun \<Rightarrow> tun_queue" where
  "newTunQueue dev = \<lparr>tq_dev = dev, tq_queue = [], tq_sending = []\<rparr>"

text \<open>\<^verbatim>\<open>WriteNotify\<close> up to its send: the first packet of the queue becomes a view to be sent, and
  nothing happens when there is none.\<close>

definition netTun_WriteNotify :: "tun_queue \<Rightarrow> tun_queue" where
  "netTun_WriteNotify q =
     (case tq_queue q of
        [] \<Rightarrow> q
      | pkt # rest \<Rightarrow> q\<lparr>tq_queue := rest, tq_sending := tq_sending q @ [pkt]\<rparr>)"

text \<open>\<^verbatim>\<open>Read\<close> once the channel has given a view, or is closed (\<open>None\<close>): \<open>viewRead\<close> is \<^verbatim>\<open>View.Read\<close>,
  the number of bytes that it copies into the room there is, or its error. A buffer that ends
  before \<open>offset\<close> is a run-time panic.\<close>

datatype tun_read = TunData "byte list" | TunErrClosed | TunViewError | TunReadPanic

definition netTun_Read :: "(byte list \<Rightarrow> nat \<Rightarrow> nat option) \<Rightarrow> byte list option \<Rightarrow> nat \<Rightarrow> nat \<Rightarrow> tun_read" where
  "netTun_Read viewRead received buflen offset =
     (case received of
        None \<Rightarrow> TunErrClosed
      | Some view \<Rightarrow>
          (if offset > buflen then TunReadPanic
           else case viewRead view (buflen - offset) of
             None \<Rightarrow> TunViewError
           | Some n \<Rightarrow> TunData (take n view)))"

section \<open>Steps\<close>

datatype tun_action =
    TunQueued "byte list"      \<comment> \<open>the stack queues a packet\<close>
  | TunNotify                  \<comment> \<open>a \<^verbatim>\<open>WriteNotify\<close> takes a packet\<close>
  | TunReceive "byte list"     \<comment> \<open>a \<^verbatim>\<open>Read\<close> and a waiting send meet\<close>
  | TunReadClosed              \<comment> \<open>a \<^verbatim>\<open>Read\<close> finds the channel closed\<close>
  | TunClose                   \<comment> \<open>\<^verbatim>\<open>Close\<close>\<close>
  | TunSendPanic "byte list"   \<comment> \<open>a waiting send finds the channel closed: a run-time panic\<close>

inductive tun_step :: "tun_queue \<Rightarrow> tun_action \<Rightarrow> tun_queue \<Rightarrow> bool" where
  queued: "\<not> nt_closed (tq_dev q) \<Longrightarrow> length (tq_queue q) < tun_queue_cap \<Longrightarrow>
    tun_step q (TunQueued p) (q\<lparr>tq_queue := tq_queue q @ [p]\<rparr>)"
| notify: "tun_step q TunNotify (netTun_WriteNotify q)"
| receive: "\<not> nt_closed (tq_dev q) \<Longrightarrow> tq_sending q = xs @ p # ys \<Longrightarrow>
    tun_step q (TunReceive p) (q\<lparr>tq_sending := xs @ ys\<rparr>)"
| read_closed: "nt_closed (tq_dev q) \<Longrightarrow> tun_step q TunReadClosed q"
| close: "netTun_Close (tq_dev q) = Inr dev \<Longrightarrow> tun_step q TunClose (q\<lparr>tq_dev := dev, tq_queue := []\<rparr>)"
| send_panic: "nt_closed (tq_dev q) \<Longrightarrow> tq_sending q = xs @ p # ys \<Longrightarrow>
    tun_step q (TunSendPanic p) (q\<lparr>tq_sending := xs @ ys\<rparr>)"

inductive tun_run :: "tun_queue \<Rightarrow> tun_action list \<Rightarrow> tun_queue \<Rightarrow> bool" where
  stop: "tun_run q [] q"
| step: "tun_run q as q1 \<Longrightarrow> tun_step q1 a q2 \<Longrightarrow> tun_run q (as @ [a]) q2"

inductive_cases tun_queuedE: "tun_step q (TunQueued p) q'"
inductive_cases tun_notifyE: "tun_step q TunNotify q'"
inductive_cases tun_receiveE: "tun_step q (TunReceive p) q'"
inductive_cases tun_readClosedE: "tun_step q TunReadClosed q'"
inductive_cases tun_closeE: "tun_step q TunClose q'"
inductive_cases tun_sendPanicE: "tun_step q (TunSendPanic p) q'"

lemmas tun_stepEs = tun_queuedE tun_notifyE tun_receiveE tun_readClosedE tun_closeE tun_sendPanicE

text \<open>What the actions of a run put in and took out.\<close>

fun queued_packet :: "tun_action \<Rightarrow> byte list option" where
  "queued_packet (TunQueued p) = Some p"
| "queued_packet _ = None"

fun received_packet :: "tun_action \<Rightarrow> byte list option" where
  "received_packet (TunReceive p) = Some p"
| "received_packet _ = None"

definition packets_in :: "tun_action list \<Rightarrow> byte list list" where
  "packets_in as = List.map_filter queued_packet as"

definition packets_out :: "tun_action list \<Rightarrow> byte list list" where
  "packets_out as = List.map_filter received_packet as"

lemma packets_snoc [simp]:
  "packets_in (as @ [a]) = packets_in as @ (case queued_packet a of None \<Rightarrow> [] | Some p \<Rightarrow> [p])"
  "packets_out (as @ [a]) = packets_out as @ (case received_packet a of None \<Rightarrow> [] | Some p \<Rightarrow> [p])"
  "packets_in [] = []" "packets_out [] = []"
  by (simp_all add: packets_in_def packets_out_def List.map_filter_def split: option.split)

section \<open>Conservation and order\<close>

lemma netTun_Close_closed: "netTun_Close dev = Inr dev' \<Longrightarrow> \<not> nt_closed dev \<and> nt_closed dev'"
  by (auto simp: netTun_Close_def split: if_splits)

lemma tun_WriteNotify_keeps [simp]:
  "tq_dev (netTun_WriteNotify q) = tq_dev q"
  "tq_sending (netTun_WriteNotify q) @ tq_queue (netTun_WriteNotify q) = tq_sending q @ tq_queue q"
  by (simp_all add: netTun_WriteNotify_def split: list.split)

lemma tun_WriteNotify_mset [simp]:
  "mset (tq_sending (netTun_WriteNotify q)) + mset (tq_queue (netTun_WriteNotify q)) = mset (tq_sending q) + mset (tq_queue q)"
  by (simp add: netTun_WriteNotify_def split: list.split)

text \<open>The device is closed exactly when \<^verbatim>\<open>Close\<close> was called, which it can be once.\<close>

lemma tun_run_closed:
  assumes "tun_run q as q'" and "\<not> nt_closed (tq_dev q)"
  shows "nt_closed (tq_dev q') \<longleftrightarrow> TunClose \<in> set as"
  using assms
proof (induction rule: tun_run.induct)
  case (step q as q1 a q2)
  from step.hyps(2) have "nt_closed (tq_dev q2) \<longleftrightarrow> nt_closed (tq_dev q1) \<or> a = TunClose"
    by cases (auto dest: netTun_Close_closed)
  with step show ?case by auto
qed simp

text \<open>A step moves packets along; only \<^verbatim>\<open>Close\<close> and a panic lose any.\<close>

lemma tun_step_packets:
  assumes "tun_step q a q'"
  shows "mset (packets_out [a]) + mset (tq_sending q') + mset (tq_queue q') \<subseteq>#
      mset (packets_in [a]) + mset (tq_sending q) + mset (tq_queue q) \<and>
    (\<not> nt_closed (tq_dev q') \<longrightarrow>
      mset (packets_out [a]) + mset (tq_sending q') + mset (tq_queue q') =
      mset (packets_in [a]) + mset (tq_sending q) + mset (tq_queue q))"
  using assms
proof cases
  case (close dev)
  then show ?thesis using packets_snoc(1, 2) [of "[]" a] netTun_Close_closed [of "tq_dev q" dev] by simp
next
  case (send_panic xs p ys)
  then show ?thesis using packets_snoc(1, 2) [of "[]" a] by (simp add: subset_mset.add_increasing2)
next
  case notify
  then show ?thesis using packets_snoc(1, 2) [of "[]" a] by simp
qed (use packets_snoc(1, 2) [of "[]" a] in simp_all)

lemma packets_snoc_mset:
  "mset (packets_in (as @ [a])) = mset (packets_in as) + mset (packets_in [a])"
  "mset (packets_out (as @ [a])) = mset (packets_out as) + mset (packets_out [a])"
  using packets_snoc(1, 2) [of "[]" a] by (simp_all only: packets_snoc mset_append append_Nil)

lemma tun_run_packets:
  assumes "tun_run q0 as q" and "q0 = newTunQueue dev" and "\<not> nt_closed dev"
  shows "mset (packets_out as) + mset (tq_sending q) + mset (tq_queue q) \<subseteq># mset (packets_in as) \<and>
    (TunClose \<notin> set as \<longrightarrow> mset (packets_out as) + mset (tq_sending q) + mset (tq_queue q) = mset (packets_in as))"
  using assms
proof (induction rule: tun_run.induct)
  case (stop q)
  then show ?case by (simp add: newTunQueue_def)
next
  case (step q as q1 a q2)
  let ?o = "\<lambda>as q. mset (packets_out as) + mset (tq_sending q) + mset (tq_queue q)"
  have a: "?o [a] q2 \<subseteq># mset (packets_in [a]) + mset (tq_sending q1) + mset (tq_queue q1)"
    and b: "\<not> nt_closed (tq_dev q2) \<Longrightarrow> ?o [a] q2 = mset (packets_in [a]) + mset (tq_sending q1) + mset (tq_queue q1)"
    using tun_step_packets [OF step.hyps(2)] by blast+
  have c: "nt_closed (tq_dev q2) \<longleftrightarrow> TunClose \<in> set (as @ [a])"
    by (rule tun_run_closed [OF tun_run.step [OF step.hyps]]) (simp add: step.prems newTunQueue_def)
  have o: "?o (as @ [a]) q2 = mset (packets_out as) + ?o [a] q2"
    and i: "mset (packets_in (as @ [a])) = mset (packets_in as) + mset (packets_in [a])"
    by (simp_all only: packets_snoc_mset add.assoc)
  have IH: "?o as q1 \<subseteq># mset (packets_in as)" "TunClose \<notin> set as \<Longrightarrow> ?o as q1 = mset (packets_in as)"
    using step.IH step.prems by blast+
  have "?o (as @ [a]) q2 \<subseteq># mset (packets_out as) + (mset (packets_in [a]) + mset (tq_sending q1) + mset (tq_queue q1))"
    unfolding o using a by (rule subset_mset.add_left_mono)
  also have "\<dots> = mset (packets_in [a]) + ?o as q1" by (simp only: ac_simps)
  also have "\<dots> \<subseteq># mset (packets_in (as @ [a]))"
    unfolding i using subset_mset.add_left_mono [OF IH(1), of "mset (packets_in [a])"] by (simp only: ac_simps)
  finally have 1: "?o (as @ [a]) q2 \<subseteq># mset (packets_in (as @ [a]))" .
  have "?o (as @ [a]) q2 = mset (packets_in (as @ [a]))" if "TunClose \<notin> set (as @ [a])"
    unfolding o i using b c IH(2) that by (auto simp: ac_simps)
  with 1 show ?case by blast
qed

text \<open>
  Runs in which the calls of \<^verbatim>\<open>WriteNotify\<close> do not overlap: none takes a packet while another one
  still waits in its send.
\<close>

inductive tun_seq_run :: "tun_queue \<Rightarrow> tun_action list \<Rightarrow> tun_queue \<Rightarrow> bool" where
  seq_stop: "tun_seq_run q [] q"
| seq_step: "tun_seq_run q as q1 \<Longrightarrow> tun_step q1 a q2 \<Longrightarrow> (a = TunNotify \<longrightarrow> tq_sending q1 = []) \<Longrightarrow> tun_seq_run q (as @ [a]) q2"

lemma tun_seq_run_run: "tun_seq_run q as q' \<Longrightarrow> tun_run q as q'"
  by (induction rule: tun_seq_run.induct) (auto intro: tun_run.intros)

lemma tun_step_order:
  assumes "tun_step q a q'" and "length (tq_sending q) \<le> 1" and "a = TunNotify \<longrightarrow> tq_sending q = []"
    and "a \<noteq> TunClose" and "\<not> nt_closed (tq_dev q)" and "outs @ tq_sending q @ tq_queue q = ins"
  shows "length (tq_sending q') \<le> 1 \<and>
    (outs @ packets_out [a]) @ tq_sending q' @ tq_queue q' = ins @ packets_in [a]"
  using assms(1)
proof cases
  case (receive xs p ys)
  then have "xs = []" "ys = []" using assms(2) by auto
  with receive show ?thesis using packets_snoc(1, 2) [of "[]" a] assms(6) by simp
next
  case notify
  have "length (tq_sending (netTun_WriteNotify q)) \<le> 1"
    using assms(3) notify by (simp add: netTun_WriteNotify_def split: list.split)
  with notify show ?thesis using packets_snoc(1, 2) [of "[]" a] assms(6) by simp
next
  case (queued p)
  then show ?thesis using packets_snoc(1, 2) [of "[]" a] assms by auto
qed (use assms in auto)

lemma packets_snoc_append:
  "packets_in (as @ [a]) = packets_in as @ packets_in [a]" "packets_out (as @ [a]) = packets_out as @ packets_out [a]"
  using packets_snoc(1, 2) [of "[]" a] by (simp_all only: packets_snoc append_Nil)

lemma tun_seq_run_order:
  assumes "tun_seq_run q0 as q" and "q0 = newTunQueue dev" and "\<not> nt_closed dev" and "TunClose \<notin> set as"
  shows "length (tq_sending q) \<le> 1 \<and> packets_out as @ tq_sending q @ tq_queue q = packets_in as"
  using assms
proof (induction rule: tun_seq_run.induct)
  case (seq_stop q)
  then show ?case by (simp add: newTunQueue_def)
next
  case (seq_step q as q1 a q2)
  have "\<not> nt_closed (tq_dev q1)"
    using tun_run_closed [OF tun_seq_run_run [OF seq_step.hyps(1)]] seq_step.prems by (simp add: newTunQueue_def)
  moreover have "length (tq_sending q1) \<le> 1" "packets_out as @ tq_sending q1 @ tq_queue q1 = packets_in as"
    using seq_step.IH seq_step.prems by simp_all
  ultimately show ?case
    using tun_step_order [OF seq_step.hyps(2) _ seq_step.hyps(3), of "packets_out as" "packets_in as"] seq_step.prems
    unfolding packets_snoc_append by auto
qed

section \<open>What WireGuard reads\<close>

text \<open>The results of the calls of \<^verbatim>\<open>Read\<close>, each with a buffer of \<open>buflen\<close> bytes.\<close>

fun read_result :: "(byte list \<Rightarrow> nat \<Rightarrow> nat option) \<Rightarrow> nat \<Rightarrow> nat \<Rightarrow> tun_action \<Rightarrow> tun_read option" where
  "read_result viewRead buflen offset (TunReceive p) = Some (netTun_Read viewRead (Some p) buflen offset)"
| "read_result viewRead buflen offset TunReadClosed = Some (netTun_Read viewRead None buflen offset)"
| "read_result viewRead buflen offset _ = None"

definition tun_reads :: "(byte list \<Rightarrow> nat \<Rightarrow> nat option) \<Rightarrow> nat \<Rightarrow> nat \<Rightarrow> tun_action list \<Rightarrow> tun_read list" where
  "tun_reads viewRead buflen offset as = List.map_filter (read_result viewRead buflen offset) as"

lemma tun_reads_snoc [simp]:
  "tun_reads vr b ofs (as @ [a]) = tun_reads vr b ofs as @ (case read_result vr b ofs a of None \<Rightarrow> [] | Some r \<Rightarrow> [r])"
  "tun_reads vr b ofs [] = []"
  by (simp_all add: tun_reads_def List.map_filter_def split: option.split)

lemma tun_run_reads:
  assumes "tun_run q0 as q" and "q0 = newTunQueue dev" and "\<not> nt_closed dev" and "ofs \<le> b"
    and "\<forall>p \<in> set (packets_out as). vr p (b - ofs) = Some (length p)"
  shows "\<exists>k. tun_reads vr b ofs as = map TunData (packets_out as) @ replicate k TunErrClosed \<and> (k = 0 \<or> nt_closed (tq_dev q))"
  using assms
proof (induction rule: tun_run.induct)
  case (stop q)
  then show ?case by simp
next
  case (step q as q1 a q2)
  then obtain k where k: "tun_reads vr b ofs as = map TunData (packets_out as) @ replicate k TunErrClosed"
    "k = 0 \<or> nt_closed (tq_dev q1)" by auto
  from step.hyps(2) show ?case
  proof cases
    case (receive xs p ys)
    then show ?thesis using k step.prems by (intro exI [of _ 0]) (auto simp: netTun_Read_def)
  next
    case read_closed
    then show ?thesis using k by (intro exI [of _ "Suc k"]) (simp add: netTun_Read_def replicate_append_same)
  qed (use k in \<open>auto intro!: exI [of _ k] dest: netTun_Close_closed\<close>)
qed

lemma tun_run_panic:
  assumes "tun_run q0 as q" and "q0 = newTunQueue dev" and "\<not> nt_closed dev" and "TunSendPanic p \<in> set as"
  shows "TunClose \<in> set as"
  using assms
proof (induction rule: tun_run.induct)
  case (step q as q1 a q2)
  from step.hyps(2) show ?case
  proof cases
    case (send_panic xs p' ys)
    then show ?thesis using tun_run_closed [OF step.hyps(1)] step.prems by (simp add: newTunQueue_def)
  qed (use step in auto)
qed simp

text \<open>
  C15. Packets on their way out of the tunnel: what WireGuard reads are whole packets and, after
  \<^verbatim>\<open>Close\<close>, only the closed error. No packet is read twice or made up, and until \<^verbatim>\<open>Close\<close> none is
  lost: what was queued is what was read, what waits in a send and what is still queued. The order
  is kept when the calls of \<^verbatim>\<open>WriteNotify\<close> do not overlap. A send panics after \<^verbatim>\<open>Close\<close> only.
\<close>

theorem tun_queue_correct:
  assumes "tun_run (newTunQueue dev) as q" and "\<not> nt_closed dev" and "offset \<le> buflen"
    and "\<forall>p \<in> set (packets_out as). viewRead p (buflen - offset) = Some (length p)"
  shows "(\<exists>k. tun_reads viewRead buflen offset as = map TunData (packets_out as) @ replicate k TunErrClosed) \<and>
    mset (packets_out as) + mset (tq_sending q) + mset (tq_queue q) \<subseteq># mset (packets_in as) \<and>
    (TunClose \<notin> set as \<longrightarrow>
       mset (packets_out as) + mset (tq_sending q) + mset (tq_queue q) = mset (packets_in as) \<and>
       (tun_seq_run (newTunQueue dev) as q \<longrightarrow> packets_out as @ tq_sending q @ tq_queue q = packets_in as) \<and>
       (\<forall>p. TunSendPanic p \<notin> set as))"
  using tun_run_packets [OF assms(1) refl assms(2)] tun_run_reads [OF assms(1) refl assms(2, 3), of viewRead] assms(4)
    tun_seq_run_order [OF _ refl assms(2)] tun_run_panic [OF assms(1) refl assms(2)]
  by blast

section \<open>Overlapping calls\<close>

definition ex_tun :: netTun where
  "ex_tun = \<lparr>nt_mtu = 1280, nt_epMTU = 1280, nt_nicMTU = 1280, nt_events = [EventUp], nt_dnsServers = [], nt_hasV4 = True,
    nt_hasV6 = False, nt_addresses = [], nt_routes = [IPv4Proto], nt_injected = [], nt_closed = False\<rparr>"

lemma ex_tun_open [simp]: "\<not> nt_closed ex_tun"
  by (simp add: ex_tun_def)

lemma tun_run_snoc: "tun_run q as q1 \<Longrightarrow> tun_step q1 a q2 \<Longrightarrow> as' = as @ [a] \<Longrightarrow> q2' = q2 \<Longrightarrow> tun_run q as' q2'"
  by (simp add: tun_run.step)

text \<open>
  Two calls of \<^verbatim>\<open>WriteNotify\<close> that overlap may hand over their packets in the other order, and a
  \<^verbatim>\<open>Close\<close> while a call waits in its send makes that send panic.
\<close>

lemma ex_tun_two:
  "tun_run (newTunQueue ex_tun) [TunQueued [69], TunQueued [70], TunNotify, TunNotify]
     \<lparr>tq_dev = ex_tun, tq_queue = [], tq_sending = [[69], [70]]\<rparr>"
proof -
  let ?q = "\<lambda>s qs. \<lparr>tq_dev = ex_tun, tq_queue = qs, tq_sending = s\<rparr>"
  have "tun_run (newTunQueue ex_tun) [TunQueued [69]] (?q [] [[69]])"
    by (rule tun_run_snoc [OF tun_run.stop tun_step.queued]) (simp_all add: newTunQueue_def tun_queue_cap_def)
  then have "tun_run (newTunQueue ex_tun) [TunQueued [69], TunQueued [70]] (?q [] [[69], [70]])"
    by (rule tun_run_snoc [OF _ tun_step.queued]) (simp_all add: tun_queue_cap_def)
  then have "tun_run (newTunQueue ex_tun) [TunQueued [69], TunQueued [70], TunNotify] (?q [[69]] [[70]])"
    by (rule tun_run_snoc [OF _ tun_step.notify]) (simp_all add: netTun_WriteNotify_def)
  then show ?thesis
    by (rule tun_run_snoc [OF _ tun_step.notify]) (simp_all add: netTun_WriteNotify_def)
qed

theorem tun_overlap_reorders:
  "tun_run (newTunQueue ex_tun)
      [TunQueued [69], TunQueued [70], TunNotify, TunNotify, TunReceive [70], TunReceive [69]] (newTunQueue ex_tun)"
proof -
  have "tun_run (newTunQueue ex_tun) [TunQueued [69], TunQueued [70], TunNotify, TunNotify, TunReceive [70]]
      \<lparr>tq_dev = ex_tun, tq_queue = [], tq_sending = [[69]]\<rparr>"
    by (rule tun_run_snoc [OF ex_tun_two tun_step.receive [where xs = "[[69]]" and ys = "[]"]]) simp_all
  then show ?thesis
    by (rule tun_run_snoc [OF _ tun_step.receive [where xs = "[]" and ys = "[]"]]) (simp_all add: newTunQueue_def)
qed

theorem tun_close_panics:
  "\<exists>q. tun_run (newTunQueue ex_tun)
      [TunQueued [69], TunQueued [70], TunNotify, TunNotify, TunClose, TunSendPanic [69]] q"
proof -
  have "tun_run (newTunQueue ex_tun) [TunQueued [69], TunQueued [70], TunNotify, TunNotify, TunClose]
      \<lparr>tq_dev = ex_tun\<lparr>nt_closed := True\<rparr>, tq_queue = [], tq_sending = [[69], [70]]\<rparr>"
    by (rule tun_run_snoc [OF ex_tun_two tun_step.close]) (simp_all add: netTun_Close_def)
  from tun_run.step [OF this tun_step.send_panic [where xs = "[]" and p = "[69]" and ys = "[[70]]"]]
  show ?thesis by auto
qed

theorem tun_queue_correct_witness:
  "\<exists>k. tun_reads (\<lambda>p n. if p = [] then None else Some (min (length p) n)) 1516 16
      [TunQueued [69], TunQueued [70], TunNotify, TunNotify, TunReceive [70], TunReceive [69]] =
    [TunData [70], TunData [69]] @ replicate k TunErrClosed"
proof -
  let ?as = "[TunQueued [69], TunQueued [70], TunNotify, TunNotify, TunReceive [70], TunReceive [69]]"
  have out: "packets_out ?as = [[70], [69]]" by (simp add: packets_out_def List.map_filter_def)
  show ?thesis
    using tun_queue_correct [OF tun_overlap_reorders, of 16 1516 "\<lambda>p n. if p = [] then None else Some (min (length p) n)"]
    unfolding out by simp
qed

end
