(* ===== verification/Tunnel_System.thy ===== *)
theory Tunnel_System
  imports Tunnel
begin

text \<open>
  The goroutines of a running tunnel (\<^verbatim>\<open>runTunnel\<close> of \<^verbatim>\<open>tunnel.go\<close>): the supervising loop, the retry
  before the first handshake, the echo pinger and the recoveries the loop starts, with the
  channels between them, the two levels of contexts and the wait group. What each of them decides
  is a function of \<open>Tunnel\<close> or \<open>UdpEcho\<close>; here they run side by side, and a step relation has one
  rule for every way in which one of them, or two at a rendezvous, can go on.
\<close>

section \<open>Goroutines\<close>

text \<open>A worker that has nothing left but to report the exhaustion of its endpoints is signalling.\<close>

datatype retry_worker = RetryLive retry | RetrySignal | RetryGone

datatype ping_worker = PingLive udpEchoHealth | PingOffer udpEchoHealthEvent udpEchoHealth | PingGone

record recovery_worker =
  rw_current :: string \<comment> \<open>the endpoint in use when it was started\<close>
  rw_cancelled :: bool \<comment> \<open>its own context was cancelled\<close>
  rw_signalling :: bool

text \<open>The loop; then the deferred calls up to \<^verbatim>\<open>workerWG.Wait\<close>; then \<^verbatim>\<open>dev.Close\<close> and the return.\<close>

datatype super = SupLoop supervisor | SupWait tunnel_exit | SupReturned tunnel_exit

text \<open>
  \<open>ty_cancelled\<close> is \<^verbatim>\<open>lifecycleCtx\<close>, \<open>ty_renegotiate\<close> and \<open>ty_echoStopped\<close> are the channels of capacity
  one, \<open>ty_workerWG\<close> the counter of the wait group.
\<close>

record tunnel_sys =
  ty_super :: super
  ty_cancelled :: bool
  ty_renegotiate :: bool
  ty_echoStopped :: "pinger_exit option"
  ty_retry :: retry_worker
  ty_ping :: ping_worker
  ty_recoveries :: "recovery_worker list"
  ty_workerWG :: int
  ty_devClosed :: bool

definition worker_Done :: "tunnel_sys \<Rightarrow> tunnel_sys" where
  "worker_Done s = s\<lparr>ty_workerWG := ty_workerWG s - 1\<rparr>"

definition cancel_worker :: "recovery_worker \<Rightarrow> recovery_worker" where
  "cancel_worker w = w\<lparr>rw_cancelled := True\<rparr>"

text \<open>
  What a turn of the loop from \<open>sv\<close> does to the other goroutines: a cancelled recovery finds its
  context closed, a new one is added to the wait group, and the end of the loop cancels all.
\<close>

definition super_react :: "supervisor \<Rightarrow> supervise_result \<Rightarrow> tunnel_sys \<Rightarrow> tunnel_sys" where
  "super_react sv r s =
     (case r of
        Supervising sv' \<Rightarrow>
          (let s1 = s\<lparr>ty_super := SupLoop sv'\<rparr>;
               s2 = (if sv_cancelled sv < sv_cancelled sv'
                     then s1\<lparr>ty_recoveries := map cancel_worker (ty_recoveries s1)\<rparr> else s1)
           in if length (sv_started sv) < length (sv_started sv')
              then s2\<lparr>ty_recoveries := ty_recoveries s2 @ [\<lparr>rw_current = last (sv_started sv'), rw_cancelled = False, rw_signalling = False\<rparr>],
                      ty_workerWG := ty_workerWG s2 + 1\<rparr>
              else s2)
      | SupervisionEnds x sv' \<Rightarrow>
          s\<lparr>ty_super := SupWait x, ty_cancelled := True, ty_recoveries := map cancel_worker (ty_recoveries s)\<rparr>)"

text \<open>The state of the retry after an iteration of its loop.\<close>

fun retry_after :: "retry_result \<Rightarrow> retry_worker" where
  "retry_after (RetryNext st) = RetryLive st"
| "retry_after (RetryExhausted st) = RetrySignal"
| "retry_after (RetryStopped st) = RetryGone"
| "retry_after (RetryHandshake st) = RetryGone"

definition retry_turn :: "retry_result \<Rightarrow> tunnel_sys \<Rightarrow> tunnel_sys" where
  "retry_turn r s =
     (if retry_after r = RetryGone then worker_Done (s\<lparr>ty_retry := RetryGone\<rparr>) else s\<lparr>ty_retry := retry_after r\<rparr>)"

text \<open>The pinger after the result of a request: its health machine decides whether it reports.\<close>

definition ping_turn :: "bool \<Rightarrow> udpEchoHealth \<Rightarrow> ping_worker" where
  "ping_turn matched h =
     (case health_observe h matched of
        (h', None, _) \<Rightarrow> PingLive h'
      | (h', Some e, _) \<Rightarrow> PingOffer e h')"

text \<open>\<^verbatim>\<open>signalEndpointExhaustion\<close>, and the select statement at the end of a recovery: which of its cases
  can be taken, the send (\<open>True\<close>) and the end of the context (\<open>False\<close>).\<close>

definition signalEndpointExhaustion :: "bool \<Rightarrow> bool \<Rightarrow> bool set" where
  "signalEndpointExhaustion ctxDone full = (if full then {} else {True}) \<union> (if ctxDone then {False} else {})"

section \<open>Steps\<close>

text \<open>The arguments of the workers that do not change.\<close>

record 'm retry_conf =
  rf_switch :: "'m switch_conf"
  rf_endpoint :: string \<comment> \<open>the endpoint that was negotiated\<close>
  rf_queue :: "string list"
  rf_types :: "string \<rightharpoonup> string"
  rf_devUpTime :: instant

inductive tsys_step :: "'m retry_conf \<Rightarrow> tunnel_sys \<Rightarrow> tunnel_sys \<Rightarrow> bool" for c :: "'m retry_conf" where
  parent_cancelled:
    "tsys_step c s (s\<lparr>ty_cancelled := True\<rparr>)"
| retry_iteration:
    "ty_retry s = RetryLive st \<Longrightarrow> (re_event env = RetryCtxDone \<longrightarrow> ty_cancelled s) \<Longrightarrow>
     tsys_step c s (retry_turn (retry_iter (rf_switch c) (rf_queue c) (rf_types c) (rf_devUpTime c) env st) s)"
| retry_signals:
    "ty_retry s = RetrySignal \<Longrightarrow> sent \<in> signalEndpointExhaustion (ty_cancelled s) (ty_renegotiate s) \<Longrightarrow>
     tsys_step c s (worker_Done (s\<lparr>ty_retry := RetryGone, ty_renegotiate := ty_renegotiate s \<or> sent\<rparr>))"
| ping_result:
    "ty_ping s = PingLive h \<Longrightarrow> tsys_step c s (s\<lparr>ty_ping := ping_turn matched h\<rparr>)"
| ping_stops:
    "ty_ping s \<noteq> PingGone \<Longrightarrow> ty_cancelled s \<Longrightarrow> tsys_step c s (worker_Done (s\<lparr>ty_ping := PingGone\<rparr>))"
| ping_fails:
    "ty_ping s = PingLive h \<Longrightarrow> e \<notin> {PingerNil, PingerPanic} \<Longrightarrow>
     tsys_step c s (worker_Done (s\<lparr>ty_ping := PingGone, ty_echoStopped := Some e\<rparr>))"
| ping_unavailable:
    "ty_ping s = PingLive newHealth \<Longrightarrow> tsys_step c s (worker_Done (s\<lparr>ty_ping := PingGone\<rparr>))"
| health:
    "ty_super s = SupLoop sv \<Longrightarrow> ty_ping s = PingOffer e h \<Longrightarrow>
     tsys_step c s (super_react sv (supervise sv (Health e ipc now)) (s\<lparr>ty_ping := PingLive h\<rparr>))"
| echo_stopped:
    "ty_super s = SupLoop sv \<Longrightarrow> ty_echoStopped s = Some e \<Longrightarrow>
     tsys_step c s (super_react sv (supervise sv (EchoStopped e)) (s\<lparr>ty_echoStopped := None\<rparr>))"
| renegotiate:
    "ty_super s = SupLoop sv \<Longrightarrow> ty_renegotiate s \<Longrightarrow>
     tsys_step c s (super_react sv (supervise sv Renegotiate) (s\<lparr>ty_renegotiate := False\<rparr>))"
| lifecycle_done:
    "ty_super s = SupLoop sv \<Longrightarrow> ty_cancelled s \<Longrightarrow> tsys_step c s (super_react sv (supervise sv LifecycleDone) s)"
| recovery_exhausted:
    "ty_recoveries s = ws @ w # ws' \<Longrightarrow>
     snd (recoverWireGuardEndpoints alive env (rf_switch c) (rw_current w) (rf_endpoint c # rf_queue c)) = RecoveryExhausted \<Longrightarrow>
     tsys_step c s (s\<lparr>ty_recoveries := ws @ w\<lparr>rw_signalling := True\<rparr> # ws'\<rparr>)"
| recovery_signals:
    "ty_recoveries s = ws @ w # ws' \<Longrightarrow> rw_signalling w \<Longrightarrow>
     sent \<in> signalEndpointExhaustion (rw_cancelled w \<or> ty_cancelled s) (ty_renegotiate s) \<Longrightarrow>
     tsys_step c s (worker_Done (s\<lparr>ty_recoveries := ws @ ws', ty_renegotiate := ty_renegotiate s \<or> sent\<rparr>))"
| recovery_stops:
    "ty_recoveries s = ws @ w # ws' \<Longrightarrow> rw_cancelled w \<or> ty_cancelled s \<Longrightarrow>
     tsys_step c s (worker_Done (s\<lparr>ty_recoveries := ws @ ws'\<rparr>))"
| waited:
    "ty_super s = SupWait x \<Longrightarrow> ty_workerWG s = 0 \<Longrightarrow>
     tsys_step c s (s\<lparr>ty_super := SupReturned x, ty_devClosed := True\<rparr>)"

abbreviation tsys_steps :: "'m retry_conf \<Rightarrow> tunnel_sys \<Rightarrow> tunnel_sys \<Rightarrow> bool" where
  "tsys_steps c \<equiv> (tsys_step c)\<^sup>*\<^sup>*"

text \<open>The loop starts: the retry and the pinger are running.\<close>

definition newTunnelSys :: "wireGuardPeerStats \<Rightarrow> retry \<Rightarrow> tunnel_sys" where
  "newTunnelSys baseline st =
     \<lparr>ty_super = SupLoop \<lparr>sv_baseline = baseline, sv_recovering = False, sv_started = [], sv_cancelled = 0\<rparr>,
      ty_cancelled = False, ty_renegotiate = False, ty_echoStopped = None,
      ty_retry = RetryLive st, ty_ping = PingLive newHealth, ty_recoveries = [], ty_workerWG = 2, ty_devClosed = False\<rparr>"

section \<open>Invariant\<close>

definition live_workers :: "tunnel_sys \<Rightarrow> nat" where
  "live_workers s =
     (if ty_retry s = RetryGone then 0 else 1) + (if ty_ping s = PingGone then 0 else 1) + length (ty_recoveries s)"

definition free_recoveries :: "tunnel_sys \<Rightarrow> recovery_worker list" where
  "free_recoveries s = filter (\<lambda>w. \<not> rw_cancelled w) (ty_recoveries s)"

definition super_inv :: "tunnel_sys \<Rightarrow> bool" where
  "super_inv s =
     (case ty_super s of
        SupLoop sv \<Rightarrow>
          \<not> ty_devClosed s \<and> supervised (Supervising sv) \<and>
          length (free_recoveries s) \<le> (if sv_recovering sv then 1 else 0)
      | SupWait x \<Rightarrow> \<not> ty_devClosed s \<and> ty_cancelled s \<and> free_recoveries s = []
      | SupReturned x \<Rightarrow> ty_devClosed s \<and> ty_workerWG s = 0 \<and> ty_cancelled s)"

definition tsys_inv :: "tunnel_sys \<Rightarrow> bool" where
  "tsys_inv s = (ty_workerWG s = int (live_workers s) \<and> super_inv s)"

lemmas tsys_defs = tsys_inv_def super_inv_def live_workers_def free_recoveries_def worker_Done_def

lemma tsys_inv_new: "tsys_inv (newTunnelSys b st)"
  by (simp add: tsys_inv_def newTunnelSys_def live_workers_def super_inv_def free_recoveries_def)

text \<open>The loop goes on in one of three ways: as before, with its recovery cancelled, or with a new one.\<close>

lemma supervise_goes_on:
  assumes "supervise sv e = Supervising sv'"
  shows "sv_started sv' = sv_started sv \<and> sv_cancelled sv' = sv_cancelled sv \<and> sv_recovering sv' = sv_recovering sv \<or>
    sv_started sv' = sv_started sv \<and> sv_cancelled sv < sv_cancelled sv' \<and> sv_recovering sv \<and> \<not> sv_recovering sv' \<or>
    length (sv_started sv') = Suc (length (sv_started sv)) \<and> sv_cancelled sv' = sv_cancelled sv \<and>
      \<not> sv_recovering sv \<and> sv_recovering sv'"
  using assms by (cases e) (auto simp: cancel_recovery_def startWireGuardEndpointRecovery_def Let_def
      split: udpEchoHealthEvent.splits if_splits)

lemma free_cancelled [simp]: "filter (\<lambda>w. \<not> rw_cancelled w) (map cancel_worker ws) = []"
  by (induction ws) (simp_all add: cancel_worker_def)

lemma super_react_inv:
  assumes "ty_super s = SupLoop sv" and "tsys_inv s"
  shows "tsys_inv (super_react sv (supervise sv e) s)"
proof (cases "supervise sv e")
  case (SupervisionEnds x sv')
  with assms show ?thesis
    by (auto simp: tsys_defs super_react_def)
next
  case (Supervising sv')
  have sup: "supervised (Supervising sv')"
    using supervise_supervised [of sv e] assms Supervising by (simp add: tsys_inv_def super_inv_def)
  have wg: "ty_workerWG s = int (live_workers s)" and dev: "\<not> ty_devClosed s"
    and free: "length (free_recoveries s) \<le> (if sv_recovering sv then 1 else 0)"
    using assms by (simp_all add: tsys_inv_def super_inv_def)
  from supervise_goes_on [OF Supervising] sup wg dev free show ?thesis
    unfolding Supervising by (elim disjE)
      (auto simp: tsys_defs super_react_def
        simp del: supervised.simps split: if_splits)
qed

lemma tsys_inv_step:
  assumes "tsys_step c s s'" and "tsys_inv s"
  shows "tsys_inv s'"
  using assms(1)
proof cases
  case (health sv e h ipc now)
  have "tsys_inv (s\<lparr>ty_ping := PingLive h\<rparr>)"
    using assms(2) health by (auto simp: tsys_defs)
  then show ?thesis unfolding health(1) by (intro super_react_inv) (simp_all add: health)
next
  case (echo_stopped sv e)
  have "tsys_inv (s\<lparr>ty_echoStopped := None\<rparr>)"
    using assms(2) echo_stopped by (auto simp: tsys_defs)
  then show ?thesis unfolding echo_stopped(1) by (intro super_react_inv) (simp_all add: echo_stopped)
next
  case (renegotiate sv)
  have "tsys_inv (s\<lparr>ty_renegotiate := False\<rparr>)"
    using assms(2) renegotiate by (auto simp: tsys_defs)
  then show ?thesis unfolding renegotiate(1) by (intro super_react_inv) (simp_all add: renegotiate)
next
  case (lifecycle_done sv)
  show ?thesis unfolding lifecycle_done(1) by (rule super_react_inv [OF lifecycle_done(2) assms(2)])
next
  case parent_cancelled
  with assms(2) show ?thesis by (auto simp: tsys_defs split: super.splits if_splits)
next
  case (retry_iteration st env)
  with assms(2) show ?thesis
    by (auto simp: retry_turn_def tsys_defs split: super.splits if_splits)
next
  case (retry_signals sent)
  with assms(2) show ?thesis
    by (auto simp: tsys_defs split: super.splits if_splits)
next
  case (ping_result h matched)
  then have "ty_ping s' \<noteq> PingGone" by (simp add: ping_turn_def split: prod.splits option.splits)
  with ping_result assms(2) show ?thesis
    by (auto simp: tsys_defs split: super.splits if_splits)
next
  case ping_stops
  with assms(2) show ?thesis
    by (auto simp: tsys_defs split: super.splits if_splits)
next
  case (ping_fails h e)
  with assms(2) show ?thesis
    by (auto simp: tsys_defs split: super.splits if_splits)
next
  case ping_unavailable
  with assms(2) show ?thesis
    by (auto simp: tsys_defs split: super.splits if_splits)
next
  case (recovery_exhausted ws w ws' alive env)
  with assms(2) show ?thesis
    by (auto simp: tsys_defs split: super.splits if_splits)
next
  case (recovery_signals ws w ws' sent)
  with assms(2) show ?thesis
    by (auto simp: tsys_defs split: super.splits if_splits)
next
  case (recovery_stops ws w ws')
  with assms(2) show ?thesis
    by (auto simp: tsys_defs split: super.splits if_splits)
next
  case (waited x)
  with assms(2) show ?thesis by (auto simp: tsys_inv_def super_inv_def live_workers_def)
qed

lemma tsys_inv_steps: "tsys_steps c s s' \<Longrightarrow> tsys_inv s \<Longrightarrow> tsys_inv s'"
  by (induction rule: rtranclp_induct) (auto intro: tsys_inv_step)

section \<open>Shutdown\<close>

text \<open>Once the loop has ended, its exit stays.\<close>

lemma exit_stays_step:
  "tsys_step c s s' \<Longrightarrow> ty_super s \<in> {SupWait x, SupReturned x} \<Longrightarrow> ty_super s' \<in> {SupWait x, SupReturned x}"
  by (cases rule: tsys_step.cases) (auto simp: worker_Done_def retry_turn_def split: if_splits)

lemma exit_stays: "tsys_steps c s s' \<Longrightarrow> ty_super s \<in> {SupWait x, SupReturned x} \<Longrightarrow> ty_super s' \<in> {SupWait x, SupReturned x}"
  by (induction rule: rtranclp_induct) (auto dest: exit_stays_step)

lemma no_new_workers_step:
  assumes "tsys_step c s s'" and "ty_super s \<in> {SupWait x, SupReturned x}"
  shows "live_workers s' \<le> live_workers s"
  using assms by (cases rule: tsys_step.cases) (auto simp: worker_Done_def retry_turn_def live_workers_def split: if_splits)

lemma no_new_workers:
  assumes "tsys_steps c s s'" and "ty_super s \<in> {SupWait x, SupReturned x}"
  shows "live_workers s' \<le> live_workers s"
  using assms
proof (induction rule: rtranclp_induct)
  case (step y z)
  with exit_stays [of c s y x] no_new_workers_step [of c y z x] show ?case by simp
qed simp

text \<open>A worker that is left can end, and ends the wait a bit nearer.\<close>

lemma worker_can_end:
  assumes "ty_super s = SupWait x" and "ty_cancelled s" and "0 < live_workers s"
  shows "\<exists>s'. tsys_step c s s' \<and> ty_super s' = SupWait x \<and> ty_cancelled s' \<and> Suc (live_workers s') = live_workers s"
proof -
  consider (retry) st where "ty_retry s = RetryLive st" | (signal) "ty_retry s = RetrySignal"
    | (ping) "ty_retry s = RetryGone" "ty_ping s \<noteq> PingGone"
    | (recovery) w ws where "ty_retry s = RetryGone" "ty_ping s = PingGone" "ty_recoveries s = w # ws"
    using assms(3) by (cases "ty_retry s"; cases "ty_ping s"; cases "ty_recoveries s") (auto simp: live_workers_def)
  then show ?thesis
  proof cases
    case retry
    let ?env = "(ex_tick 0)\<lparr>re_event := RetryCtxDone\<rparr>"
    from tsys_step.retry_iteration [OF retry, of ?env c] assms retry show ?thesis
      by (intro exI [of _ "worker_Done (s\<lparr>ty_retry := RetryGone\<rparr>)"])
        (simp add: retry_iter_def retry_turn_def worker_Done_def live_workers_def)
  next
    case signal
    from tsys_step.retry_signals [OF signal, of False c] assms signal show ?thesis
      by (intro exI [of _ "worker_Done (s\<lparr>ty_retry := RetryGone\<rparr>)"])
        (simp add: signalEndpointExhaustion_def worker_Done_def live_workers_def)
  next
    case ping
    from tsys_step.ping_stops [OF ping(2) assms(2), of c] assms ping show ?thesis
      by (intro exI [of _ "worker_Done (s\<lparr>ty_ping := PingGone\<rparr>)"]) (simp add: worker_Done_def live_workers_def)
  next
    case recovery
    from tsys_step.recovery_stops [of s "[]" w ws c] assms recovery show ?thesis
      by (intro exI [of _ "worker_Done (s\<lparr>ty_recoveries := ws\<rparr>)"]) (simp add: worker_Done_def live_workers_def)
  qed
qed

lemma shutdown_completes:
  assumes "tsys_inv s" and "ty_super s = SupWait x"
  shows "\<exists>s'. tsys_steps c s s' \<and> ty_super s' = SupReturned x"
  using assms
proof (induction "live_workers s" arbitrary: s)
  case 0
  then have "ty_workerWG s = 0" by (simp add: tsys_inv_def)
  with 0 show ?case
    by (intro exI [of _ "s\<lparr>ty_super := SupReturned x, ty_devClosed := True\<rparr>"]) (auto intro: tsys_step.waited)
next
  case (Suc n)
  have "ty_cancelled s" using Suc.prems by (simp add: tsys_inv_def super_inv_def)
  then obtain s1 where s1: "tsys_step c s s1" "ty_super s1 = SupWait x" "Suc (live_workers s1) = live_workers s"
    using worker_can_end [of s x c] Suc by auto
  then have "\<exists>s'. tsys_steps c s1 s' \<and> ty_super s' = SupReturned x"
    using Suc by (intro Suc.hyps(1)) (auto intro: tsys_inv_step)
  with s1(1) show ?case by (meson converse_rtranclp_into_rtranclp)
qed

section \<open>Properties\<close>

text \<open>
  C16. The goroutines of a tunnel, in every interleaving: the wait group counts exactly the workers
  that are alive, at most one recovery runs whose context is open, and the device is closed only
  when every worker has ended, so that none of them uses a closed device.
\<close>

theorem tunnel_workers:
  assumes "tsys_steps c (newTunnelSys baseline st) s"
  shows "ty_workerWG s = int (live_workers s) \<and> length (free_recoveries s) \<le> 1 \<and>
    (ty_devClosed s \<longrightarrow> ty_retry s = RetryGone \<and> ty_ping s = PingGone \<and> ty_recoveries s = [])"
proof -
  have "tsys_inv s" using tsys_inv_steps [OF assms tsys_inv_new] .
  then show ?thesis
    by (auto simp: tsys_defs split: super.splits if_splits)
qed

text \<open>
  C17. The shutdown of a tunnel cannot get stuck: once the loop has ended, no worker is added, and
  whatever the goroutines still do, they can all end after it, so that the wait returns and
  \<^verbatim>\<open>runTunnel\<close> with it, with the exit of the loop.
\<close>

theorem tunnel_shutdown:
  assumes "tsys_steps c (newTunnelSys baseline st) s" and "ty_super s = SupWait x" and "tsys_steps c s s'"
  shows "live_workers s' \<le> live_workers s \<and> ty_super s' \<in> {SupWait x, SupReturned x} \<and>
    (\<exists>s''. tsys_steps c s' s'' \<and> ty_super s'' = SupReturned x)"
proof (intro conjI)
  show "live_workers s' \<le> live_workers s" using no_new_workers [OF assms(3), of x] assms(2) by simp
  show e: "ty_super s' \<in> {SupWait x, SupReturned x}" using exit_stays [OF assms(3), of x] assms(2) by simp
  have "tsys_steps c (newTunnelSys baseline st) s'" using assms(1, 3) by simp
  then have "tsys_inv s'" by (rule tsys_inv_steps [OF _ tsys_inv_new])
  with e show "\<exists>s''. tsys_steps c s' s'' \<and> ty_super s'' = SupReturned x"
    using shutdown_completes [of s' x c] by auto
qed

section \<open>A request for renegotiation that is out of date\<close>

text \<open>The pinger counts failures one by one.\<close>

lemma ping_failures:
  assumes "ty_ping s = PingLive \<lparr>uh_ready = True, uh_consecutiveFailures = 0\<rparr>" and "n < maxConsecutiveEchoFailures"
  shows "tsys_steps c s (s\<lparr>ty_ping := PingLive \<lparr>uh_ready = True, uh_consecutiveFailures = n\<rparr>\<rparr>)"
  using assms
proof (induction n)
  case 0
  then have "s\<lparr>ty_ping := PingLive \<lparr>uh_ready = True, uh_consecutiveFailures = 0\<rparr>\<rparr> = s" by simp
  then show ?case by simp
next
  case (Suc n)
  let ?s = "s\<lparr>ty_ping := PingLive \<lparr>uh_ready = True, uh_consecutiveFailures = n\<rparr>\<rparr>"
  have "tsys_step c ?s (s\<lparr>ty_ping := PingLive \<lparr>uh_ready = True, uh_consecutiveFailures = Suc n\<rparr>\<rparr>)"
    using tsys_step.ping_result [of ?s _ c False] Suc.prems by (simp add: ping_turn_def health_observe_def Let_def)
  with Suc show ?case by (auto intro: rtranclp.rtrancl_into_rtrancl)
qed

text \<open>The twelfth failure starts a recovery when WireGuard's statistics show no life.\<close>

lemma unhealthy_recovers:
  assumes "ty_super s = SupLoop sv" and "\<not> sv_recovering sv"
    and "ty_ping s = PingLive \<lparr>uh_ready = True, uh_consecutiveFailures = 0\<rparr>"
  shows "tsys_steps c s (s\<lparr>ty_super := SupLoop (startWireGuardEndpointRecovery [] sv),
    ty_recoveries := ty_recoveries s @ [\<lparr>rw_current = [], rw_cancelled = False, rw_signalling = False\<rparr>], ty_workerWG := ty_workerWG s + 1\<rparr>)"
    (is "tsys_steps c s ?r")
proof -
  let ?h = "\<lparr>uh_ready = True, uh_consecutiveFailures = 0\<rparr>"
  let ?s11 = "s\<lparr>ty_ping := PingLive \<lparr>uh_ready = True, uh_consecutiveFailures = 11\<rparr>\<rparr>"
  let ?s12 = "s\<lparr>ty_ping := PingOffer UdpEchoUnhealthy ?h\<rparr>"
  have "tsys_steps c s ?s11" by (rule ping_failures) (simp_all add: assms maxConsecutiveEchoFailures_def)
  moreover have "tsys_step c ?s11 ?s12"
    using tsys_step.ping_result [of ?s11 _ c False]
    by (simp add: ping_turn_def health_observe_def Let_def maxConsecutiveEchoFailures_def)
  moreover have "s\<lparr>ty_ping := PingLive ?h\<rparr> = s" using assms(3) by simp
  then have "tsys_step c ?s12 ?r"
    using tsys_step.health [of ?s12 sv _ ?h c None 0] assms(1, 2)
    by (simp add: readWireGuardPeerStats_def noPeerStats_def wireGuardPathActiveSince_def super_react_def
        startWireGuardEndpointRecovery_def Let_def)
  ultimately show ?thesis by (meson rtranclp.rtrancl_into_rtrancl)
qed

text \<open>A success is delivered to the loop, and ends its recovery.\<close>

lemma healthy_delivered:
  assumes "ty_super s = SupLoop sv" and "ty_ping s = PingLive h"
  shows "tsys_steps c s (super_react sv (Supervising (cancel_recovery (sv\<lparr>sv_baseline := noPeerStats\<rparr>)))
    (s\<lparr>ty_ping := PingLive \<lparr>uh_ready = True, uh_consecutiveFailures = 0\<rparr>\<rparr>))"
proof -
  let ?h = "\<lparr>uh_ready = True, uh_consecutiveFailures = 0\<rparr>" and ?s1 = "s\<lparr>ty_ping := PingOffer UdpEchoHealthy \<lparr>uh_ready = True, uh_consecutiveFailures = 0\<rparr>\<rparr>"
  have "tsys_step c s ?s1"
    using tsys_step.ping_result [OF assms(2), of c True] by (cases h) (simp add: ping_turn_def health_observe_def)
  moreover have "tsys_step c ?s1 (super_react sv (Supervising (cancel_recovery (sv\<lparr>sv_baseline := noPeerStats\<rparr>))) (s\<lparr>ty_ping := PingLive ?h\<rparr>))"
    using tsys_step.health [of ?s1 sv UdpEchoHealthy ?h c None 0] assms(1) by (simp add: readWireGuardPeerStats_def)
  ultimately show ?thesis by (auto intro: rtranclp.rtrancl_into_rtrancl)
qed


theorem tunnel_workers_witness:
  "\<exists>(c :: byte list retry_conf) baseline st s. tsys_steps c (newTunnelSys baseline st) s \<and> ty_workerWG s = int (live_workers s) \<and> live_workers s = 3"
proof -
  let ?c = "\<lparr>rf_switch = ex_switch_conf, rf_endpoint = [], rf_queue = [], rf_types = Map.empty, rf_devUpTime = 0\<rparr>"
  let ?st = "\<lparr>rt_current = [], rt_queueIdx = 0, rt_lastSwitch = 0, rt_listening = False, rt_switches = [], rt_probes = [], rt_initiations = 0\<rparr>"
  let ?b = "noPeerStats" and ?n = "newTunnelSys noPeerStats ?st"
  let ?sv = "\<lparr>sv_baseline = noPeerStats, sv_recovering = False, sv_started = [], sv_cancelled = 0\<rparr>"
  let ?s = "?n\<lparr>ty_ping := PingLive \<lparr>uh_ready = True, uh_consecutiveFailures = 0\<rparr>\<rparr>"
  let ?r = "?s\<lparr>ty_super := SupLoop (startWireGuardEndpointRecovery [] ?sv), ty_recoveries := [\<lparr>rw_current = [], rw_cancelled = False, rw_signalling = False\<rparr>], ty_workerWG := 3\<rparr>"
  have "tsys_steps ?c ?n ?s"
    using healthy_delivered [of ?n ?sv newHealth ?c] by (simp add: newTunnelSys_def super_react_def cancel_recovery_def)
  moreover have "tsys_steps ?c ?s ?r"
    using unhealthy_recovers [of ?s ?sv ?c] by (simp add: newTunnelSys_def)
  ultimately have "tsys_steps ?c ?n ?r" by simp
  from tunnel_workers [OF this] this show ?thesis
    by (intro exI [of _ ?c] exI [of _ ?b] exI [of _ ?st] exI [of _ ?r]) (simp add: live_workers_def newTunnelSys_def)
qed

theorem tunnel_shutdown_witness:
  "\<exists>(c :: byte list retry_conf) baseline st s s'. tsys_steps c (newTunnelSys baseline st) s \<and> ty_super s = SupWait TunnelCancelled \<and>
     tsys_steps c s s' \<and> ty_super s' = SupReturned TunnelCancelled"
proof -
  let ?c = "\<lparr>rf_switch = ex_switch_conf, rf_endpoint = [], rf_queue = [], rf_types = Map.empty, rf_devUpTime = 0\<rparr>"
  let ?st = "\<lparr>rt_current = [], rt_queueIdx = 0, rt_lastSwitch = 0, rt_listening = False, rt_switches = [], rt_probes = [], rt_initiations = 0\<rparr>"
  let ?s0 = "newTunnelSys noPeerStats ?st"
  let ?s1 = "?s0\<lparr>ty_cancelled := True\<rparr>"
  obtain sv where sv: "ty_super ?s1 = SupLoop sv" by (simp add: newTunnelSys_def)
  let ?s2 = "super_react sv (supervise sv LifecycleDone) ?s1"
  have "tsys_steps ?c ?s0 ?s2"
  proof (rule rtranclp.rtrancl_into_rtrancl)
    show "tsys_steps ?c ?s0 ?s1"
      by (rule r_into_rtranclp) (rule tsys_step.parent_cancelled)
    show "tsys_step ?c ?s1 ?s2" by (rule tsys_step.lifecycle_done [OF sv]) simp
  qed
  moreover have "ty_super ?s2 = SupWait TunnelCancelled" by (simp add: super_react_def)
  ultimately show ?thesis using tunnel_shutdown [OF _ _ rtranclp.rtrancl_refl] by blast
qed

end
