(* ===== verification/Spec2Isabelle.thy ===== *)
theory Spec2Isabelle
  imports Client Tun_Queue Tunnel_System
begin

text \<open>
  This library models the Teleport client, a Go program that joins a console's VPN from the command
  line: it pairs with the console over an HTTPS API, finds a UDP path to it, runs WireGuard in
  user space over that path and offers the network behind it as a local SOCKS5 proxy.

  \<^bold>\<open>The program.\<close> \<^verbatim>\<open>main.go\<close> reads the command line and runs the client. \<^verbatim>\<open>runClient\<close> gets a session
  (\<^verbatim>\<open>establishSession\<close>: a saved file, or an invite redeemed over the API) and then makes connection
  attempts. An attempt makes keys, fetches the ICE servers, opens the outer UDP sockets, gathers
  local candidates (interfaces, and a reflexive one by STUN), sends CONNECT, and negotiates an
  endpoint: the console nominates a tuple by five STUN requests with falling waits, which a listener
  on the outer sockets feeds to the nomination tracker; an observed request and a fallback probe
  are the alternatives. \<^verbatim>\<open>runTunnel\<close> then builds the gVisor device, the WireGuard bind (which keeps
  answering STUN on the same sockets), the path MTU prober with its echo pinger and the proxy, and
  supervises them: it retries candidates before the first handshake, recovers known endpoints after
  a loss, and asks for a new negotiation when that fails.

  \<^bold>\<open>Theories and sources.\<close>
  \<^item> \<open>Go_Prelude\<close>, \<open>Go_Json\<close>, \<open>Go_Base64\<close>, \<open>Net_Addr\<close>: what the client uses of Go's standard library
    (strings and numbers, \<^verbatim>\<open>encoding/json\<close>, base64, \<^verbatim>\<open>net\<close> and \<^verbatim>\<open>net/netip\<close> addresses), the collections
    \<open>go_str\<close> and \<open>go_inv\<close>, and the locales of the library.
  \<^item> \<open>Candidates\<close>: candidates, families, ranking, retry queue (\<^verbatim>\<open>nomination.go\<close>, \<^verbatim>\<open>main.go\<close>, \<^verbatim>\<open>tunnel.go\<close>).
  \<^item> \<open>Nomination\<close>: tracker, STUN responder, early listener, its log, stopping readers, NAT probes and
    the fallback probe (\<^verbatim>\<open>nomination.go\<close>, \<^verbatim>\<open>stun.go\<close>, \<^verbatim>\<open>session.go\<close>).
  \<^item> \<open>PeerMtu\<close>, \<open>UdpEcho\<close>: the prober (\<^verbatim>\<open>peermtu.go\<close>) and the echo pinger (\<^verbatim>\<open>udpecho.go\<close>).
  \<^item> \<open>Tun_Device\<close>, \<open>Tun_Queue\<close>, \<open>Tun_Dns\<close>, \<open>Tun_Dial\<close>: the userspace device, its packet channel, name
    resolution and dialling inside the tunnel (\<^verbatim>\<open>internal/tunnet/tun.go\<close>, \<^verbatim>\<open>internal/tunnet/config.go\<close>).
  \<^item> \<open>WireGuard\<close>: keys, outer sockets, bind, MTU, printed configuration (\<^verbatim>\<open>wireguard.go\<close>).
  \<^item> \<open>Api_Types\<close>, \<open>Api\<close>, \<open>Redaction\<close>, \<open>Session\<close>: the API client and its data (\<^verbatim>\<open>api.go\<close>), what reaches
    the logs (\<^verbatim>\<open>logging.go\<close>, \<^verbatim>\<open>api.go\<close>), the session file (\<^verbatim>\<open>session.go\<close>).
  \<^item> \<open>Tunnel_System\<close>: the goroutines of a running tunnel side by side (\<^verbatim>\<open>tunnel.go\<close>).
  \<^item> \<open>Socks5\<close>, \<open>Ice\<close>, \<open>Flags\<close>, \<open>Negotiation\<close>, \<open>Tunnel\<close>, \<open>Client\<close>: the proxy (\<^verbatim>\<open>socks5.go\<close>), ICE servers
    and the reflexive candidate (\<^verbatim>\<open>stun.go\<close>), the command line, the choice of the endpoint, the
    supervision (\<^verbatim>\<open>tunnel.go\<close>), and the client (\<^verbatim>\<open>main.go\<close>).

  Definitions keep the names of the code: a method \<^verbatim>\<open>T.m\<close> is \<open>T_m\<close> or a short prefix with \<open>m\<close>
  (\<open>tracker_observe\<close>, \<open>prober_Arm\<close>, \<open>bind_Open\<close>); a struct is a record whose fields have a prefix of
  their own; an error is a constructor of a datatype; a run-time panic is a value.

  \<^bold>\<open>State, time and concurrency.\<close> Stateful code passes records. Goroutines that share state under a mutex
  are sequences of calls; where the interleaving matters, in the packet channel of the device and
  among the supervising loop, the retry, the pinger and the recoveries of a tunnel, it is a step
  relation with one rule for every way in which a goroutine can go on. Clock readings, timers, datagrams, HTTP answers and the state of the context are
  arguments: a loop gets the list of what it meets, one entry per iteration, and a result \<open>None\<close>
  means that it has not returned. Where a loop must return, the property says so: from an entry
  that stands for a timer of its own (\<open>PrTimer\<close>, a tick after the limit) it follows that a result
  exists. Reads of a socket depend on the read deadline that the code has set on it (\<open>uc_readDeadline\<close>): a
  receive function of the bind fails once Close has set one, and the discovery of a reflexive
  candidate, whose datagrams come with times, returns because of the one it sets. Lengths and MTUs are \<^typ>\<open>int\<close> or \<^typ>\<open>nat\<close>, far below 63 bits; the MTU of the device, ports,
  bytes and identifiers are words of their width.

  \<^bold>\<open>Bounds and fuel.\<close> Polling has the code's own limits (60, 100 and 200 tries). The JSON reader
  recurses with twice the length of the text as fuel; more fuel never changes what it reads
  (\<open>json_fuel\<close>). The other recursive functions are structural or have a measure.

  \<^bold>\<open>Code that is not in the repository\<close> is an argument: the STUN codec (\<open>stun_lib\<close>), the DNS codec
  (\<open>dns_lib\<close>), gVisor (\<open>stack_lib\<close> and the results of its calls), the WireGuard device (the texts it
  reports and accepts), go-socks5 (which calls \<open>socksResolve\<close> and \<open>socksDial\<close>), the key derivation
  (\<open>kdf\<close>), Curve25519 (\<open>x25519\<close>), \<^verbatim>\<open>url.Parse\<close> (\<open>urlParse\<close>), the \<^verbatim>\<open>flag\<close> package (\<open>flag_values\<close>), the printing
  of floats (\<open>num\<close>), the file system calls (\<open>save_os\<close>) and the sockets and interfaces of the host.

  \<^bold>\<open>Interfaces.\<close> Locales state contracts that several components share: \<open>machine\<close>, \<open>preserving_machine\<close>
  and \<open>resting_machine\<close> (runs of a step function; interpreted by the prober, its search and the
  supervision), \<open>capped_backoff\<close> (by the recovery of endpoints and the reconnect loop),
  \<open>first_seen_queue\<close> (by the retry queue and the recovery order), \<open>text_codec\<close> (by base64) and
  \<open>host_port_codec\<close> (by the joining and splitting of host and port).

  \<^bold>\<open>What is shown.\<close>
  \<^item> Nomination: the tracker refines a specification over histories, selects only a tuple that the
    console nominated, selects every such tuple once it is active, and never panics; datagrams that
    are not authenticated do not move it. The endpoint under \<^verbatim>\<open>--turn\<close> is an advertised relay and under
    \<^verbatim>\<open>-4\<close> an IPv4 address unless \<^verbatim>\<open>--endpoint\<close> gives another, and a negotiation leaves the sockets free for WireGuard. Two properties show the limits: an unauthenticated request can become the
    endpoint, and the bind of a running tunnel nominates tuples that are no relays.
  \<^item> Path: the prober finds the largest milestone within the path's limit in eight probes; from
    configuration to wire, device, NIC and prober agree on an MTU that fits (\<open>tunnel_mtu_end_to_end\<close>).
  \<^item> Tunnel: WireGuard receives exactly what is not STUN; packets leave the device whole and are not
    lost or repeated; retry, recovery and supervision end as documented, with one recovery at most;
    the goroutines of a tunnel are all counted, none outlives the device, and the shutdown can
    always complete (\<open>tunnel_workers\<close>, \<open>tunnel_shutdown\<close>); a request to renegotiate that is out of date
    can end a healthy tunnel.
  \<^item> DNS, dialling and proxy: only matching responses are accepted, the order of the concurrent
    lookups does not matter, dials try the resolved addresses in order, egress is IPv4 only.
  \<^item> API, logs and session: polling equals its specification; no string value that
    is logged of an error response shows a known secret or what is under a sensitive key (keys and
    numbers of the server are copied); the session file is replaced atomically and durably, whatever a
    power failure loses of what was not synced, and read back as granted.
  \<^item> Client: accepted command lines are well formed, the back-off of reconnects, the causes of an
    exit and the exit status.

  \<^bold>\<open>Not modelled.\<close> A panic of another goroutine than the main one as an exit status (where such panics are
  possible, a property or a finding says so); whether a directory that was just made survives a power
  failure. Progress messages of the log (those of the API client are modelled, since redaction is
  about them) and the text form of a log line; the tuning of socket buffers, which has no result;
  the writing of the CPU profile and the signal handler; the fixed answers of the device and the
  bind (\<^verbatim>\<open>Name\<close>, \<^verbatim>\<open>File\<close>, \<^verbatim>\<open>SetMark\<close>); Go's limit of 10000 on the nesting of JSON and its reuse of the
  elements of a slice that occurs twice in an object; build, release and service files.
\<close>

section \<open>The MTU of a tunnel\<close>

lemma createNetTUN_mtu:
  "fst (createNetTUN sk tc addrs dns mtu opts) = Inr dev \<Longrightarrow> nt_mtu dev = of_int mtu \<and> nt_epMTU dev = of_int mtu \<and> nt_nicMTU dev = of_int mtu"
  by (auto simp: createNetTUN_def Let_def tun_add_addresses_eq split: if_splits option.splits)

text \<open>A step of a sequence of checks that ended well.\<close>

lemma case_sum_Inr: "(case r of Inl e \<Rightarrow> Inl (f e) | Inr x \<Rightarrow> g x) = Inr s \<Longrightarrow> (\<And>x. r = Inr x \<Longrightarrow> g x = Inr s \<Longrightarrow> P) \<Longrightarrow> P"
  by (cases r) simp_all

lemma case_option_Inr: "(case r of None \<Rightarrow> Inl e | Some x \<Rightarrow> g x) = Inr s \<Longrightarrow> (\<And>x. r = Some x \<Longrightarrow> g x = Inr s \<Longrightarrow> P) \<Longrightarrow> P"
  by (cases r) simp_all

lemma if_Inr: "(if c then Inl e else g) = Inr s \<Longrightarrow> (\<not> c \<Longrightarrow> g = Inr s \<Longrightarrow> P) \<Longrightarrow> P"
  by (cases c) simp_all

lemma case_prod_Inr: "(case r of (a, b) \<Rightarrow> g a b) = Inr s \<Longrightarrow> (\<And>a b. r = (a, b) \<Longrightarrow> g a b = Inr s \<Longrightarrow> P) \<Longrightarrow> P"
  by (cases r) simp_all

lemma runTunnel_setup_mtu:
  assumes "runTunnel_setup os p = Inr s"
  obtains ep where "tos_resolve os (tp_endpoint p) = Some ep"
    "ts_prober s = newPeerMTUProber (if tp_mtu p = 0 then 1280 else tp_mtu p)
       (if tp_mtu p = 0 then discoverPathMTU (tos_path os) (Some ep) else tp_mtu p) (tp_mtu p)"
    "nt_mtu (ts_device s) = of_int (if tp_mtu p = 0 then 1280 else tp_mtu p)"
    "nt_epMTU (ts_device s) = of_int (if tp_mtu p = 0 then 1280 else tp_mtu p)"
    "nt_nicMTU (ts_device s) = of_int (if tp_mtu p = 0 then 1280 else tp_mtu p)"
proof -
  let ?i = "if tp_mtu p = 0 then baseTunnelMTU else tp_mtu p"
  have "\<exists>ep addrs dns opts. tos_resolve os (tp_endpoint p) = Some ep \<and>
      ts_prober s = newPeerMTUProber ?i (if tp_mtu p = 0 then discoverPathMTU (tos_path os) (Some ep) else tp_mtu p) (tp_mtu p) \<and>
      fst (createNetTUN (tos_stack os) (tos_tcp os) addrs dns ?i opts) = Inr (ts_device s)"
    using assms unfolding runTunnel_setup_def Let_def
    by (elim case_sum_Inr case_option_Inr if_Inr case_prod_Inr) (auto intro!: exI)
  then obtain ep addrs dns opts where ep: "tos_resolve os (tp_endpoint p) = Some ep"
    "ts_prober s = newPeerMTUProber ?i (if tp_mtu p = 0 then discoverPathMTU (tos_path os) (Some ep) else tp_mtu p) (tp_mtu p)"
    and dev: "fst (createNetTUN (tos_stack os) (tos_tcp os) addrs dns ?i opts) = Inr (ts_device s)" by blast
  from ep createNetTUN_mtu [OF dev] show thesis by (intro that [of ep]) (simp_all add: baseTunnelMTU_def minTunnelMTU_def)
qed

lemma new_prober_confirmed:
  "m = 0 \<or> 1280 \<le> m \<Longrightarrow> prober_ConfirmedMTU (newPeerMTUProber (if m = 0 then 1280 else m) l m) = (if m = 0 then 1280 else m)"
  by (auto simp: newPeerMTUProber_def prober_ConfirmedMTU_def Let_def baseTunnelMTU_def minTunnelMTU_def)

lemma discoverPathMTU_range: "1280 \<le> discoverPathMTU os ep" "discoverPathMTU os ep + wireGuardOverhead ep \<le> 1500"
  using discoverPathMTU_cases [of os ep] wireGuardOverhead_cases [of ep] by (auto simp: computeTunnelMTU_eq)

text \<open>
  C8. From the command line to the wire: a tunnel that was set up runs, after any number of
  iterations of its pinger, at an MTU of at least 1280 bytes whose packets fit into 1500 bytes
  once WireGuard has encapsulated them, or at the MTU that was configured. The device, the NIC
  and the search agree on it, whatever the path loses.
\<close>

theorem tunnel_mtu_end_to_end:
  assumes "runTunnel_setup os p = Inr s" and "tp_mtu p = 0 \<or> 1280 \<le> tp_mtu p"
    and "\<forall>m. sk_setNICMTU (tos_stack os) m"
    and "runUDPEchoPinger (tos_stack os) dial h info (Some (ts_device s)) (Some (ts_prober s)) envs = Inl (PingNext st)"
  shows "\<exists>m ep. nt_mtu (pg_dev st) = of_int m \<and> nt_nicMTU (pg_dev st) = of_int m \<and>
    map_option prober_ConfirmedMTU (pg_prober st) = Some m \<and> tos_resolve os (tp_endpoint p) = Some ep \<and>
    (if tp_mtu p = 0 then 1280 \<le> m \<and> m + wireGuardOverhead (Some ep) \<le> 1500 else m = tp_mtu p)"
proof -
  let ?i = "if tp_mtu p = 0 then 1280 else tp_mtu p"
  obtain ep where ep: "tos_resolve os (tp_endpoint p) = Some ep"
    and pr: "ts_prober s = newPeerMTUProber ?i (if tp_mtu p = 0 then discoverPathMTU (tos_path os) (Some ep) else tp_mtu p) (tp_mtu p)"
    and dev: "nt_mtu (ts_device s) = of_int ?i" "nt_epMTU (ts_device s) = of_int ?i" "nt_nicMTU (ts_device s) = of_int ?i"
    by (rule runTunnel_setup_mtu [OF assms(1)])
  from pinger_keeps_mtu [OF assms(3) assms(4) [unfolded pr] new_prober_confirmed [OF assms(2), symmetric] dev]
  obtain q where q: "pg_prober st = Some q" "nt_mtu (pg_dev st) = of_int (prober_ConfirmedMTU q)"
    "nt_nicMTU (pg_dev st) = of_int (prober_ConfirmedMTU q)"
    "if tp_mtu p > 0 then prober_ConfirmedMTU q = tp_mtu p
     else 1280 \<le> prober_ConfirmedMTU q \<and>
       prober_ConfirmedMTU q \<le> max 1280 (max ?i (if tp_mtu p = 0 then discoverPathMTU (tos_path os) (Some ep) else tp_mtu p))"
    by blast
  with ep assms(2) discoverPathMTU_range [of "tos_path os" "Some ep"] show ?thesis
    by (intro exI [of _ "prober_ConfirmedMTU q"] exI [of _ ep]) (auto split: if_splits)
qed

definition ex_key :: string where
  "ex_key = b64_encode (replicate 32 0)"

definition ex_socks_addr :: string where
  "ex_socks_addr = joinHostPort (ipv4_str [127, 0, 0, 1]) (nat_str 1080)"

definition ex_params :: tunnelParams where
  "ex_params = \<lparr>tp_priv = ex_key, tp_port = 50000, tp_endpoint = ''203.0.113.9:45'',
     tp_connResp = zero_apiResponse\<lparr>ar_ServerInfo := ex_info\<lparr>si_WGPubKey := ex_key, si_TunnelAddr := []\<rparr>\<rparr>, tp_stunSecret = ''s'',
     tp_sockets = ex_v4_sockets, tp_nomination = None, tp_socks5Addr = ex_socks_addr,
     tp_socks5Auth = \<lparr>sa_user = [], sa_pass = []\<rparr>, tp_debug = False, tp_candidateQueue = [], tp_candidateTypes = Map.empty,
     tp_mtu = 0, tp_tcpCongestionControl = []\<rparr>"

definition ex_good_os :: tunnel_os where
  "ex_good_os = ex_tunnel_os\<lparr>tos_resolve := \<lambda>_. Some \<lparr>ua_IP = [203, 0, 113, 9], ua_Port = 45, ua_Zone = []\<rparr>,
     tos_stack := ex_stack (\<lambda>_. True), tos_listen := Some\<rparr>"

lemma ex_setup: "\<exists>s. runTunnel_setup ex_good_os ex_params = Inr s"
proof -
  have k: "b64KeyToHex ex_key = Inr (hex_encode (replicate 32 0))"
    by (simp add: b64KeyToHex_def ex_key_def b64_decode_encode)
  obtain dev where dev: "fst (createNetTUN (ex_stack (\<lambda>_. True)) (tos_tcp ex_tunnel_os) [] [] 1280 []) = Inr dev"
    by (simp add: createNetTUN_def ex_stack_def applyOptions_def Let_def)
  obtain q m where socks: "snd (startSocks5Proxy Some (tos_logger ex_tunnel_os) ex_socks_addr \<lparr>sa_user = [], sa_pass = []\<rparr> True) = Inr (q, m)"
    using startSocks5Proxy_correct [of 1080 Some 127 0 0 1 ex_socks_addr "tos_logger ex_tunnel_os" "\<lparr>sa_user = [], sa_pass = []\<rparr>"]
    unfolding ex_socks_addr_def [symmetric] by auto
  have os: "tos_stack ex_good_os = ex_stack (\<lambda>_. True)" "tos_tcp ex_good_os = tos_tcp ex_tunnel_os" "tos_listen ex_good_os = Some"
    "tos_logger ex_good_os = tos_logger ex_tunnel_os" "\<exists>ep. tos_resolve ex_good_os e = Some ep" "tos_ipcSet ex_good_os ipc" "tos_up ex_good_os"
    for e ipc by (simp_all add: ex_good_os_def ex_tunnel_os_def)
  have p: "tp_priv ex_params = ex_key" "si_WGPubKey (ar_ServerInfo (tp_connResp ex_params)) = ex_key" "tunnel_addrs (tp_connResp ex_params) = []"
    "ar_DNSAddrs (tp_connResp ex_params) = []" "tp_mtu ex_params = 0" "tp_tcpCongestionControl ex_params = []"
    "tp_socks5Addr ex_params = ex_socks_addr" "tp_socks5Auth ex_params = \<lparr>sa_user = [], sa_pass = []\<rparr>"
    by (simp_all add: ex_params_def tunnel_addrs_def zero_apiResponse_def ex_info_def List.map_filter_simps)
  obtain ep where "tos_resolve ex_good_os (tp_endpoint ex_params) = Some ep" using os(5) by blast
  then show ?thesis
    by (simp add: runTunnel_setup_def p os k dev socks Let_def baseTunnelMTU_def minTunnelMTU_def List.map_filter_simps)
qed

theorem tunnel_mtu_end_to_end_witness:
  "\<exists>s st m. runTunnel_setup ex_good_os ex_params = Inr s \<and>
     runUDPEchoPinger (ex_stack (\<lambda>_. True)) (\<lambda>_. True) ''h'' ex_info (Some (ts_device s)) (Some (ts_prober s))
       [ex_env [ex_iter 0 (EchoData (pinger_request ''h'' 0))]] = Inl (PingNext st) \<and>
     nt_mtu (pg_dev st) = of_int m \<and> 1280 \<le> m \<and> m \<le> 1440"
proof -
  obtain s where s: "runTunnel_setup ex_good_os ex_params = Inr s" using ex_setup by blast
  obtain st where st: "runUDPEchoPinger (tos_stack ex_good_os) (\<lambda>_. True) ''h'' ex_info (Some (ts_device s)) (Some (ts_prober s))
      [ex_env [ex_iter 0 (EchoData (pinger_request ''h'' 0))]] = Inl (PingNext st)"
    using ex_echo_run by (auto simp: ex_good_os_def)
  have mtu: "tp_mtu ex_params = 0" "\<forall>m. sk_setNICMTU (tos_stack ex_good_os) m"
    by (simp_all add: ex_params_def ex_good_os_def ex_stack_def)
  from tunnel_mtu_end_to_end [OF s _ mtu(2) st] mtu(1) obtain m ep where
    "nt_mtu (pg_dev st) = of_int m" "1280 \<le> m" "m + wireGuardOverhead (Some ep) \<le> 1500" by auto
  moreover have "tos_stack ex_good_os = ex_stack (\<lambda>_. True)" by (simp add: ex_good_os_def)
  ultimately show ?thesis using s st wireGuardOverhead_cases [of "Some ep"] by fastforce
qed

section \<open>Nomination through the tunnel's sockets\<close>

text \<open>A datagram that continues the wait sequence of a tuple.\<close>

definition nominating :: "'m stun_lib \<Rightarrow> string \<Rightarrow> byte list \<Rightarrow> int \<Rightarrow> bool" where
  "nominating lib secret data w =
     (case parseStunMessage lib data of
        None \<Rightarrow> False
      | Some msg \<Rightarrow> sl_IsBindingRequest lib msg \<and> validStunIntegrity lib msg secret \<and> stunNominationWait lib msg = Some w)"

fun bind_handleAll :: "'m stun_lib \<Rightarrow> stunBind \<Rightarrow> byte list list \<Rightarrow> addr_port \<Rightarrow> panic + stunBind" where
  "bind_handleAll lib b [] ap = Inr b"
| "bind_handleAll lib b (d # ds) ap =
     (case bind_handleSTUN lib b d ap of Inl e \<Rightarrow> Inl e | Inr b' \<Rightarrow> bind_handleAll lib b' ds ap)"

lemma bind_observes:
  assumes "nominating lib (sb_stunSecret b) d w" "sb_nomination b = Some t" "tracker_inv t"
  obtains t' sel b' where "tracker_observe t (addrPort_String ap) w = Inr (t', sel)" "tracker_inv t'"
    "bind_handleSTUN lib b d ap = Inr b'" "sb_nomination b' = Some t'" "sb_stunSecret b' = sb_stunSecret b"
proof -
  from tracker_observe_cases [OF assms(3), of "addrPort_String ap" w] obtain t' sel where
    t': "tracker_observe t (addrPort_String ap) w = Inr (t', sel)" by auto
  have "tracker_inv t'" by (rule tracker_observe_inv [OF assms(3) _ t']) simp
  with that t' assms show thesis
    by (auto simp: bind_handleSTUN_def nominating_def respondToStunBindingRequestAddrPort_def Let_def split: option.splits)
qed

lemma bind_nominates:
  assumes "tracker_inv t" "nt_active t" "sb_nomination b = Some t" "list_all2 (nominating lib (sb_stunSecret b)) ds ws"
    and "nt_selected t = [] \<or> nt_selected t = addrPort_String ap"
  shows "\<exists>b' t'. bind_handleAll lib b ds ap = Inr b' \<and> sb_nomination b' = Some t' \<and> tracker_inv t' \<and> nt_active t' \<and>
    (nt_selected t = [] \<and> nt_selected t' = [] \<and> nextWait t' (addrPort_String ap) = foldl match_wait (nextWait t (addrPort_String ap)) ws \<or>
     nt_selected t' = addrPort_String ap)"
  using assms
proof (induction ds arbitrary: b t ws)
  case (Cons d ds)
  then obtain w us where ws: "ws = w # us" "nominating lib (sb_stunSecret b) d w" "list_all2 (nominating lib (sb_stunSecret b)) ds us"
    by (auto simp: list_all2_Cons1)
  let ?a = "addrPort_String ap"
  obtain t' sel b' where o: "tracker_observe t ?a w = Inr (t', sel)" "tracker_inv t'"
    "bind_handleSTUN lib b d ap = Inr b'" "sb_nomination b' = Some t'" "sb_stunSecret b' = sb_stunSecret b"
    by (rule bind_observes [OF ws(2) Cons.prems(3,1)])
  from tracker_observe_cases [OF Cons.prems(1), of ?a w] o(1) have
    t': "nt_active t' = nt_active t" "nt_pairs t' = (nt_pairs t)(?a \<mapsto> (if nt_selected t = [] then match_wait (nextWait t ?a) w else nextWait t ?a))"
    "nt_selected t' = (if nt_selected t = [] \<and> nt_active t \<and> nextWait t ?a < 5 \<and> match_wait (nextWait t ?a) w = 5 then ?a else nt_selected t)"
    by auto
  then have s: "nt_selected t' = [] \<or> nt_selected t' = ?a" using Cons.prems(5) by auto
  have "list_all2 (nominating lib (sb_stunSecret b')) ds us" using ws(3) o(5) by simp
  from Cons.IH [OF o(2) _ o(4) this s] t' Cons.prems(2,5) o(3) nextWait_observe [OF t'(2)] show ?case
    by (auto simp: ws(1) split: if_splits)
qed auto

text \<open>
  C39. Once a tunnel runs, the restriction to relays is gone: as long as nothing was nominated,
  any address that sends the wait sequence to WireGuard's sockets is selected, whether or not
  it is a relay, and the retry of the tunnel will switch to it.
\<close>

theorem bind_nominates_any_tuple:
  assumes "tracker_inv t" and "nt_active t" and "nt_selected t = []"
    and "list_all2 (nominating lib secret) ds nominationWaitSequence"
  shows "\<exists>b' t'. bind_handleAll lib (newStunBind sockets secret (Some t)) ds ap = Inr b' \<and> sb_nomination b' = Some t' \<and>
    nt_selected t' = addrPort_String ap"
proof -
  let ?b = "newStunBind sockets secret (Some t)"
  have "sb_nomination ?b = Some t" "sb_stunSecret ?b = secret" by (simp_all add: newStunBind_def)
  with bind_nominates [OF assms(1,2), of ?b lib ds nominationWaitSequence ap] assms(3,4) obtain b' t' where
    b': "bind_handleAll lib ?b ds ap = Inr b'" "sb_nomination b' = Some t'" "tracker_inv t'" "nt_active t'"
    "nt_selected t' = [] \<and> nextWait t' (addrPort_String ap) = foldl match_wait (nextWait t (addrPort_String ap)) nominationWaitSequence \<or>
     nt_selected t' = addrPort_String ap" by auto
  have "nextWait t (addrPort_String ap) \<le> 5" using assms(1) by (simp add: tracker_inv_def)
  then have "foldl match_wait (nextWait t (addrPort_String ap)) nominationWaitSequence = 5" by (rule progress_full_sequence)
  with b' have "nt_selected t' = addrPort_String ap" by (auto simp: tracker_inv_def completed_nextWait)
  with b' show ?thesis by blast
qed

text \<open>A library whose messages are the datagrams, each the text of one wait.\<close>

definition ex_waits_lib :: "byte list stun_lib" where
  "ex_waits_lib = ex_stun\<lparr>sl_Decode := Some, sl_Check := (\<lambda>_ _. True),
     sl_GetData := (\<lambda>d. Some (CHR 0x7B # json_member ''wait'' (nat_str (nat (nominationWaitSequence ! unat (hd d)))) @ [CHR 0x7D]))\<rparr>"

lemma ex_wait_read:
  "json_unmarshal (CHR 0x7B # json_member ''wait'' (nat_str n) @ [CHR 0x7D]) = Some (JObj [(''wait'', JNum (nat_str n))])"
proof (rule json_unmarshalI)
  let ?s = "CHR 0x7B # json_member ''wait'' (nat_str n) @ [CHR 0x7D]"
  have "ascii ''wait''" by (simp add: ascii_def)
  then show "json_value (Suc (Suc (Suc (2 * length ?s)))) ?s = Some (JObj [(''wait'', JNum (nat_str n))], [])"
    by (intro json_object_value) (simp add: json_members_last json_value_nat_str delims del: length_append)
qed simp

lemma ex_nominating: "k < 5 \<Longrightarrow> nominating ex_waits_lib ''s'' [of_nat k] (nominationWaitSequence ! k)"
proof -
  assume k: "k < 5"
  then have "0 \<le> nominationWaitSequence ! k" "nominationWaitSequence ! k \<le> 65535"
    by (auto simp: nominationWaitSequence_def less_Suc_eq numeral_eq_Suc)
  moreover have "unat (of_nat k :: byte) = k" using k by (simp add: unat_of_nat)
  ultimately show ?thesis
    using atoi_nat_str [of "nat (nominationWaitSequence ! k)"]
    by (simp add: nominating_def ex_waits_lib_def ex_stun_def parseStunMessage_def validStunIntegrity_def stunNominationWait_def ex_wait_read
        decode_field_def json_field_def equalFold_ascii)
qed

theorem bind_nominates_any_tuple_witness:
  "\<exists>b' t'. bind_handleAll ex_waits_lib
       (newStunBind ex_v4_sockets ''s'' (Some (newNominationTracker\<lparr>nt_active := True\<rparr>))) [[0], [1], [2], [3], [4]]
       (Addr4 [198, 51, 100, 1], 6) = Inr b' \<and>
     sb_nomination b' = Some t' \<and> nt_selected t' = addrPort_String (Addr4 [198, 51, 100, 1], 6)"
proof (rule bind_nominates_any_tuple)
  show "tracker_inv (newNominationTracker\<lparr>nt_active := True\<rparr>)" by (rule nom_run_inv [OF ex_active_run])
  have "list_all2 (nominating ex_waits_lib ''s'') (map (\<lambda>k. [of_nat k]) [0..<5]) (map ((!) nominationWaitSequence) [0..<5])"
    using ex_nominating by (simp add: list_all2_map1 list_all2_map2 list_all2_same)
  moreover have "map ((!) nominationWaitSequence) [0..<5] = nominationWaitSequence"
    using map_nth [of nominationWaitSequence] by simp
  moreover have "map (\<lambda>k. [of_nat k]) [0..<5] = [[0], [1], [2], [3], [4 :: byte]]" by (simp add: upt_rec)
  ultimately show "list_all2 (nominating ex_waits_lib ''s'') [[0], [1], [2], [3], [4]] nominationWaitSequence" by simp
qed (simp_all add: newNominationTracker_def)

end
